(* ===== verification/Prelude.thy ===== *)
theory Prelude
  imports Main "HOL-Library.Word"
begin

text \<open>
  What every component shares: results with an error on the left, the machine integers of Go
  (\<open>byte\<close>, \<open>uint16\<close>, \<open>int32\<close>, \<open>int64\<close> as words, and \<open>int64\<close> counters
  as \<open>int\<close> with the wrap-around written out), loops that scan a slice from an index, and the
  generic list lemmas of the component proofs.
\<close>

unbundle bit_operations_syntax

type_synonym u8 = "8 word"
type_synonym u16 = "16 word"
type_synonym u32 = "32 word"
type_synonym u64 = "64 word"

section \<open>Results: an error on the left, a value on the right\<close>

text \<open>
  A Go function with results \<open>(T, error)\<close> returns \<open>Inl e\<close> when its error is not nil and
  \<open>Inr v\<close> otherwise; \<open>res_bind\<close> is the idiom \<open>if err != nil { return err }\<close>.
\<close>

definition res_bind :: "'e + 'a \<Rightarrow> ('a \<Rightarrow> 'e + 'b) \<Rightarrow> 'e + 'b" where
  "res_bind m k = (case m of Inl e \<Rightarrow> Inl e | Inr v \<Rightarrow> k v)"

lemma res_bind_Inl [simp]: "res_bind (Inl e) k = Inl e"
  by (simp add: res_bind_def)

lemma res_bind_Inr [simp]: "res_bind (Inr v) k = k v"
  by (simp add: res_bind_def)

lemma res_bind_eq_Inr [simp]: "res_bind m k = Inr w \<longleftrightarrow> (\<exists>v. m = Inr v \<and> k v = Inr w)"
  by (cases m) simp_all

lemma res_bind_eq_Inl:
  "res_bind m k = Inl e \<longleftrightarrow> m = Inl e \<or> (\<exists>v. m = Inr v \<and> k v = Inl e)"
  by (cases m) simp_all

lemma res_bind_assoc: "res_bind (res_bind m f) g = res_bind m (\<lambda>v. res_bind (f v) g)"
  by (cases m) simp_all

lemma res_bind_cong [fundef_cong]:
  "m = m' \<Longrightarrow> (\<And>v. m' = Inr v \<Longrightarrow> f v = g v) \<Longrightarrow> res_bind m f = res_bind m' g"
  by (cases m') simp_all

lemma res_bind_split:
  "P (res_bind m k) \<longleftrightarrow> (\<forall>e. m = Inl e \<longrightarrow> P (Inl e)) \<and> (\<forall>v. m = Inr v \<longrightarrow> P (k v))"
  by (cases m) simp_all

definition is_ok :: "'e + 'a \<Rightarrow> bool" where
  "is_ok r = (case r of Inl _ \<Rightarrow> False | Inr _ \<Rightarrow> True)"

lemma is_ok_Inl [simp]: "\<not> is_ok (Inl e)"
  by (simp add: is_ok_def)

lemma is_ok_Inr [simp]: "is_ok (Inr v)"
  by (simp add: is_ok_def)

lemma is_ok_iff: "is_ok r \<longleftrightarrow> (\<exists>v. r = Inr v)"
  by (cases r) simp_all

section \<open>Signed 64-bit counters\<close>

text \<open>
  An \<open>int64\<close> that the code adds to is an \<open>int\<close> here; \<open>wrap64\<close> is what the machine
  stores after an addition, and \<open>int64_range\<close> says when nothing was lost.
\<close>

definition max_int64 :: int where
  "max_int64 = 9223372036854775807"

definition min_int64 :: int where
  "min_int64 = - 9223372036854775808"

definition wrap64 :: "int \<Rightarrow> int" where
  "wrap64 x = (x + 9223372036854775808) mod 18446744073709551616 - 9223372036854775808"

definition int64_range :: "int \<Rightarrow> bool" where
  "int64_range x \<longleftrightarrow> min_int64 \<le> x \<and> x \<le> max_int64"

lemma wrap64_id: "int64_range x \<Longrightarrow> wrap64 x = x"
  by (simp add: wrap64_def int64_range_def max_int64_def min_int64_def)

lemma wrap64_range: "int64_range (wrap64 x)"
proof -
  have "0 \<le> (x + 9223372036854775808) mod 18446744073709551616"
    and "(x + 9223372036854775808) mod 18446744073709551616 < 18446744073709551616"
    by simp_all
  then show ?thesis
    by (simp add: wrap64_def int64_range_def max_int64_def min_int64_def)
qed

section \<open>Scanning a slice from an index\<close>

text \<open>
  The loop \<open>for i < len(s) && p(s[i]) { i++ }\<close>: the first index from \<open>i\<close> on whose element
  fails \<open>p\<close>, or the length.
\<close>

function scan_while :: "('a \<Rightarrow> bool) \<Rightarrow> 'a list \<Rightarrow> nat \<Rightarrow> nat" where
  "scan_while p xs i = (if i < length xs \<and> p (xs ! i) then scan_while p xs (Suc i) else i)"
  by pat_completeness auto
termination
  by (relation "measure (\<lambda>(p, xs, i). length xs - i)") auto

declare scan_while.simps [simp del]

lemma scan_while_takeWhile:
  "scan_while p xs i = (if i \<le> length xs then i + length (takeWhile p (drop i xs)) else i)"
proof (induction p xs i rule: scan_while.induct)
  case (1 p xs i)
  show ?case
  proof (cases "i < length xs \<and> p (xs ! i)")
    case True
    then have "drop i xs = xs ! i # drop (Suc i) xs"
      by (simp add: Cons_nth_drop_Suc)
    with True "1.IH" show ?thesis
      by (subst scan_while.simps) simp
  next
    case False
    then show ?thesis
      by (subst scan_while.simps) (cases "drop i xs"; auto simp: nth_via_drop)
  qed
qed

lemma scan_while_ge: "i \<le> scan_while p xs i"
  by (simp add: scan_while_takeWhile)

lemma scan_while_stop: "scan_while p xs i < length xs \<Longrightarrow> \<not> p (xs ! scan_while p xs i)"
proof (induction p xs i rule: scan_while.induct)
  case (1 p xs i)
  then show ?case by (cases "i < length xs \<and> p (xs ! i)") (auto simp: scan_while.simps [of p xs i])
qed

lemma scan_while_Suc_gt: "i \<le> j \<Longrightarrow> i < Suc (scan_while p xs (Suc j))"
  using scan_while_ge [of "Suc j" p xs] by simp

lemma scan_while_le: "i \<le> length xs \<Longrightarrow> scan_while p xs i \<le> length xs"
  using length_takeWhile_le [of p "drop i xs"] by (simp add: scan_while_takeWhile)

section \<open>Words read as natural numbers\<close>

lemma unat_u8_less: "unat (b :: u8) < 256"
  using unsigned_less [of b, where 'a = nat] by simp

lemma unat_u16_less: "unat (u :: u16) < 65536"
  using unsigned_less [of u, where 'a = nat] by simp

lemma nat_shift_or_eq_add: "(x::nat) < 2 ^ k \<Longrightarrow> a * 2 ^ k OR x = a * 2 ^ k + x"
proof -
  assume x: "x < 2 ^ k"
  have "\<not> bit x n" if "k \<le> n" for n
  proof -
    have "take_bit k x = x" using x by (simp add: take_bit_nat_eq_self_iff)
    then show ?thesis using that by (metis bit_take_bit_iff not_le)
  qed
  then have "push_bit k a AND x = 0"
    by (intro bit_eqI) (auto simp: bit_simps)
  then have "push_bit k a + x = push_bit k a OR x" by (rule disjunctive_add_eq_or)
  then show ?thesis by (simp add: push_bit_eq_mult)
qed

lemma unat_and_mask: "unat ((w::'a::len word) AND mask k) = unat w mod 2 ^ k"
proof -
  have "unat (w AND mask k) = take_bit k (unat w)"
    by (simp only: take_bit_eq_mask [symmetric] unsigned_take_bit_eq)
  then show ?thesis by (simp add: take_bit_eq_mod)
qed

text \<open>The masks the byte codecs use.\<close>

lemma unat_and_low:
  "unat ((w::'a::len word) AND 0x0F) = unat w mod 16"
  "unat ((w::'a::len word) AND 0x1F) = unat w mod 32"
  "unat ((w::'a::len word) AND 0x3F) = unat w mod 64"
  using unat_and_mask [of w 4] unat_and_mask [of w 5] unat_and_mask [of w 6]
  by (simp_all add: mask_eq_exp_minus_1)

lemma unat_drop_bit_div: "unat (drop_bit k (w::'a::len word)) = unat w div 2 ^ k"
  unfolding unat_drop_bit_eq by (simp add: drop_bit_eq_div)

lemma unat_push_bit_mult:
  "unat (push_bit k (w::'a::len word)) = unat w * 2 ^ k mod 2 ^ LENGTH('a)"
  unfolding unsigned_push_bit_eq by (simp add: push_bit_eq_mult take_bit_eq_mod)

lemma unat_ucast_mod: "unat (ucast (w::'a::len word) :: 'b::len word) = unat w mod 2 ^ LENGTH('b)"
  unfolding unsigned_ucast_eq by (simp add: take_bit_eq_mod)

section \<open>Lists\<close>

lemma length_ge_2_snoc:
  assumes "2 \<le> length xs"
  obtains ys a b where "xs = ys @ [a, b]"
proof -
  from assms obtain zs b where zs: "xs = zs @ [b]"
    by (cases xs rule: rev_cases) auto
  with assms obtain ys a where "zs = ys @ [a]"
    by (cases zs rule: rev_cases) auto
  with zs that show ?thesis by simp
qed

lemma takeWhile_append_stop:
  "(\<And>x. x \<in> set xs \<Longrightarrow> p x) \<Longrightarrow> \<not> p y \<Longrightarrow> takeWhile p (xs @ y # ys) = xs"
  by (induction xs) auto

lemma drop_append_exact: "n = length xs \<Longrightarrow> drop n (xs @ ys) = ys"
  by simp

end
