(* ===== verification/Mutf8.thy ===== *)
theory Mutf8
  imports Prelude
begin

text \<open>
  \<open>internal/mutf8/mutf8.go\<close>: the modified UTF-8 of class files and serialized streams as
  lossless UTF-16 code units. The decoder walks the bytes with a running offset, so the model
  recurses on the bytes that are left and carries the offset \<open>i\<close> and the units \<open>out\<close>
  decoded so far. The theorems show that encoding and decoding are inverse to each other in both
  directions: the decoder accepts exactly the image of the encoder.
\<close>

section \<open>The codec\<close>

datatype decode_error = DecodeError (Offset: int) (Reason: string)

definition isContinuation :: "u8 \<Rightarrow> bool" where
  "isContinuation b \<longleftrightarrow> b AND 0xC0 = 0x80"

definition append_unit :: "int \<Rightarrow> u16 list \<Rightarrow> int \<Rightarrow> u16 \<Rightarrow> decode_error + u16 list" where
  "append_unit maxUnits out start u =
     (if maxUnits \<ge> 0 \<and> int (length out) \<ge> maxUnits then Inl (DecodeError start ''budget'')
      else Inr (out @ [u]))"

definition unit2 :: "u8 \<Rightarrow> u8 \<Rightarrow> u16" where
  "unit2 b c = push_bit 6 (ucast (b AND 0x1F)) OR ucast (c AND 0x3F)"

definition unit3 :: "u8 \<Rightarrow> u8 \<Rightarrow> u8 \<Rightarrow> u16" where
  "unit3 b c1 c2 =
     push_bit 12 (ucast (b AND 0x0F)) OR push_bit 6 (ucast (c1 AND 0x3F)) OR ucast (c2 AND 0x3F)"

fun decode_loop :: "int \<Rightarrow> int \<Rightarrow> u16 list \<Rightarrow> u8 list \<Rightarrow> decode_error + u16 list" where
  "decode_loop maxUnits i out [] = Inr out"
| "decode_loop maxUnits i out (b # rest) =
     (if b = 0 then Inl (DecodeError i ''nul_byte'')
      else if b < 0x80 then
        res_bind (append_unit maxUnits out i (ucast b)) (\<lambda>out'. decode_loop maxUnits (i + 1) out' rest)
      else if b < 0xC0 then Inl (DecodeError i ''bad_continuation'')
      else if b < 0xE0 then
        (case rest of
          [] \<Rightarrow> Inl (DecodeError i ''truncated'')
        | c # rest' \<Rightarrow>
            if \<not> isContinuation c then Inl (DecodeError (i + 1) ''bad_continuation'')
            else if b = 0xC0 \<and> c = 0x80 then
              res_bind (append_unit maxUnits out i 0) (\<lambda>out'. decode_loop maxUnits (i + 2) out' rest')
            else if b < 0xC2 then Inl (DecodeError i ''overlong'')
            else res_bind (append_unit maxUnits out i (unit2 b c))
                   (\<lambda>out'. decode_loop maxUnits (i + 2) out' rest'))
      else if b < 0xF0 then
        (case rest of
          c1 # c2 # rest' \<Rightarrow>
            if \<not> isContinuation c1 then Inl (DecodeError (i + 1) ''bad_continuation'')
            else if \<not> isContinuation c2 then Inl (DecodeError (i + 2) ''bad_continuation'')
            else if unit3 b c1 c2 < 0x800 then Inl (DecodeError i ''overlong'')
            else res_bind (append_unit maxUnits out i (unit3 b c1 c2))
                   (\<lambda>out'. decode_loop maxUnits (i + 3) out' rest')
        | _ \<Rightarrow> Inl (DecodeError i ''truncated''))
      else if b < 0xF8 then Inl (DecodeError i ''four_byte'')
      else Inl (DecodeError i ''invalid_lead''))"

definition DecodeBounded :: "u8 list \<Rightarrow> int \<Rightarrow> decode_error + u16 list" where
  "DecodeBounded raw maxUnits = decode_loop maxUnits 0 [] raw"

definition Decode :: "u8 list \<Rightarrow> decode_error + u16 list" where
  "Decode raw = DecodeBounded raw (-1)"

definition CheckedAdd :: "int \<Rightarrow> int \<Rightarrow> int \<times> bool" where
  "CheckedAdd a b =
     (if a < 0 \<or> b < 0 then (0, False)
      else if a > max_int64 - b then (0, False)
      else (a + b, True))"

definition EncodeCap :: "int \<Rightarrow> int" where
  "EncodeCap nUnits =
     (if nUnits \<le> 0 then 0
      else if nUnits > max_int64 div 3 then max_int64
      else nUnits * 3)"

definition encode_unit :: "u16 \<Rightarrow> u8 list" where
  "encode_unit u =
     (if u = 0 then [0xC0, 0x80]
      else if u < 0x80 then [ucast u]
      else if u < 0x800 then [0xC0 OR ucast (drop_bit 6 u), 0x80 OR ucast (u AND 0x3F)]
      else [0xE0 OR ucast (drop_bit 12 u), 0x80 OR ucast (drop_bit 6 u AND 0x3F),
            0x80 OR ucast (u AND 0x3F)])"

definition Encode :: "u16 list \<Rightarrow> u8 list" where
  "Encode units = concat (map encode_unit units)"

fun concat_size :: "int \<Rightarrow> int \<Rightarrow> u16 list list \<Rightarrow> decode_error + int" where
  "concat_size maxUnits n [] = Inr n"
| "concat_size maxUnits n (p # ps) =
     (let (sum, ok) = CheckedAdd n (int (length p)) in
      if \<not> ok then Inl (DecodeError 0 ''budget'')
      else if maxUnits \<ge> 0 \<and> sum > maxUnits then Inl (DecodeError 0 ''budget'')
      else concat_size maxUnits sum ps)"

fun copy_parts :: "u16 list \<Rightarrow> nat \<Rightarrow> u16 list list \<Rightarrow> u16 list" where
  "copy_parts out off [] = out"
| "copy_parts out off (p # ps) =
     copy_parts (take off out @ take (length out - off) p @ drop (off + length p) out)
       (off + length p) ps"

definition ConcatBounded :: "int \<Rightarrow> u16 list list \<Rightarrow> decode_error + u16 list" where
  "ConcatBounded maxUnits parts =
     res_bind (concat_size maxUnits 0 parts) (\<lambda>n. Inr (copy_parts (replicate (nat n) 0) 0 parts))"

definition Concat :: "u16 list list \<Rightarrow> u16 list" where
  "Concat parts = (case ConcatBounded (-1) parts of Inl _ \<Rightarrow> [] | Inr out \<Rightarrow> out)"

section \<open>Bytes and units as numbers\<close>

lemma unat_unit2: "unat (unit2 b c) = unat b mod 32 * 64 + unat c mod 64"
proof -
  have "unat (push_bit 6 (ucast (b AND 0x1F) :: u16)) = unat b mod 32 * 64"
    unfolding unat_push_bit_mult by (simp add: unat_ucast_mod unat_and_low)
  moreover have "unat (ucast (c AND 0x3F) :: u16) = unat c mod 64"
    by (simp add: unat_ucast_mod unat_and_low)
  ultimately show ?thesis
    using nat_shift_or_eq_add [of "unat c mod 64" 6 "unat b mod 32"]
    by (simp add: unit2_def unsigned_or_eq)
qed

lemma unat_unit3:
  "unat (unit3 b c1 c2) = unat b mod 16 * 4096 + unat c1 mod 64 * 64 + unat c2 mod 64"
proof -
  have hi: "unat (push_bit 12 (ucast (b AND 0x0F) :: u16)) = unat b mod 16 * 2 ^ 12"
    unfolding unat_push_bit_mult by (simp add: unat_ucast_mod unat_and_low)
  have mid: "unat (push_bit 6 (ucast (c1 AND 0x3F) :: u16)) = unat c1 mod 64 * 2 ^ 6"
    unfolding unat_push_bit_mult by (simp add: unat_ucast_mod unat_and_low)
  have lo: "unat (ucast (c2 AND 0x3F) :: u16) = unat c2 mod 64"
    by (simp add: unat_ucast_mod unat_and_low)
  have "unat b mod 16 * 2 ^ 12 OR (unat c1 mod 64 * 2 ^ 6 OR unat c2 mod 64) =
    unat b mod 16 * 2 ^ 12 + (unat c1 mod 64 * 2 ^ 6 + unat c2 mod 64)"
  proof -
    have "unat c1 mod 64 * 2 ^ 6 OR unat c2 mod 64 = unat c1 mod 64 * 2 ^ 6 + unat c2 mod 64"
      by (rule nat_shift_or_eq_add) simp
    moreover have "unat c1 mod 64 * 2 ^ 6 + unat c2 mod 64 < 2 ^ 12" by (simp; presburger)
    ultimately show ?thesis by (simp only: nat_shift_or_eq_add)
  qed
  then have "unat (unit3 b c1 c2) =
    unat b mod 16 * 2 ^ 12 + (unat c1 mod 64 * 2 ^ 6 + unat c2 mod 64)"
    by (simp only: unit3_def unsigned_or_eq or.assoc hi mid lo)
  then show ?thesis by simp
qed

lemma isContinuation_iff: "isContinuation b \<longleftrightarrow> unat b div 64 = 2"
proof -
  have "b AND 0xC0 = push_bit 6 (drop_bit 6 b)"
  proof (rule bit_word_eqI)
    fix n assume "n < LENGTH(8)"
    then have "n \<in> {0, 1, 2, 3, 4, 5, 6, 7}" by auto
    then show "bit (b AND 0xC0) n = bit (push_bit 6 (drop_bit 6 b)) n"
      by (auto simp: bit_simps)
  qed
  moreover have "unat b div 64 * 64 < 256"
    using div_times_less_eq_dividend [of "unat b" 64] unat_u8_less [of b] by simp
  ultimately have "unat (b AND 0xC0) = unat b div 64 * 64"
    by (simp add: unat_push_bit_mult unat_drop_bit_div)
  then show ?thesis
    unfolding isContinuation_def word_unat_eq_iff by auto
qed

lemma encode_unit_2:
  assumes "0x80 \<le> u" "u < 0x800"
  obtains b c where "encode_unit u = [b, c]" "unat b = 192 + unat u div 64" "unat c = 128 + unat u mod 64"
proof -
  have "unat ((0xC0 :: u8) OR ucast (drop_bit 6 u)) = 192 + unat u div 64"
    using assms nat_shift_or_eq_add [of "unat u div 64" 6 3]
    by (simp add: unsigned_or_eq unat_ucast_mod unat_drop_bit_div word_le_nat_alt word_less_nat_alt)
  moreover have "unat ((0x80 :: u8) OR ucast (u AND 0x3F)) = 128 + unat u mod 64"
    using nat_shift_or_eq_add [of "unat u mod 64" 6 2]
    by (simp add: unsigned_or_eq unat_ucast_mod unat_and_low)
  moreover have "u \<noteq> 0" "\<not> u < 0x80" using assms by auto
  ultimately show ?thesis using assms that by (simp add: encode_unit_def)
qed

lemma encode_unit_3:
  assumes "0x800 \<le> u"
  obtains b c1 c2 where "encode_unit u = [b, c1, c2]" "unat b = 224 + unat u div 4096"
    "unat c1 = 128 + unat u div 64 mod 64" "unat c2 = 128 + unat u mod 64"
proof -
  have "unat u < 65536" using unat_u16_less [of u] by simp
  then have "unat ((0xE0 :: u8) OR ucast (drop_bit 12 u)) = 224 + unat u div 4096"
    using nat_shift_or_eq_add [of "unat u div 4096" 4 14]
    by (simp add: unsigned_or_eq unat_ucast_mod unat_drop_bit_div less_mult_imp_div_less)
  moreover have "unat ((0x80 :: u8) OR ucast (drop_bit 6 u AND 0x3F)) = 128 + unat u div 64 mod 64"
    using nat_shift_or_eq_add [of "unat u div 64 mod 64" 6 2]
    by (simp add: unsigned_or_eq unat_ucast_mod unat_and_low unat_drop_bit_div)
  moreover have "unat ((0x80 :: u8) OR ucast (u AND 0x3F)) = 128 + unat u mod 64"
    using nat_shift_or_eq_add [of "unat u mod 64" 6 2]
    by (simp add: unsigned_or_eq unat_ucast_mod unat_and_low)
  moreover have "u \<noteq> 0" "\<not> u < 0x80" "\<not> u < 0x800"
    using assms by (auto simp: word_le_nat_alt word_less_nat_alt unat_eq_0 [symmetric] simp del: unat_eq_0)
  ultimately show ?thesis using that by (simp add: encode_unit_def)
qed

text \<open>The arithmetic reading of the tests on bytes and units.\<close>

lemmas word_arith = word_le_nat_alt word_less_nat_alt word_unat_eq_iff

lemma decode_encode_unit:
  assumes room: "m < 0 \<or> int (length out) < m"
  shows "decode_loop m i (out) (encode_unit u @ rest) =
    decode_loop m (i + int (length (encode_unit u))) (out @ [u]) rest"
proof -
  have app: "append_unit m out j v = Inr (out @ [v])" for j v
    using room by (auto simp: append_unit_def)
  consider "u = 0" | "u \<noteq> 0" "u < 0x80" | "0x80 \<le> u" "u < 0x800" | "0x800 \<le> u"
    by fastforce
  then show ?thesis
  proof cases
    case 1
    then show ?thesis by (simp add: encode_unit_def isContinuation_def app)
  next
    case 2
    then have "unat u < 128" "unat u \<noteq> 0" by (auto simp: word_arith)
    moreover from this have "ucast (ucast u :: u8) = u"
      by (simp add: word_unat_eq_iff unat_ucast_mod)
    ultimately show ?thesis using 2
      by (simp add: encode_unit_def app word_less_nat_alt unat_ucast_mod
          word_unat_eq_iff [of _ 0])
  next
    case 3
    obtain b c where e: "encode_unit u = [b, c]" and b: "unat b = 192 + unat u div 64"
      and c: "unat c = 128 + unat u mod 64"
      using 3 by (rule encode_unit_2)
    have u: "128 \<le> unat u" "unat u < 2048" using 3 by (auto simp: word_arith)
    have "unat b mod 32 = unat u div 64" "unat c mod 64 = unat u mod 64"
      using u b c mod_mult_self4 [of 32 6 "unat u div 64"] mod_mult_self4 [of 64 2 "unat u mod 64"]
      by simp_all
    then have "unit2 b c = u"
      by (simp only: word_unat_eq_iff unat_unit2 div_mult_mod_eq)
    moreover have "isContinuation c" using c by (simp add: isContinuation_iff)
    moreover have "194 \<le> unat b" "unat b < 224" using u b by auto
    ultimately show ?thesis using e
      by (simp add: app word_less_nat_alt word_unat_eq_iff [of b])
  next
    case 4
    obtain b c1 c2 where e: "encode_unit u = [b, c1, c2]" and b: "unat b = 224 + unat u div 4096"
      and c: "unat c1 = 128 + unat u div 64 mod 64" "unat c2 = 128 + unat u mod 64"
      using 4 by (rule encode_unit_3)
    have u: "2048 \<le> unat u" "unat u < 65536"
      using 4 unat_u16_less [of u] by (auto simp: word_arith)
    have m: "unat b mod 16 = unat u div 4096" "unat c1 mod 64 = unat u div 64 mod 64"
      "unat c2 mod 64 = unat u mod 64"
      using u b c mod_mult_self4 [of 16 14 "unat u div 4096"]
        mod_mult_self4 [of 64 2 "unat u div 64 mod 64"] mod_mult_self4 [of 64 2 "unat u mod 64"]
        less_mult_imp_div_less [of "unat u" 16 4096]
      by simp_all
    have "unat u div 4096 * 4096 + unat u div 64 mod 64 * 64 + unat u mod 64 = unat u"
    proof -
      have "unat u div 4096 = unat u div 64 div 64" by (simp add: div_mult2_eq [symmetric])
      then show ?thesis
        using div_mult_mod_eq [of "unat u div 64" 64] div_mult_mod_eq [of "unat u" 64] by linarith
    qed
    then have "unit3 b c1 c2 = u"
      by (simp only: word_unat_eq_iff unat_unit3 m)
    moreover have "isContinuation c1" "isContinuation c2" using c by (simp_all add: isContinuation_iff)
    moreover have "224 \<le> unat b" "unat b < 240" using u b by auto
    ultimately show ?thesis using e u
      by (simp add: app word_less_nat_alt word_unat_eq_iff [of b])
  qed
qed

lemma Encode_Cons: "Encode (u # us) = encode_unit u @ Encode us"
  by (simp add: Encode_def)

lemma Encode_append: "Encode (us @ vs) = Encode us @ Encode vs"
  by (simp add: Encode_def)

lemma decode_loop_Encode_append:
  "m < 0 \<or> int (length out + length us) \<le> m \<Longrightarrow>
   decode_loop m i out (Encode us @ rest) =
   decode_loop m (i + int (length (Encode us))) (out @ us) rest"
proof (induction us arbitrary: i out)
  case Nil
  then show ?case by (simp add: Encode_def)
next
  case (Cons u us)
  then show ?case by (auto simp: Encode_Cons decode_encode_unit add.assoc)
qed

lemma decode_loop_Encode:
  "m < 0 \<or> int (length out + length us) \<le> m \<Longrightarrow>
   decode_loop m i out (Encode us) = Inr (out @ us)"
  using decode_loop_Encode_append [of m out us i "[]"] by simp

lemma encode_byte: "b \<noteq> 0 \<Longrightarrow> b < 0x80 \<Longrightarrow> encode_unit (ucast (b :: u8)) = [b]"
proof -
  assume b: "b \<noteq> 0" "b < 0x80"
  have "unat (ucast b :: u16) = unat b" using unat_u8_less [of b] by (simp add: unat_ucast_mod)
  moreover have "ucast (ucast b :: u16) = b"
    using unat_u8_less [of b] by (simp add: word_unat_eq_iff unat_ucast_mod)
  ultimately show ?thesis using b
    by (simp add: encode_unit_def word_less_nat_alt word_unat_eq_iff [of _ 0])
qed

lemma encode_unit2:
  assumes b: "\<not> b < 0xC2" "b < 0xE0" and c: "isContinuation c"
  shows "encode_unit (unit2 b c) = [b, c]"
proof -
  have ub: "194 \<le> unat b" "unat b < 224" using b by (auto simp: word_less_nat_alt)
  then have "unat b div 32 = 6" by (intro div_nat_eqI) auto
  then have b6: "unat b mod 32 + 192 = unat b"
    using div_mult_mod_eq [of "unat b" 32] by linarith
  have c6: "unat c mod 64 + 128 = unat c"
    using c div_mult_mod_eq [of "unat c" 64] by (simp add: isContinuation_iff)
  have r: "0x80 \<le> unit2 b c" "unit2 b c < 0x800"
    using ub b6 by (simp_all add: word_less_nat_alt word_le_nat_alt unat_unit2)
  then obtain b' c' where e: "encode_unit (unit2 b c) = [b', c']"
    and "unat b' = 192 + unat (unit2 b c) div 64" "unat c' = 128 + unat (unit2 b c) mod 64"
    by (rule encode_unit_2)
  moreover have "unat (unit2 b c) div 64 = unat b mod 32" "unat (unit2 b c) mod 64 = unat c mod 64"
    by (simp_all add: unat_unit2)
  ultimately have "unat b' = unat b" "unat c' = unat c"
    using b6 c6 by linarith+
  with e show ?thesis by (simp add: word_unat_eq_iff)
qed

lemma encode_unit3:
  assumes b: "\<not> b < 0xE0" "b < 0xF0" and c: "isContinuation c1" "isContinuation c2"
    and r: "\<not> unit3 b c1 c2 < 0x800"
  shows "encode_unit (unit3 b c1 c2) = [b, c1, c2]"
proof -
  let ?u = "unat b mod 16 * 4096 + unat c1 mod 64 * 64 + unat c2 mod 64"
  have ub: "224 \<le> unat b" "unat b < 240" using b by (auto simp: word_less_nat_alt)
  then have "unat b div 16 = 14" by (intro div_nat_eqI) auto
  then have b6: "unat b mod 16 + 224 = unat b"
    using div_mult_mod_eq [of "unat b" 16] by linarith
  have c6: "unat c1 mod 64 + 128 = unat c1" "unat c2 mod 64 + 128 = unat c2"
    using c div_mult_mod_eq [of "unat c1" 64] div_mult_mod_eq [of "unat c2" 64]
    by (simp_all add: isContinuation_iff)
  have d: "?u div 64 = unat b mod 16 * 64 + unat c1 mod 64" by simp
  then have "?u div 64 div 64 = unat b mod 16" by simp
  then have "?u div 4096 = unat b mod 16" by (simp add: div_mult2_eq [symmetric])
  moreover have "?u div 64 mod 64 = unat c1 mod 64" unfolding d by simp
  moreover have "?u mod 64 = unat c2 mod 64"
  proof -
    have "?u = (unat b mod 16 * 64 + unat c1 mod 64) * 64 + unat c2 mod 64" by simp
    then show ?thesis by (simp only: mod_mult_self3 mod_mod_trivial)
  qed
  moreover obtain b' c1' c2' where e: "encode_unit (unit3 b c1 c2) = [b', c1', c2']"
    and "unat b' = 224 + ?u div 4096" "unat c1' = 128 + ?u div 64 mod 64"
    and "unat c2' = 128 + ?u mod 64"
    using r by (metis encode_unit_3 not_less unat_unit3)
  ultimately have "unat b' = unat b" "unat c1' = unat c1" "unat c2' = unat c2"
    using b6 c6 by linarith+
  with e show ?thesis by (simp add: word_unat_eq_iff)
qed

text \<open>What the decoder has consumed is the encoding of what it has appended.\<close>

lemma append_unit_Inr:
  "append_unit m out i u = Inr out' \<longleftrightarrow> out' = out @ [u] \<and> (m < 0 \<or> int (length out') \<le> m)"
  by (auto simp: append_unit_def)

declare decode_loop.simps(2) [simp del]

lemma decode_loop_cases:
  assumes "decode_loop m i out (b # rest) = Inr us"
  obtains (one) "b \<noteq> 0" "b < 0x80" "m < 0 \<or> int (length out) < m"
      "decode_loop m (i + 1) (out @ [ucast b]) rest = Inr us"
  | (nul) c r where "rest = c # r" "b = 0xC0" "c = 0x80" "m < 0 \<or> int (length out) < m"
      "decode_loop m (i + 2) (out @ [0]) r = Inr us"
  | (two) c r where "rest = c # r" "\<not> b < 0xC2" "b < 0xE0" "isContinuation c"
      "m < 0 \<or> int (length out) < m" "decode_loop m (i + 2) (out @ [unit2 b c]) r = Inr us"
  | (three) c1 c2 r where "rest = c1 # c2 # r" "\<not> b < 0xE0" "b < 0xF0" "isContinuation c1"
      "isContinuation c2" "\<not> unit3 b c1 c2 < 0x800" "m < 0 \<or> int (length out) < m"
      "decode_loop m (i + 3) (out @ [unit3 b c1 c2]) r = Inr us"
  using assms unfolding decode_loop.simps
  by (auto simp: append_unit_Inr split: if_splits list.splits)

lemma decode_loop_sound:
  "decode_loop m i out raw = Inr us \<Longrightarrow>
   \<exists>vs. us = out @ vs \<and> raw = Encode vs \<and> (m < 0 \<or> vs = [] \<or> int (length us) \<le> m)"
proof (induction raw arbitrary: i out rule: length_induct)
  case (1 raw)
  have step: ?case
    if "raw = encode_unit u @ r" "m < 0 \<or> int (length out) < m"
      "decode_loop m j (out @ [u]) r = Inr us" "encode_unit u \<noteq> []" for u r j
  proof -
    have "length r < length raw" using that by simp
    with "1.IH" that(3) obtain vs where "us = (out @ [u]) @ vs" "r = Encode vs"
      "m < 0 \<or> vs = [] \<or> int (length us) \<le> m"
      by blast
    with that(1,2) show ?thesis
      by (intro exI [of _ "u # vs"]) (auto simp: Encode_Cons)
  qed
  show ?case
  proof (cases raw)
    case Nil
    with "1.prems" show ?thesis by (auto simp: Encode_def intro: exI [of _ "[]"])
  next
    case (Cons b rest)
    with "1.prems" have "decode_loop m i out (b # rest) = Inr us" by simp
    then show ?thesis
    proof (cases rule: decode_loop_cases)
      case one
      then show ?thesis using Cons by (intro step [of "ucast b" rest "i + 1"]) (simp_all add: encode_byte)
    next
      case (nul c r)
      then show ?thesis using Cons by (intro step [of 0 r "i + 2"]) (simp_all add: encode_unit_def)
    next
      case (two c r)
      then show ?thesis using Cons
        by (intro step [of "unit2 b c" r "i + 2"]) (simp_all add: encode_unit2)
    next
      case (three c1 c2 r)
      then show ?thesis using Cons
        by (intro step [of "unit3 b c1 c2" r "i + 3"]) (simp_all add: encode_unit3)
    qed
  qed
qed

lemma DecodeBounded_iff:
  "DecodeBounded raw m = Inr us \<longleftrightarrow> raw = Encode us \<and> (m < 0 \<or> int (length us) \<le> m)"
proof
  assume "DecodeBounded raw m = Inr us"
  then have "\<exists>vs. us = [] @ vs \<and> raw = Encode vs \<and> (m < 0 \<or> vs = [] \<or> int (length us) \<le> m)"
    unfolding DecodeBounded_def by (rule decode_loop_sound)
  moreover have "0 \<le> m" if "\<not> m < 0" using that by simp
  ultimately show "raw = Encode us \<and> (m < 0 \<or> int (length us) \<le> m)" by auto
next
  assume "raw = Encode us \<and> (m < 0 \<or> int (length us) \<le> m)"
  then show "DecodeBounded raw m = Inr us"
    using decode_loop_Encode [of m "[]" us 0] by (auto simp: DecodeBounded_def)
qed

lemma decode_unit_over_budget:
  "0 \<le> m \<Longrightarrow> m \<le> int (length out) \<Longrightarrow>
   decode_loop m i out (encode_unit u @ rest) = Inl (DecodeError i ''budget'')"
proof -
  assume full: "0 \<le> m" "m \<le> int (length out)"
  have app: "append_unit m out j v = Inl (DecodeError j ''budget'')" for j v
    using full by (simp add: append_unit_def)
  have fits: "decode_loop (-1) i [] (encode_unit u) = Inr [u]"
    using decode_encode_unit [of "-1" "[]" i u "[]"] by simp
  obtain b r where b: "encode_unit u = b # r"
    by (cases "encode_unit u") (auto simp: encode_unit_def split: if_splits)
  from fits [unfolded b] show ?thesis
    unfolding b append_Cons
    by (cases rule: decode_loop_cases) (auto simp: decode_loop.simps app isContinuation_def word_less_nat_alt)
qed

lemma length_encode_unit: "1 \<le> length (encode_unit u) \<and> length (encode_unit u) \<le> 3"
  by (simp add: encode_unit_def)

lemma length_Encode: "length us \<le> length (Encode us) \<and> length (Encode us) \<le> 3 * length us"
proof (induction us)
  case Nil
  then show ?case by (simp add: Encode_def)
next
  case (Cons u us)
  then show ?case using length_encode_unit [of u] by (simp add: Encode_Cons)
qed

lemma concat_size_eq:
  "0 \<le> n \<Longrightarrow> concat_size m n ps =
     (if ps = [] \<or> (n + int (length (concat ps)) \<le> max_int64 \<and> (m < 0 \<or> n + int (length (concat ps)) \<le> m))
      then Inr (n + int (length (concat ps))) else Inl (DecodeError 0 ''budget''))"
proof (induction ps arbitrary: n)
  case Nil
  then show ?case by simp
next
  case (Cons p ps)
  show ?case
  proof (cases "n + int (length p) \<le> max_int64 \<and> (m < 0 \<or> n + int (length p) \<le> m)")
    case True
    with Cons.prems have "concat_size m n (p # ps) = concat_size m (n + int (length p)) ps"
      by (auto simp: CheckedAdd_def)
    with Cons.IH [of "n + int (length p)"] Cons.prems True show ?thesis
      by (auto simp: add.assoc)
  next
    case False
    with Cons.prems show ?thesis by (auto simp: CheckedAdd_def)
  qed
qed

lemma copy_parts_eq:
  "length out = off + length (concat ps) \<Longrightarrow>
   copy_parts out off ps = take off out @ concat ps"
proof (induction ps arbitrary: out off)
  case Nil
  then show ?case by simp
next
  case (Cons p ps)
  then show ?case by (simp add: min_def)
qed

section \<open>Properties of the codec\<close>


text \<open>C30: the decoder accepts a byte string exactly when it is the encoding of what it returns
  (so no second spelling of a unit is accepted), within the unit budget.\<close>

theorem DecodeBounded_canonical:
  "DecodeBounded raw m = Inr us \<longleftrightarrow> Encode us = raw \<and> \<not> (0 \<le> m \<and> m < int (length us))"
  by (auto simp: DecodeBounded_iff)

text \<open>C37: with a budget of \<open>m\<close> units, longer well-formed input is refused with the budget
  error at the byte where unit \<open>m\<close> starts, whatever follows it; nothing is returned.\<close>

theorem DecodeBounded_budget:
  "DecodeBounded (Encode us @ Encode (u # vs) @ rest) (int (length us)) =
   Inl (DecodeError (int (length (Encode us))) ''budget'')"
  using decode_loop_Encode_append [of "int (length us)" "[]" us 0 "Encode (u # vs) @ rest"]
  by (simp add: DecodeBounded_def Encode_Cons decode_unit_over_budget)

text \<open>C38: \<open>ConcatBounded\<close> returns the concatenation when its length is representable and
  within the bound, and the budget error otherwise.\<close>

theorem ConcatBounded_spec:
  "ConcatBounded m parts =
     (if parts = [] \<or> (int (length (concat parts)) \<le> max_int64 \<and> \<not> (0 \<le> m \<and> m < int (length (concat parts))))
      then Inr (concat parts) else Inl (DecodeError 0 ''budget''))"
  by (auto simp: ConcatBounded_def concat_size_eq copy_parts_eq res_bind_def)

text \<open>The capacity the encoder reserves is never too small, unless it saturates.\<close>

theorem EncodeCap_sufficient:
  "EncodeCap (int (length us)) = max_int64 \<or> int (length (Encode us)) \<le> EncodeCap (int (length us))"
  using length_Encode [of us] by (cases us) (auto simp: EncodeCap_def max_int64_def)

end
