(* ===== verification/Mutf8Use.thy ===== *)
theory Mutf8Use
  imports Mutf8
begin

text \<open>
  \<open>internal/mutf8/use.go\<close>: the grammars of JVMS 4.2 and 4.3 (names and descriptors) over
  code units. The validators scan a slice by index, as the code does; errors are the format
  strings of the \<open>fmt.Errorf\<close> calls, without their arguments. The second half states the
  grammars as printers of abstract descriptors and shows that the validators accept exactly what
  is printed, and that the slot count of a descriptor is the sum over its parameters.
\<close>

section \<open>Names\<close>

type_synonym use_error = string

datatype UseKind = UseString | UseInternalName | UseUnqualifiedName | UseFieldDescriptor
  | UseMethodDescriptor | UseDescriptor | UseMethodName | UseOther int

definition quoted :: "char \<Rightarrow> string" where
  "quoted c = [CHR 0x27, c, CHR 0x27]"

abbreviation (input) unit_of :: "char \<Rightarrow> u16" where
  "unit_of c \<equiv> of_char c"

definition maxArrayDimensions :: nat where
  "maxArrayDimensions = 255"

definition maxMethodSlots :: int where
  "maxMethodSlots = 255"

definition forbidden_unit :: "u16 \<Rightarrow> bool" where
  "forbidden_unit u \<longleftrightarrow> u = unit_of CHR ''.'' \<or> u = unit_of CHR '';'' \<or> u = unit_of CHR ''['' \<or>
     u = unit_of CHR ''/''"

fun unqualified_loop :: "u16 list \<Rightarrow> use_error + unit" where
  "unqualified_loop [] = Inr ()"
| "unqualified_loop (u # us) =
     (if forbidden_unit u then Inl ''mutf8: unqualified name contains U+%04X''
      else unqualified_loop us)"

definition ValidateUnqualifiedName :: "u16 list \<Rightarrow> use_error + unit" where
  "ValidateUnqualifiedName units =
     (if length units = 0 then Inl ''mutf8: empty unqualified name'' else unqualified_loop units)"

definition unitsEqualASCII :: "u16 list \<Rightarrow> string \<Rightarrow> bool" where
  "unitsEqualASCII units s \<longleftrightarrow>
     length units = length s \<and> list_all (\<lambda>i. units ! i = of_char (s ! i)) [0..<length s]"

fun no_angle_loop :: "u16 list \<Rightarrow> use_error + unit" where
  "no_angle_loop [] = Inr ()"
| "no_angle_loop (u # us) =
     (if u = unit_of CHR ''<'' \<or> u = unit_of CHR ''>''
      then Inl (''mutf8: method name contains '' @ quoted CHR ''<'' @ '' or '' @ quoted CHR ''>'')
      else no_angle_loop us)"

definition ValidateMethodName :: "u16 list \<Rightarrow> use_error + unit" where
  "ValidateMethodName units =
     (if unitsEqualASCII units ''<init>'' \<or> unitsEqualASCII units ''<clinit>'' then Inr ()
      else res_bind (ValidateUnqualifiedName units) (\<lambda>_. no_angle_loop units))"

function binary_name_loop :: "u16 list \<Rightarrow> nat \<Rightarrow> nat \<Rightarrow> use_error + unit" where
  "binary_name_loop units i start =
     (if i \<le> length units then
        if i < length units \<and> units ! i \<noteq> unit_of CHR ''/'' then binary_name_loop units (Suc i) start
        else if i = start then Inl ''mutf8: empty binary-name segment''
        else res_bind (ValidateUnqualifiedName (take (i - start) (drop start units)))
               (\<lambda>_. if i = length units then Inr ()
                    else binary_name_loop units (Suc i) (Suc i))
      else Inr ())"
  by pat_completeness auto
termination
  by (relation "measure (\<lambda>(units, i, start). Suc (length units) - i)") auto

declare binary_name_loop.simps [simp del]

definition validateBinaryName :: "u16 list \<Rightarrow> use_error + unit" where
  "validateBinaryName units = binary_name_loop units 0 0"

section \<open>Field and method descriptors\<close>

text \<open>The loop that counts \<open>'['\<close>: it stops with \<open>False\<close> past the 255th dimension.\<close>

function count_dims :: "u16 list \<Rightarrow> nat \<Rightarrow> nat \<Rightarrow> nat \<times> bool" where
  "count_dims units i dims =
     (if i < length units \<and> units ! i = unit_of CHR ''['' then
        if Suc dims > maxArrayDimensions then (i, False)
        else count_dims units (Suc i) (Suc dims)
      else (i, True))"
  by pat_completeness auto
termination
  by (relation "measure (\<lambda>(units, i, dims). length units - i)") auto

declare count_dims.simps [simp del]

definition is_prim_unit :: "u16 \<Rightarrow> bool" where
  "is_prim_unit u \<longleftrightarrow> u \<in> set (map of_char ''BCDFIJSZ'')"

definition parseFieldType :: "u16 list \<Rightarrow> nat \<Rightarrow> nat \<times> bool" where
  "parseFieldType units i =
     (if i \<ge> length units then (i, False)
      else
        let (i, ok) = count_dims units i 0 in
        if \<not> ok then (i, False)
        else if i \<ge> length units then (i, False)
        else if is_prim_unit (units ! i) then (i + 1, True)
        else if units ! i = unit_of CHR ''L'' then
          (let start = i + 1; j = scan_while (\<lambda>u. u \<noteq> unit_of CHR '';'') units start in
           if j \<ge> length units \<or> j = start then (j, False)
           else if validateBinaryName (take (j - start) (drop start units)) \<noteq> Inr () then (j, False)
           else (j + 1, True))
        else (i, False))"

definition ValidateFieldDescriptor :: "u16 list \<Rightarrow> use_error + unit" where
  "ValidateFieldDescriptor units =
     (let (n, ok) = parseFieldType units 0 in
      if \<not> ok \<or> n \<noteq> length units then Inl ''mutf8: invalid field descriptor'' else Inr ())"

definition ValidateInternalName :: "u16 list \<Rightarrow> use_error + unit" where
  "ValidateInternalName units =
     (case units of
        [] \<Rightarrow> Inl ''mutf8: empty internal name''
      | u # _ \<Rightarrow> if u = unit_of CHR ''['' then ValidateFieldDescriptor units
                 else validateBinaryName units)"

definition fieldSlots :: "u16 list \<Rightarrow> int" where
  "fieldSlots units =
     (let i = scan_while (\<lambda>u. u = unit_of CHR ''['') units 0 in
      if i < length units \<and> (units ! i = unit_of CHR ''J'' \<or> units ! i = unit_of CHR ''D'') \<and> i = 0
      then 2 else 1)"

lemma count_dims_ge: "count_dims units i dims = (j, ok) \<Longrightarrow> i \<le> j"
proof (induction units i dims rule: count_dims.induct)
  case (1 units i dims)
  show ?case
    using "1.prems" "1.IH"
    by (subst (asm) count_dims.simps) (force split: if_splits)
qed

lemma parseFieldType_progress: "parseFieldType units i = (n, True) \<Longrightarrow> i < n"
  by (auto simp: parseFieldType_def Let_def split: if_splits prod.splits
      dest!: count_dims_ge intro: scan_while_Suc_gt)

text \<open>The parameter loop of \<open>parseMethodDescriptor\<close>; it returns the slots and the index.\<close>

function params_loop :: "u16 list \<Rightarrow> nat \<Rightarrow> int \<Rightarrow> use_error + int \<times> nat" where
  "params_loop units i slots =
     (if i < length units \<and> units ! i \<noteq> unit_of CHR '')'' then
        let (n, ok) = parseFieldType units i in
        if \<not> ok then Inl ''mutf8: invalid method parameter descriptor''
        else
          let (sum, addOK) = CheckedAdd slots (fieldSlots (take (n - i) (drop i units))) in
          if \<not> addOK then Inl ''mutf8: method descriptor parameter slots overflow''
          else params_loop units n sum
      else Inr (slots, i))"
  by pat_completeness auto
termination
  by (relation "measure (\<lambda>(units, i, slots). length units - i)")
    (auto dest!: parseFieldType_progress [OF sym])

declare params_loop.simps [simp del]

definition parseMethodDescriptor :: "u16 list \<Rightarrow> use_error + int \<times> nat" where
  "parseMethodDescriptor units =
     (if length units = 0 \<or> units ! 0 \<noteq> unit_of CHR ''(''
      then Inl (''mutf8: method descriptor must start with '' @ quoted CHR ''('')
      else res_bind (params_loop units 1 0) (\<lambda>(slots, i).
        if i \<ge> length units \<or> units ! i \<noteq> unit_of CHR '')''
        then Inl ''mutf8: unterminated method descriptor''
        else if i + 1 \<ge> length units then Inl ''mutf8: method descriptor missing return type''
        else if units ! (i + 1) = unit_of CHR ''V'' then Inr (slots, i + 2)
        else
          let (n, ok) = parseFieldType units (i + 1) in
          if \<not> ok then Inl ''mutf8: invalid method return descriptor'' else Inr (slots, n)))"

definition ValidateMethodDescriptor :: "u16 list \<Rightarrow> use_error + unit" where
  "ValidateMethodDescriptor units =
     res_bind (parseMethodDescriptor units) (\<lambda>(slots, end_at).
       if end_at \<noteq> length units then Inl ''mutf8: trailing units in method descriptor''
       else if slots > maxMethodSlots then Inl ''mutf8: method descriptor parameter slots %d > 255''
       else Inr ())"

definition MethodParamSlots :: "u16 list \<Rightarrow> use_error + int" where
  "MethodParamSlots units =
     res_bind (parseMethodDescriptor units) (\<lambda>(slots, end_at).
       if end_at \<noteq> length units then Inl ''mutf8: trailing units in method descriptor''
       else Inr slots)"

definition InvokeSlots :: "u16 list \<Rightarrow> bool \<Rightarrow> use_error + int" where
  "InvokeSlots units inst =
     res_bind (MethodParamSlots units) (\<lambda>slots.
       if inst then
         (let (sum, ok) = CheckedAdd slots 1 in
          if \<not> ok \<or> sum > maxMethodSlots then Inl ''mutf8: invoke slots %d exceed 255'' else Inr sum)
       else if slots > maxMethodSlots then Inl ''mutf8: invoke slots %d exceed 255''
       else Inr slots)"

definition ValidateUse :: "u16 list \<Rightarrow> UseKind \<Rightarrow> use_error + unit" where
  "ValidateUse units kind =
     (case kind of
        UseString \<Rightarrow> Inr ()
      | UseInternalName \<Rightarrow> ValidateInternalName units
      | UseUnqualifiedName \<Rightarrow> ValidateUnqualifiedName units
      | UseFieldDescriptor \<Rightarrow> ValidateFieldDescriptor units
      | UseMethodDescriptor \<Rightarrow> ValidateMethodDescriptor units
      | UseDescriptor \<Rightarrow>
          if ValidateFieldDescriptor units = Inr () \<or> ValidateMethodDescriptor units = Inr () then Inr ()
          else Inl ''mutf8: not a field or method descriptor''
      | UseMethodName \<Rightarrow> ValidateMethodName units
      | UseOther k \<Rightarrow> Inl ''mutf8: unknown use kind %d'')"

section \<open>The grammars\<close>

fun split_at :: "'a \<Rightarrow> 'a list \<Rightarrow> 'a list list" where
  "split_at c [] = [[]]"
| "split_at c (x # xs) =
     (if x = c then [] # split_at c xs
      else (case split_at c xs of [] \<Rightarrow> [[x]] | s # ss \<Rightarrow> (x # s) # ss))"

definition unqualified :: "u16 list \<Rightarrow> bool" where
  "unqualified s \<longleftrightarrow> s \<noteq> [] \<and> (\<forall>u\<in>set s. \<not> forbidden_unit u)"

definition binary_name :: "u16 list \<Rightarrow> bool" where
  "binary_name n \<longleftrightarrow> list_all unqualified (split_at (unit_of CHR ''/'') n)"

lemma unqualified_loop_iff: "unqualified_loop us = Inr () \<longleftrightarrow> (\<forall>u\<in>set us. \<not> forbidden_unit u)"
  by (induction us) auto

lemma ValidateUnqualifiedName_iff: "ValidateUnqualifiedName us = Inr () \<longleftrightarrow> unqualified us"
  by (simp add: ValidateUnqualifiedName_def unqualified_loop_iff unqualified_def)

lemma split_at_nonempty: "split_at c xs \<noteq> []"
  by (induction xs) (auto split: list.splits)

definition prepend :: "'a list \<Rightarrow> 'a list list \<Rightarrow> 'a list list" where
  "prepend p ss = (p @ hd ss) # tl ss"

lemma split_at_Cons:
  "split_at c (x # xs) = (if x = c then [] # split_at c xs else prepend [x] (split_at c xs))"
  using split_at_nonempty [of c xs] by (auto simp: prepend_def split: list.splits)

lemma prepend_prepend: "prepend p (prepend q ss) = prepend (p @ q) ss"
  by (simp add: prepend_def)

lemma prepend_Nil: "ss \<noteq> [] \<Longrightarrow> prepend [] ss = ss"
  by (simp add: prepend_def)

lemma list_all_prepend: "list_all P (prepend p ss) \<longleftrightarrow> P (p @ hd ss) \<and> list_all P (tl ss)"
  by (simp add: prepend_def)

declare split_at.simps(2) [simp del]

lemma binary_name_loop_iff:
  "start \<le> i \<Longrightarrow> i \<le> length units \<Longrightarrow>
   binary_name_loop units i start = Inr () \<longleftrightarrow>
   list_all unqualified
     (prepend (take (i - start) (drop start units)) (split_at (unit_of CHR ''/'') (drop i units)))"
proof (induction units i start rule: binary_name_loop.induct)
  case (1 units i start)
  let ?seg = "take (i - start) (drop start units)"
  have len: "length ?seg = i - start" using "1.prems" by simp
  show ?case
  proof (cases "i < length units")
    case False
    then have "i = length units" using "1.prems" by simp
    then show ?thesis using len "1.prems"
      by (subst binary_name_loop.simps)
        (auto simp: prepend_def ValidateUnqualifiedName_iff unqualified_def)
  next
    case True
    then have d: "drop i units = units ! i # drop (Suc i) units"
      by (simp add: Cons_nth_drop_Suc)
    have seg: "take (Suc i - start) (drop start units) = ?seg @ [units ! i]"
      using "1.prems" True by (simp add: Suc_diff_le take_Suc_conv_app_nth)
    show ?thesis
    proof (cases "units ! i = unit_of CHR ''/''")
      case False
      with "1.IH"(1) True "1.prems" show ?thesis
        by (subst binary_name_loop.simps) (simp add: d split_at_Cons prepend_prepend seg)
    next
      case slash: True
      have IH: "i \<noteq> start \<Longrightarrow> ValidateUnqualifiedName ?seg = Inr () \<Longrightarrow>
        (binary_name_loop units (Suc i) (Suc i) = Inr ()) =
        list_all unqualified (split_at (unit_of CHR ''/'') (drop (Suc i) units))"
        using "1.IH"(2) True slash by (simp add: prepend_Nil split_at_nonempty)
      show ?thesis
      proof (cases "i \<noteq> start \<and> unqualified ?seg")
        case True
        with IH slash \<open>i < length units\<close> show ?thesis
          by (subst binary_name_loop.simps)
            (simp add: d split_at_Cons list_all_prepend ValidateUnqualifiedName_iff)
      next
        case False
        with slash \<open>i < length units\<close> len show ?thesis
          by (subst binary_name_loop.simps)
            (auto simp: d split_at_Cons list_all_prepend ValidateUnqualifiedName_iff unqualified_def)
      qed
    qed
  qed
qed

lemma validateBinaryName_iff: "validateBinaryName n = Inr () \<longleftrightarrow> binary_name n"
  using binary_name_loop_iff [of 0 0 n]
  by (simp add: validateBinaryName_def binary_name_def prepend_Nil split_at_nonempty)


datatype base_ty = BasePrim u16 | BaseClass "u16 list"

datatype field_ty = FieldTy (dims: nat) (base: base_ty)

fun show_base :: "base_ty \<Rightarrow> u16 list" where
  "show_base (BasePrim c) = [c]"
| "show_base (BaseClass n) = unit_of CHR ''L'' # n @ [unit_of CHR '';'']"

definition show_field :: "field_ty \<Rightarrow> u16 list" where
  "show_field t = replicate (dims t) (unit_of CHR ''['') @ show_base (base t)"

fun base_ok :: "base_ty \<Rightarrow> bool" where
  "base_ok (BasePrim c) = is_prim_unit c"
| "base_ok (BaseClass n) = binary_name n"

definition field_ok :: "field_ty \<Rightarrow> bool" where
  "field_ok t \<longleftrightarrow> dims t \<le> maxArrayDimensions \<and> base_ok (base t)"

lemma count_dims_replicate:
  "units ! (i + k) \<noteq> unit_of CHR ''['' \<or> i + k \<ge> length units \<Longrightarrow>
   take k (drop i units) = replicate k (unit_of CHR ''['') \<Longrightarrow> i + k \<le> length units \<Longrightarrow>
   d + k \<le> maxArrayDimensions \<Longrightarrow> count_dims units i d = (i + k, True)"
proof (induction k arbitrary: i d)
  case 0
  then show ?case by (subst count_dims.simps) auto
next
  case (Suc k)
  have i: "i < length units" using Suc.prems by simp
  then have "units ! i = unit_of CHR ''[''"
    using Suc.prems(2) by (simp add: Cons_nth_drop_Suc [symmetric])
  moreover have "count_dims units (Suc i) (Suc d) = (Suc i + k, True)"
    using Suc.prems i by (intro Suc.IH) (auto simp: Cons_nth_drop_Suc [symmetric])
  ultimately show ?case using i Suc.prems by (subst count_dims.simps) simp
qed

lemma count_dims_sound:
  "count_dims units i d = (j, True) \<Longrightarrow> d \<le> maxArrayDimensions \<Longrightarrow> i \<le> length units \<Longrightarrow>
   \<exists>k. j = i + k \<and> d + k \<le> maxArrayDimensions \<and> j \<le> length units \<and>
     take k (drop i units) = replicate k (unit_of CHR ''['')"
proof (induction units i d rule: count_dims.induct)
  case (1 units i d)
  show ?case
  proof (cases "i < length units \<and> units ! i = unit_of CHR ''[''")
    case True
    with "1.prems" have "count_dims units (Suc i) (Suc d) = (j, True)" "Suc d \<le> maxArrayDimensions"
      by (subst (asm) count_dims.simps; force split: if_splits)+
    with "1.IH" True obtain k where k: "j = Suc i + k" "Suc d + k \<le> maxArrayDimensions" "j \<le> length units"
      "take k (drop (Suc i) units) = replicate k (unit_of CHR ''['')"
      by auto
    with True show ?thesis
      by (intro exI [of _ "Suc k"]) (auto simp: Cons_nth_drop_Suc [symmetric])
  next
    case False
    with "1.prems" show ?thesis by (subst (asm) count_dims.simps) auto
  qed
qed

lemma binary_name_nonempty: "binary_name n \<Longrightarrow> n \<noteq> []"
  by (auto simp: binary_name_def unqualified_def)

lemma set_split_at: "u \<in> set n \<Longrightarrow> u \<noteq> c \<Longrightarrow> \<exists>s\<in>set (split_at c n). u \<in> set s"
proof (induction n)
  case Nil
  then show ?case by simp
next
  case (Cons x n)
  then show ?case
    using split_at_nonempty [of c n]
    by (cases "split_at c n") (auto simp: split_at_Cons prepend_def)
qed

lemma binary_name_no_semicolon: "binary_name n \<Longrightarrow> u \<in> set n \<Longrightarrow> u \<noteq> unit_of CHR '';''"
proof -
  assume n: "binary_name n" "u \<in> set n"
  then have "u = unit_of CHR ''/'' \<or> (\<exists>s\<in>set (split_at (unit_of CHR ''/'') n). u \<in> set s)"
    using set_split_at by fast
  with n have "u = unit_of CHR ''/'' \<or> \<not> forbidden_unit u"
    by (auto simp: binary_name_def unqualified_def list_all_iff)
  then show ?thesis by (auto simp: forbidden_unit_def)
qed

lemma show_base_not_bracket: "base_ok b \<Longrightarrow> \<exists>x xs. show_base b = x # xs \<and> x \<noteq> unit_of CHR ''[''"
  by (cases b) (auto simp: is_prim_unit_def)

lemma parseFieldType_show:
  assumes ok: "field_ok t" and at: "drop i units = show_field t @ rest"
  shows "parseFieldType units i = (i + length (show_field t), True)"
proof -
  obtain x xs where b: "show_base (base t) = x # xs" "x \<noteq> unit_of CHR ''[''"
    using ok show_base_not_bracket [of "base t"] unfolding field_ok_def by blast
  have d: "drop (i + dims t) units = show_base (base t) @ rest"
  proof -
    have "drop (i + dims t) units = drop (dims t) (drop i units)" by (simp add: add.commute)
    then show ?thesis by (simp add: at show_field_def)
  qed
  then have at_x: "i + dims t < length units" "units ! (i + dims t) = x"
    using b by (auto simp: nth_via_drop intro: ccontr)
  have cd: "count_dims units i 0 = (i + dims t, True)"
    using b at_x ok at by (intro count_dims_replicate) (auto simp: field_ok_def show_field_def)
  show ?thesis
  proof (cases "base t")
    case (BasePrim c)
    with ok cd at_x b show ?thesis
      by (auto simp: parseFieldType_def show_field_def field_ok_def)
  next
    case (BaseClass n)
    let ?s = "Suc (i + dims t)"
    have n: "binary_name n" using ok BaseClass by (simp add: field_ok_def)
    have dn: "drop ?s units = n @ unit_of CHR '';'' # rest"
      using d BaseClass by (simp add: drop_Suc tl_drop [symmetric] add.commute)
    have sc: "scan_while (\<lambda>u. u \<noteq> unit_of CHR '';'') units ?s = ?s + length n"
      using dn at_x takeWhile_append_stop [of n "\<lambda>u. u \<noteq> unit_of CHR '';''" "unit_of CHR '';''" rest]
        binary_name_no_semicolon [OF n]
      by (simp add: scan_while_takeWhile Suc_leI)
    have "?s + length n < length units"
      using arg_cong [OF dn, of length] by simp
    moreover have "x = unit_of CHR ''L''" using b BaseClass by simp
    ultimately show ?thesis
      using cd at_x sc dn n BaseClass binary_name_nonempty [OF n]
      by (simp add: parseFieldType_def show_field_def Let_def validateBinaryName_iff is_prim_unit_def)
  qed
qed

lemma parseFieldType_sound:
  assumes "parseFieldType units i = (n, True)"
  shows "\<exists>t. field_ok t \<and> n = i + length (show_field t) \<and> n \<le> length units \<and>
    take (length (show_field t)) (drop i units) = show_field t"
proof -
  obtain j where j: "count_dims units i 0 = (j, True)" "j < length units" "i < length units"
    using assms by (auto simp: parseFieldType_def Let_def split: if_splits prod.splits)
  then obtain k where k: "j = i + k" "k \<le> maxArrayDimensions"
    "take k (drop i units) = replicate k (unit_of CHR ''['')"
    using count_dims_sound [of units i 0 j] by auto
  have split: "take (k + l) (drop i units) = replicate k (unit_of CHR ''['') @ take l (drop j units)" for l
    using k by (simp add: take_add add.commute)
  consider (prim) "is_prim_unit (units ! j)" "n = j + 1"
    | (cls) "units ! j = unit_of CHR ''L''" "\<not> is_prim_unit (units ! j)"
    using assms j by (auto simp: parseFieldType_def Let_def split: if_splits prod.splits)
  then show ?thesis
  proof cases
    case prim
    then show ?thesis using k j split [of 1]
      by (intro exI [of _ "FieldTy k (BasePrim (units ! j))"])
        (auto simp: field_ok_def show_field_def Cons_nth_drop_Suc [symmetric])
  next
    case cls
    let ?e = "scan_while (\<lambda>u. u \<noteq> unit_of CHR '';'') units (Suc j)"
    let ?n = "take (?e - Suc j) (drop (Suc j) units)"
    have e: "?e < length units" "?e \<noteq> Suc j" "binary_name ?n" "n = Suc ?e"
      using assms cls j
      by (auto simp: parseFieldType_def Let_def validateBinaryName_iff split: if_splits prod.splits)
    have ge: "Suc j \<le> ?e" by (rule scan_while_ge)
    have semi: "units ! ?e = unit_of CHR '';''"
      using scan_while_stop [OF e(1)] by simp
    have "take (Suc (?e - Suc j)) (drop (Suc j) units) = ?n @ [unit_of CHR '';'']"
      using ge e(1) semi by (simp add: take_Suc_conv_app_nth)
    moreover have "drop j units = unit_of CHR ''L'' # drop (Suc j) units"
      using j cls by (metis Cons_nth_drop_Suc)
    ultimately have "take (Suc (Suc (?e - Suc j))) (drop j units) = show_base (BaseClass ?n)"
      by simp
    then show ?thesis using k j e ge split [of "Suc (Suc (?e - Suc j))"]
      by (intro exI [of _ "FieldTy k (BaseClass ?n)"])
        (auto simp: field_ok_def show_field_def)
  qed
qed

definition field_width :: "field_ty \<Rightarrow> int" where
  "field_width t =
     (if dims t = 0 \<and> (base t = BasePrim (unit_of CHR ''J'') \<or> base t = BasePrim (unit_of CHR ''D''))
      then 2 else 1)"

definition show_fields :: "field_ty list \<Rightarrow> u16 list" where
  "show_fields ps = concat (map show_field ps)"

definition show_method :: "field_ty list \<Rightarrow> field_ty option \<Rightarrow> u16 list" where
  "show_method ps r = unit_of CHR ''('' # show_fields ps @ unit_of CHR '')'' #
     (case r of None \<Rightarrow> [unit_of CHR ''V''] | Some t \<Rightarrow> show_field t)"

definition method_ok :: "field_ty list \<Rightarrow> field_ty option \<Rightarrow> bool" where
  "method_ok ps r \<longleftrightarrow> list_all field_ok ps \<and> (case r of None \<Rightarrow> True | Some t \<Rightarrow> field_ok t)"

definition param_width :: "field_ty list \<Rightarrow> int" where
  "param_width ps = sum_list (map field_width ps)"

lemma param_width_nonneg: "0 \<le> param_width ps"
  by (induction ps) (auto simp: param_width_def field_width_def)

lemma param_width_Cons: "param_width (p # ps) = field_width p + param_width ps"
  by (simp add: param_width_def)

lemma show_field_head:
  assumes "field_ok t"
  obtains x xs where "show_field t = x # xs" "x \<noteq> unit_of CHR '')''" "x \<noteq> unit_of CHR ''V''"
    "x = unit_of CHR ''['' \<longleftrightarrow> dims t \<noteq> 0"
  using assms that
  by (cases "dims t"; cases "base t") (auto simp: show_field_def field_ok_def is_prim_unit_def)

lemma fieldSlots_show: "field_ok t \<Longrightarrow> fieldSlots (show_field t) = field_width t"
  by (cases "dims t"; cases "base t")
    (auto simp: fieldSlots_def field_width_def show_field_def field_ok_def is_prim_unit_def
      scan_while_takeWhile Let_def)

lemma params_loop_show:
  "list_all field_ok ps \<Longrightarrow> drop i units = show_fields ps @ unit_of CHR '')'' # rest \<Longrightarrow>
   0 \<le> slots \<Longrightarrow> slots + param_width ps \<le> max_int64 \<Longrightarrow>
   params_loop units i slots = Inr (slots + param_width ps, i + length (show_fields ps))"
proof (induction ps arbitrary: i slots)
  case Nil
  then have "i < length units" "units ! i = unit_of CHR '')''"
    by (auto simp: show_fields_def nth_via_drop intro: ccontr)
  then show ?case by (subst params_loop.simps) (simp add: show_fields_def param_width_def)
next
  case (Cons p ps)
  then have at: "drop i units = show_field p @ show_fields ps @ unit_of CHR '')'' # rest"
    and ok: "field_ok p" by (simp_all add: show_fields_def)
  obtain x xs where x: "show_field p = x # xs" "x \<noteq> unit_of CHR '')''"
    using ok by (rule show_field_head)
  then have i: "i < length units" "units ! i \<noteq> unit_of CHR '')''"
    using at by (auto simp: nth_via_drop intro: ccontr)
  have "drop (i + length (show_field p)) units = show_fields ps @ unit_of CHR '')'' # rest"
    using at by (metis add.commute append_eq_conv_conj drop_drop)
  then have "params_loop units (i + length (show_field p)) (slots + field_width p) =
    Inr (slots + param_width (p # ps), i + length (show_fields (p # ps)))"
    using Cons.prems Cons.IH [of "i + length (show_field p)" "slots + field_width p"]
    by (simp add: param_width_Cons show_fields_def field_width_def add.assoc)
  moreover have "CheckedAdd slots (field_width p) = (slots + field_width p, True)"
    using Cons.prems param_width_nonneg [of ps]
    by (auto simp: CheckedAdd_def param_width_Cons field_width_def)
  ultimately show ?case
    using i parseFieldType_show [OF ok at] at fieldSlots_show [OF ok]
    by (subst params_loop.simps) simp
qed

lemma params_loop_sound:
  "params_loop units i slots = Inr (s, j) \<Longrightarrow> 0 \<le> slots \<Longrightarrow> slots \<le> max_int64 \<Longrightarrow> i \<le> length units \<Longrightarrow>
   \<exists>ps. list_all field_ok ps \<and> s = slots + param_width ps \<and> s \<le> max_int64 \<and>
     j = i + length (show_fields ps) \<and> j \<le> length units \<and>
     take (length (show_fields ps)) (drop i units) = show_fields ps"
proof (induction units i slots rule: params_loop.induct)
  case (1 units i slots)
  show ?case
  proof (cases "i < length units \<and> units ! i \<noteq> unit_of CHR '')''")
    case False
    with "1.prems" show ?thesis
      by (subst (asm) params_loop.simps)
        (auto simp: show_fields_def param_width_def intro: exI [of _ "[]"])
  next
    case True
    with "1.prems" obtain n where n: "parseFieldType units i = (n, True)"
      by (subst (asm) params_loop.simps) (auto split: prod.splits if_splits)
    then obtain t where t: "field_ok t" "n = i + length (show_field t)" "n \<le> length units"
      "take (length (show_field t)) (drop i units) = show_field t"
      using parseFieldType_sound by blast
    have sl: "fieldSlots (take (n - i) (drop i units)) = field_width t"
      using t by (simp add: fieldSlots_show)
    have w: "0 \<le> field_width t" by (simp add: field_width_def)
    with "1.prems" True n sl have
      room: "slots + field_width t \<le> max_int64" and
      rec: "params_loop units n (slots + field_width t) = Inr (s, j)"
      by (subst (asm) params_loop.simps; auto simp: CheckedAdd_def split: if_splits)+
    obtain ps where ps: "list_all field_ok ps" "s = slots + field_width t + param_width ps"
      "s \<le> max_int64" "j = n + length (show_fields ps)" "j \<le> length units"
      "take (length (show_fields ps)) (drop n units) = show_fields ps"
      using "1.IH" [OF True refl n [symmetric] _ refl _ _ rec]
        room w "1.prems" t sl by (auto simp: CheckedAdd_def)
    show ?thesis
      using ps t
      by (intro exI [of _ "t # ps"])
        (auto simp: param_width_Cons show_fields_def take_add add.commute)
  qed
qed

lemma parseMethodDescriptor_show:
  assumes "method_ok ps r" "param_width ps \<le> max_int64"
  shows "parseMethodDescriptor (show_method ps r) = Inr (param_width ps, length (show_method ps r))"
proof -
  let ?u = "show_method ps r"
  let ?tail = "case r of None \<Rightarrow> [unit_of CHR ''V''] | Some t \<Rightarrow> show_field t"
  have "drop 1 ?u = show_fields ps @ unit_of CHR '')'' # ?tail" by (simp add: show_method_def)
  then have pl: "params_loop ?u 1 0 = Inr (param_width ps, 1 + length (show_fields ps))"
    using assms params_loop_show [of ps 1 ?u _ 0] by (simp add: method_ok_def)
  let ?i = "1 + length (show_fields ps)"
  have close: "?i < length ?u" "?u ! ?i = unit_of CHR '')''" by (simp_all add: show_method_def)
  have tail: "drop (?i + 1) ?u = ?tail @ []" by (simp add: show_method_def)
  show ?thesis
  proof (cases r)
    case None
    then show ?thesis using pl close
      by (simp add: parseMethodDescriptor_def) (simp add: show_method_def nth_append)
  next
    case (Some t)
    then have ok: "field_ok t" using assms by (simp add: method_ok_def)
    obtain x xs where x: "show_field t = x # xs" "x \<noteq> unit_of CHR ''V''"
      using ok by (rule show_field_head)
    have "parseFieldType ?u (?i + 1) = (?i + 1 + length (show_field t), True)"
      using parseFieldType_show [OF ok, of "?i + 1" ?u "[]"] tail Some by simp
    moreover have "?i + 1 < length ?u" "?u ! (?i + 1) = x"
      using x Some by (simp_all add: show_method_def nth_append)
    ultimately show ?thesis using pl close x Some
      by (simp add: parseMethodDescriptor_def) (simp add: show_method_def)
  qed
qed

lemma parseMethodDescriptor_sound:
  assumes "parseMethodDescriptor units = Inr (s, length units)"
  shows "\<exists>ps r. method_ok ps r \<and> units = show_method ps r \<and> s = param_width ps \<and> s \<le> max_int64"
proof -
  have hd: "units \<noteq> []" "units ! 0 = unit_of CHR ''(''"
    using assms by (auto simp: parseMethodDescriptor_def split: if_splits)
  then obtain us where us: "units = unit_of CHR ''('' # us" by (cases units) auto
  obtain s' i where pl: "params_loop units 1 0 = Inr (s', i)"
    using assms by (auto simp: parseMethodDescriptor_def split: if_splits)
  obtain ps where ps: "list_all field_ok ps" "s' = param_width ps" "s' \<le> max_int64"
    "i = 1 + length (show_fields ps)" "take (length (show_fields ps)) us = show_fields ps"
    using params_loop_sound [OF pl] us by (auto simp: max_int64_def)
  have close: "i < length units" "units ! i = unit_of CHR '')''" "i + 1 < length units" "s = s'"
    using assms pl by (auto simp: parseMethodDescriptor_def split: if_splits prod.splits)
  have du: "drop (length (show_fields ps)) us = unit_of CHR '')'' # drop (i + 1) units"
  proof -
    have "drop i units = unit_of CHR '')'' # drop (i + 1) units"
      using close(1,2) by (metis Cons_nth_drop_Suc Suc_eq_plus1)
    then show ?thesis using ps us by simp
  qed
  have us': "us = show_fields ps @ unit_of CHR '')'' # drop (i + 1) units"
    using ps(5) du by (metis append_take_drop_id)
  show ?thesis
  proof (cases "units ! (i + 1) = unit_of CHR ''V''")
    case True
    then have "i + 2 = length units"
      using assms pl close by (auto simp: parseMethodDescriptor_def split: if_splits)
    moreover have "drop (i + 1) units = units ! (i + 1) # drop (Suc (i + 1)) units"
      by (rule Cons_nth_drop_Suc [symmetric]) (rule close(3))
    ultimately have d: "drop (i + 1) units = [unit_of CHR ''V'']"
      using True by simp
    have "show_method ps None = units"
      using us us' [unfolded d] by (simp add: show_method_def)
    then show ?thesis using ps close
      by (intro exI [of _ ps] exI [of _ None]) (simp add: method_ok_def)
  next
    case False
    then have "parseFieldType units (i + 1) = (length units, True)"
      using assms pl close by (auto simp: parseMethodDescriptor_def split: if_splits prod.splits)
    then obtain t where t: "field_ok t" "length units = i + 1 + length (show_field t)"
      "take (length (show_field t)) (drop (i + 1) units) = show_field t"
      using parseFieldType_sound by blast
    then have d: "drop (i + 1) units = show_field t" by simp
    have "show_method ps (Some t) = units"
      using us us' [unfolded d] by (simp add: show_method_def)
    then show ?thesis using ps close t
      by (intro exI [of _ ps] exI [of _ "Some t"]) (simp add: method_ok_def)
  qed
qed

lemma MethodParamSlots_iff:
  "MethodParamSlots units = Inr n \<longleftrightarrow>
   (\<exists>ps r. method_ok ps r \<and> units = show_method ps r \<and> n = param_width ps \<and> n \<le> max_int64)"
proof
  assume "MethodParamSlots units = Inr n"
  then have "parseMethodDescriptor units = Inr (n, length units)"
    by (auto simp: MethodParamSlots_def split: if_splits prod.splits)
  then show "\<exists>ps r. method_ok ps r \<and> units = show_method ps r \<and> n = param_width ps \<and> n \<le> max_int64"
    by (rule parseMethodDescriptor_sound)
next
  assume "\<exists>ps r. method_ok ps r \<and> units = show_method ps r \<and> n = param_width ps \<and> n \<le> max_int64"
  then show "MethodParamSlots units = Inr n"
    using parseMethodDescriptor_show by (auto simp: MethodParamSlots_def)
qed

lemma MethodParamSlots_show:
  "method_ok ps r \<Longrightarrow> param_width ps \<le> 255 \<Longrightarrow>
   MethodParamSlots (show_method ps r) = Inr (param_width ps)"
  using parseMethodDescriptor_show [of ps r] by (simp add: MethodParamSlots_def max_int64_def)

lemma ValidateMethodDescriptor_via_slots:
  "ValidateMethodDescriptor units = Inr () \<longleftrightarrow> (\<exists>n. MethodParamSlots units = Inr n \<and> n \<le> maxMethodSlots)"
  by (cases "parseMethodDescriptor units")
    (auto simp: ValidateMethodDescriptor_def MethodParamSlots_def not_less split: if_splits prod.splits)

lemma ValidateFieldDescriptor_iff:
  "ValidateFieldDescriptor units = Inr () \<longleftrightarrow> (\<exists>t. field_ok t \<and> units = show_field t)"
proof
  assume "ValidateFieldDescriptor units = Inr ()"
  then have "parseFieldType units 0 = (length units, True)"
    by (auto simp: ValidateFieldDescriptor_def split: if_splits prod.splits)
  then show "\<exists>t. field_ok t \<and> units = show_field t"
    using parseFieldType_sound by fastforce
next
  assume "\<exists>t. field_ok t \<and> units = show_field t"
  then obtain t where t: "field_ok t" "units = show_field t" by blast
  then have "parseFieldType units 0 = (length units, True)"
    using parseFieldType_show [of t 0 units "[]"] by simp
  then show "ValidateFieldDescriptor units = Inr ()" by (simp add: ValidateFieldDescriptor_def)
qed

section \<open>Properties of the validators\<close>

text \<open>C35: a field descriptor is accepted exactly when it is printed from a well-formed type:
  at most 255 dimensions over a primitive or a class whose slash-separated segments are
  unqualified names.\<close>

theorem ValidateFieldDescriptor_grammar:
  "ValidateFieldDescriptor units = Inr () \<longleftrightarrow> (\<exists>t. field_ok t \<and> show_field t = units)"
  by (auto simp: ValidateFieldDescriptor_iff)

text \<open>C31: a method descriptor is accepted exactly when it is printed from well-formed parameter and
  return types whose slots, two for \<open>J\<close> and \<open>D\<close>, are at most 255.\<close>

theorem ValidateMethodDescriptor_grammar:
  "ValidateMethodDescriptor units = Inr () \<longleftrightarrow>
   (\<exists>ps r. method_ok ps r \<and> show_method ps r = units \<and> param_width ps \<le> 255)"
  using MethodParamSlots_show
  by (fastforce simp: ValidateMethodDescriptor_via_slots maxMethodSlots_def
      dest: MethodParamSlots_iff [THEN iffD1])

text \<open>The slots of an invocation are the widths of the parameters and one for the receiver,
  and the call is refused exactly when they exceed 255 (or the descriptor is malformed).\<close>

theorem InvokeSlots_spec:
  "InvokeSlots units inst = Inr n \<longleftrightarrow>
   (\<exists>ps r. method_ok ps r \<and> show_method ps r = units \<and>
      n = param_width ps + (if inst then 1 else 0) \<and> n \<le> 255)"
proof
  assume "InvokeSlots units inst = Inr n"
  then obtain s where s: "MethodParamSlots units = Inr s" "n = s + (if inst then 1 else 0)" "n \<le> 255"
    by (auto simp: InvokeSlots_def CheckedAdd_def maxMethodSlots_def split: if_splits)
  then show "\<exists>ps r. method_ok ps r \<and> show_method ps r = units \<and>
      n = param_width ps + (if inst then 1 else 0) \<and> n \<le> 255"
    by (auto simp: MethodParamSlots_iff)
next
  assume "\<exists>ps r. method_ok ps r \<and> show_method ps r = units \<and>
      n = param_width ps + (if inst then 1 else 0) \<and> n \<le> 255"
  then obtain ps r where p: "method_ok ps r" "units = show_method ps r"
    "n = param_width ps + (if inst then 1 else 0)" "n \<le> 255" by blast
  then have "MethodParamSlots units = Inr (param_width ps)"
    using MethodParamSlots_show [of ps r] by (auto split: if_splits)
  with p param_width_nonneg [of ps] show "InvokeSlots units inst = Inr n"
    by (cases inst) (auto simp: InvokeSlots_def CheckedAdd_def maxMethodSlots_def max_int64_def)
qed

end
