(* ===== verification/WorkBudget.thy ===== *)
theory WorkBudget
  imports Prelude "HOL-Library.List_Lexorder" "HOL-Library.Char_ord" "HOL-Library.Multiset"
begin

text \<open>
  \<open>internal/workbudget/budget.go\<close>: the request-scoped work budget. A \<open>Budget\<close> is a record;
  a Go pointer to it is an \<open>option\<close> whose \<open>None\<close> is nil. Every method locks the mutex for
  its whole body, so a concurrent use is a sequence of method calls, and each call returns its
  error and the new state. What the request context reports, \<open>ctx.Err()\<close>, is the argument
  \<open>cx\<close> of each call (\<open>None\<close> for a nil context and for one that is not done). The maps
  \<open>used\<close> and \<open>nesting\<close> read as 0 where a key is missing, as Go maps do; counters are
  strings and are compared bytewise.
\<close>

section \<open>Counters, limits, errors\<close>

type_synonym counter = string

definition CounterInputBytes :: counter where "CounterInputBytes = ''input_bytes''"
definition CounterReadBytes :: counter where "CounterReadBytes = ''read_bytes''"
definition CounterReadOps :: counter where "CounterReadOps = ''read_ops''"
definition CounterParseItems :: counter where "CounterParseItems = ''parse_items''"
definition CounterGraphScans :: counter where "CounterGraphScans = ''graph_scans''"
definition CounterGraphEdges :: counter where "CounterGraphEdges = ''graph_edges''"
definition CounterSetElementWork :: counter where "CounterSetElementWork = ''set_element_work''"
definition CounterAnalysisUpdates :: counter where "CounterAnalysisUpdates = ''analysis_updates''"
definition CounterRequestWork :: counter where "CounterRequestWork = ''request_work''"
definition CounterOutputBytes :: counter where "CounterOutputBytes = ''output_bytes''"
definition CounterDiagnostics :: counter where "CounterDiagnostics = ''diagnostics''"
definition CounterASTDepth :: counter where "CounterASTDepth = ''ast_depth''"
definition CounterArchiveEntries :: counter where "CounterArchiveEntries = ''archive_entries''"
definition CounterArchiveEntryBytes :: counter where
  "CounterArchiveEntryBytes = ''archive_entry_bytes''"
definition CounterArchiveTotalBytes :: counter where
  "CounterArchiveTotalBytes = ''archive_total_bytes''"
definition CounterArchiveDepth :: counter where "CounterArchiveDepth = ''archive_depth''"
definition CounterNodeCopies :: counter where "CounterNodeCopies = ''node_copies''"
definition CounterIntermediateBytes :: counter where
  "CounterIntermediateBytes = ''intermediate_bytes''"

lemmas counter_defs = CounterInputBytes_def CounterReadBytes_def CounterReadOps_def
  CounterParseItems_def CounterGraphScans_def CounterGraphEdges_def CounterSetElementWork_def
  CounterAnalysisUpdates_def CounterRequestWork_def CounterOutputBytes_def CounterDiagnostics_def
  CounterASTDepth_def CounterArchiveEntries_def CounterArchiveEntryBytes_def
  CounterArchiveTotalBytes_def CounterArchiveDepth_def CounterNodeCopies_def
  CounterIntermediateBytes_def

record limits =
  MaxInputBytes :: int
  MaxReadBytes :: int
  MaxParseItems :: int
  MaxGraphScans :: int
  MaxGraphEdges :: int
  MaxSetElementWork :: int
  MaxRequestWork :: int
  MaxOutputBytes :: int
  MaxASTDepth :: int
  MaxDiagnostics :: int
  MaxArchiveEntries :: int
  MaxArchiveEntryBytes :: int
  MaxArchiveTotalBytes :: int
  MaxArchiveDepth :: int
  MaxNodeCopies :: int

definition intermediateOutputFactor :: int where
  "intermediateOutputFactor = 8"

definition intermediateLimit :: "limits \<Rightarrow> int" where
  "intermediateLimit l =
     (let maxOut = MaxOutputBytes l in
      if maxOut \<le> 0 then 0
      else if maxOut > max_int64 div intermediateOutputFactor then max_int64
      else maxOut * intermediateOutputFactor)"

definition KindBudget :: string where "KindBudget = ''analysis_budget_exceeded''"
definition KindResource :: string where "KindResource = ''resource_limit''"
definition KindCanceled :: string where "KindCanceled = ''canceled''"

text \<open>The fields in declaration order, as the reflection loop visits them.\<close>

definition limit_fields :: "limits \<Rightarrow> (string \<times> int) list" where
  "limit_fields l =
     [(''MaxInputBytes'', MaxInputBytes l), (''MaxReadBytes'', MaxReadBytes l),
      (''MaxParseItems'', MaxParseItems l), (''MaxGraphScans'', MaxGraphScans l),
      (''MaxGraphEdges'', MaxGraphEdges l), (''MaxSetElementWork'', MaxSetElementWork l),
      (''MaxRequestWork'', MaxRequestWork l), (''MaxOutputBytes'', MaxOutputBytes l),
      (''MaxASTDepth'', MaxASTDepth l), (''MaxDiagnostics'', MaxDiagnostics l),
      (''MaxArchiveEntries'', MaxArchiveEntries l),
      (''MaxArchiveEntryBytes'', MaxArchiveEntryBytes l),
      (''MaxArchiveTotalBytes'', MaxArchiveTotalBytes l),
      (''MaxArchiveDepth'', MaxArchiveDepth l), (''MaxNodeCopies'', MaxNodeCopies l)]"

fun first_negative :: "(string \<times> int) list \<Rightarrow> string option" where
  "first_negative [] = None"
| "first_negative ((name, v) # fs) =
     (if v < 0 then Some (''negative limit '' @ name) else first_negative fs)"

definition Validate_limits :: "limits \<Rightarrow> string option" where
  "Validate_limits l = first_negative (limit_fields l)"

definition limitFor :: "limits \<Rightarrow> counter \<Rightarrow> int" where
  "limitFor l c =
     (if c = CounterInputBytes then MaxInputBytes l
      else if c = CounterReadBytes then MaxReadBytes l
      else if c = CounterParseItems then MaxParseItems l
      else if c = CounterGraphScans then MaxGraphScans l
      else if c = CounterGraphEdges then MaxGraphEdges l
      else if c = CounterSetElementWork then MaxSetElementWork l
      else if c = CounterAnalysisUpdates then 0
      else if c = CounterRequestWork then MaxRequestWork l
      else if c = CounterOutputBytes then MaxOutputBytes l
      else if c = CounterDiagnostics then MaxDiagnostics l
      else if c = CounterASTDepth then MaxASTDepth l
      else if c = CounterArchiveEntries then MaxArchiveEntries l
      else if c = CounterArchiveEntryBytes then MaxArchiveEntryBytes l
      else if c = CounterArchiveTotalBytes then MaxArchiveTotalBytes l
      else if c = CounterArchiveDepth then MaxArchiveDepth l
      else if c = CounterNodeCopies then MaxNodeCopies l
      else 0)"

record berror =
  Kind :: string
  ErrCounter :: counter
  Used :: int
  Limit :: int
  Err :: "string option"

text \<open>An error value: one of the package's own, or one that came from outside.\<close>

datatype gerror = WorkError berror | Foreign string

definition Is :: "gerror option \<Rightarrow> bool" where
  "Is e = (case e of Some (WorkError _) \<Rightarrow> True | _ \<Rightarrow> False)"

section \<open>The budget\<close>

record budget =
  limits :: limits
  used :: "counter \<rightharpoonup> int"
  nesting :: "counter \<rightharpoonup> int"
  err :: "gerror option"

definition read :: "(counter \<rightharpoonup> int) \<Rightarrow> counter \<Rightarrow> int" where
  "read m c = (case m c of None \<Rightarrow> 0 | Some v \<Rightarrow> v)"

definition New :: "limits \<Rightarrow> budget" where
  "New l = \<lparr>limits = l, used = Map.empty, nesting = Map.empty, err = None\<rparr>"

fun BudgetLimit :: "budget option \<Rightarrow> counter \<Rightarrow> int" where
  "BudgetLimit None c = 0"
| "BudgetLimit (Some b) c = limitFor (limits b) c"

fun BudgetErr :: "budget option \<Rightarrow> gerror option" where
  "BudgetErr None = None"
| "BudgetErr (Some b) = err b"

fun BudgetUsed :: "budget option \<Rightarrow> counter \<Rightarrow> int" where
  "BudgetUsed None c = 0"
| "BudgetUsed (Some b) c = read (used b) c"

fun Snapshot :: "budget option \<Rightarrow> (counter \<rightharpoonup> int)" where
  "Snapshot None = Map.empty"
| "Snapshot (Some b) = used b"

definition checkCancelLocked :: "string option \<Rightarrow> budget \<Rightarrow> gerror option \<times> budget" where
  "checkCancelLocked cx b =
     (case err b of
        Some e \<Rightarrow> (Some e, b)
      | None \<Rightarrow>
          (case cx of
             None \<Rightarrow> (None, b)
           | Some e \<Rightarrow>
               (let fail = WorkError \<lparr>Kind = KindCanceled, ErrCounter = [], Used = 0, Limit = 0,
                             Err = Some e\<rparr>
                in (Some fail, b\<lparr>err := Some fail\<rparr>))))"

fun CheckContext ::
  "string option \<Rightarrow> string option \<Rightarrow> budget option \<Rightarrow> gerror option \<times> budget option" where
  "CheckContext cx ctx None = (map_option Foreign ctx, None)"
| "CheckContext cx ctx (Some b) =
     (case checkCancelLocked cx b of
        (Some e, b') \<Rightarrow> (Some e, Some b')
      | (None, b') \<Rightarrow>
          (case ctx of
             Some e \<Rightarrow>
               (let fail = WorkError \<lparr>Kind = KindCanceled, ErrCounter = [], Used = 0, Limit = 0,
                             Err = Some e\<rparr>
                in (Some fail, Some (b'\<lparr>err := Some fail\<rparr>)))
           | None \<Rightarrow> (None, Some b')))"

definition overflowOrExceed :: "int \<Rightarrow> int \<Rightarrow> int \<Rightarrow> bool" where
  "overflowOrExceed u n limit =
     (if n \<le> 0 then False
      else if u > max_int64 - n then True
      else if limit \<le> 0 then False
      else u + n > limit)"

definition kindFor :: "counter \<Rightarrow> string" where
  "kindFor c = (if c = CounterAnalysisUpdates then KindBudget else KindResource)"

definition exceedError :: "counter \<Rightarrow> int \<Rightarrow> int \<Rightarrow> int \<Rightarrow> berror" where
  "exceedError c u n limit =
     (let reported =
        (if limit \<le> 0 \<or> u > max_int64 - n then (if limit > 0 then limit else max_int64) else limit)
      in \<lparr>Kind = kindFor c, ErrCounter = c, Used = u, Limit = reported, Err = None\<rparr>)"

section \<open>Charging\<close>

text \<open>
  The first loop of \<open>chargeManyLocked\<close> over the sorted keys: the error of the first counter
  that would overflow or exceed, or the tot. A Go map argument is the list of its entries in
  any order, with distinct keys.
\<close>

fun check_keys ::
  "budget \<Rightarrow> (counter \<times> int) list \<Rightarrow> bool \<Rightarrow> int \<Rightarrow> berror + int" where
  "check_keys b [] aggregate tot = Inr tot"
| "check_keys b ((c, n) # cost) aggregate tot =
     (if overflowOrExceed (read (used b) c) n (limitFor (limits b) c)
      then Inl (exceedError c (read (used b) c) n (limitFor (limits b) c))
      else if aggregate then
        (if tot > max_int64 - n
         then Inl (exceedError CounterRequestWork tot n (MaxRequestWork (limits b)))
         else check_keys b cost aggregate (wrap64 (tot + n)))
      else check_keys b cost aggregate tot)"

fun commit_keys ::
  "bool \<Rightarrow> (counter \<times> int) list \<Rightarrow> (counter \<rightharpoonup> int) \<Rightarrow> (counter \<rightharpoonup> int)" where
  "commit_keys aggregate [] m = m"
| "commit_keys aggregate ((c, n) # cost) m =
     commit_keys aggregate cost
       (if \<not> aggregate \<or> c \<noteq> CounterRequestWork then m(c \<mapsto> wrap64 (read m c + n)) else m)"

definition sorted_cost :: "(counter \<times> int) list \<Rightarrow> (counter \<times> int) list" where
  "sorted_cost cost = sort_key fst (filter (\<lambda>(c, n). n > 0) cost)"

definition chargeManyLocked ::
  "budget \<Rightarrow> (counter \<times> int) list \<Rightarrow> bool \<Rightarrow> gerror option \<times> budget" where
  "chargeManyLocked b cost aggregate =
     (let keys = sorted_cost cost in
      case check_keys b keys aggregate 0 of
        Inl e \<Rightarrow> (Some (WorkError e), b\<lparr>err := Some (WorkError e)\<rparr>)
      | Inr tot \<Rightarrow>
          if aggregate \<and>
             overflowOrExceed (read (used b) CounterRequestWork) tot (MaxRequestWork (limits b))
          then
            (let e = WorkError (exceedError CounterRequestWork (read (used b) CounterRequestWork)
                       tot (MaxRequestWork (limits b)))
             in (Some e, b\<lparr>err := Some e\<rparr>))
          else
            (let m = commit_keys aggregate keys (used b);
                 m' = (if aggregate
                       then m(CounterRequestWork \<mapsto> wrap64 (read m CounterRequestWork + tot))
                       else m)
             in (None, b\<lparr>used := m'\<rparr>)))"

definition chargeLocked :: "budget \<Rightarrow> counter \<Rightarrow> int \<Rightarrow> bool \<Rightarrow> gerror option \<times> budget" where
  "chargeLocked b c n aggregate = chargeManyLocked b [(c, n)] aggregate"

fun Charge ::
  "string option \<Rightarrow> counter \<Rightarrow> int \<Rightarrow> budget option \<Rightarrow> gerror option \<times> budget option" where
  "Charge cx c n None = (None, None)"
| "Charge cx c n (Some b) =
     (case err b of
        Some e \<Rightarrow> (Some e, Some b)
      | None \<Rightarrow>
          (case checkCancelLocked cx b of
             (Some e, b') \<Rightarrow> (Some e, Some b')
           | (None, b') \<Rightarrow>
               if n \<le> 0 then (None, Some b')
               else map_prod id Some (chargeLocked b' c n True)))"

fun ChargeMany ::
  "string option \<Rightarrow> (counter \<times> int) list \<Rightarrow> budget option \<Rightarrow> gerror option \<times> budget option" where
  "ChargeMany cx cost None = (None, None)"
| "ChargeMany cx cost (Some b) =
     (case checkCancelLocked cx b of
        (Some e, b') \<Rightarrow> (Some e, Some b')
      | (None, b') \<Rightarrow> map_prod id Some (chargeManyLocked b' cost True))"

definition CheckedProduct :: "int \<Rightarrow> int \<Rightarrow> string + int" where
  "CheckedProduct cnt width =
     (if cnt < 0 \<or> width < 0 \<or> width \<noteq> 0 \<and> cnt > max_int64 div width
      then Inl ''resource_limit: allocation size overflow'' else Inr (wrap64 (cnt * width)))"

text \<open>
  The prologue that the remaining methods share: cancellation, then a sticky error
  (which cancellation already reports), then the body.
\<close>

definition guarded ::
  "string option \<Rightarrow> budget \<Rightarrow> (budget \<Rightarrow> gerror option \<times> budget) \<Rightarrow> gerror option \<times> budget option" where
  "guarded cx b body =
     (case checkCancelLocked cx b of
        (Some e, b') \<Rightarrow> (Some e, Some b')
      | (None, b') \<Rightarrow>
          (case err b' of
             Some e \<Rightarrow> (Some e, Some b')
           | None \<Rightarrow> map_prod id Some (body b')))"

definition set_err :: "gerror \<Rightarrow> budget \<Rightarrow> budget" where
  "set_err e b = (if err b = None then b\<lparr>err := Some e\<rparr> else b)"

fun CheckOutput :: "string option \<Rightarrow> int \<Rightarrow> budget option \<Rightarrow> gerror option \<times> budget option" where
  "CheckOutput cx tot None = (None, None)"
| "CheckOutput cx tot (Some b) = guarded cx b (\<lambda>b.
     let tot = (if tot < 0 then 0 else tot); limit = MaxOutputBytes (limits b) in
     if overflowOrExceed 0 tot limit
     then (let fail = WorkError ((exceedError CounterOutputBytes 0 tot limit)\<lparr>Used := tot\<rparr>)
           in (Some fail, set_err fail b))
     else (None, b))"

fun EnsureOutput :: "string option \<Rightarrow> int \<Rightarrow> budget option \<Rightarrow> gerror option \<times> budget option" where
  "EnsureOutput cx tot None = (None, None)"
| "EnsureOutput cx tot (Some b) = guarded cx b (\<lambda>b.
     let tot = (if tot < 0 then 0 else tot); u = read (used b) CounterOutputBytes in
     if tot \<le> u then (None, b)
     else chargeLocked b CounterOutputBytes (wrap64 (tot - u)) True)"

fun CheckAlloc :: "string option \<Rightarrow> int \<Rightarrow> budget option \<Rightarrow> gerror option \<times> budget option" where
  "CheckAlloc cx n None = (None, None)"
| "CheckAlloc cx n (Some b) = guarded cx b (\<lambda>b.
     if n \<le> 0 then (None, b)
     else
       let limit = intermediateLimit (limits b) in
       if overflowOrExceed 0 n limit
       then (let fail = WorkError ((exceedError CounterIntermediateBytes 0 n limit)\<lparr>Used := n\<rparr>)
             in (Some fail, set_err fail b))
       else (None, if n > read (used b) CounterIntermediateBytes
                   then b\<lparr>used := (used b)(CounterIntermediateBytes \<mapsto> n)\<rparr> else b))"

fun RenderGuarded :: "string option \<Rightarrow> budget option \<Rightarrow> bool" where
  "RenderGuarded cx None = False"
| "RenderGuarded cx (Some b) \<longleftrightarrow>
     MaxOutputBytes (limits b) > 0 \<or> MaxASTDepth (limits b) > 0 \<or> cx \<noteq> None"

fun RemainingOutput :: "budget option \<Rightarrow> int" where
  "RemainingOutput None = max_int64"
| "RemainingOutput (Some b) =
     (let limit = MaxOutputBytes (limits b); u = read (used b) CounterOutputBytes in
      if limit \<le> 0 then max_int64
      else if u \<ge> limit then 0
      else wrap64 (limit - u))"

fun HasOutputLimit :: "budget option \<Rightarrow> bool" where
  "HasOutputLimit None = False"
| "HasOutputLimit (Some b) \<longleftrightarrow> MaxOutputBytes (limits b) > 0"

fun RejectUnboundedRender :: "string option \<Rightarrow> budget option \<Rightarrow> gerror option \<times> budget option" where
  "RejectUnboundedRender cx None = (None, None)"
| "RejectUnboundedRender cx (Some b) = guarded cx b (\<lambda>b.
     let fail = WorkError \<lparr>Kind = KindResource, ErrCounter = CounterOutputBytes,
           Used = read (used b) CounterOutputBytes, Limit = MaxOutputBytes (limits b),
           Err = Some ''opaque renderer has no pre-allocation output bound''\<rparr>
     in (Some fail, b\<lparr>err := Some fail\<rparr>))"

fun FailRender ::
  "string option \<Rightarrow> string option \<Rightarrow> budget option \<Rightarrow> gerror option \<times> budget option" where
  "FailRender cx e None = (map_option Foreign e, None)"
| "FailRender cx e (Some b) = guarded cx b (\<lambda>b.
     let e = (case e of None \<Rightarrow> ''bounded renderer failed'' | Some s \<Rightarrow> s);
         fail = WorkError \<lparr>Kind = KindResource, ErrCounter = CounterOutputBytes,
           Used = read (used b) CounterOutputBytes, Limit = MaxOutputBytes (limits b),
           Err = Some (''bounded renderer failed: '' @ e)\<rparr>
     in (Some fail, b\<lparr>err := Some fail\<rparr>))"

definition output_overflow :: "int \<Rightarrow> gerror" where
  "output_overflow limit = WorkError \<lparr>Kind = KindResource, ErrCounter = CounterOutputBytes,
     Used = max_int64, Limit = limit, Err = Some ''output byte count overflow''\<rparr>"

fun FailOutputOverflow :: "string option \<Rightarrow> budget option \<Rightarrow> gerror option \<times> budget option" where
  "FailOutputOverflow cx None = (Some (output_overflow 0), None)"
| "FailOutputOverflow cx (Some b) = guarded cx b (\<lambda>b.
     let fail = output_overflow (MaxOutputBytes (limits b)) in (Some fail, b\<lparr>err := Some fail\<rparr>))"

section \<open>The bounded writer\<close>

text \<open>A \<open>Writer\<close> pointer that is not nil; \<open>work\<close> is its budget pointer.\<close>

record bwriter =
  buf :: string
  work :: "budget option"
  base :: int

definition NewWriter :: "budget option \<Rightarrow> bwriter" where
  "NewWriter w = \<lparr>buf = [], work = w, base = 0\<rparr>"

fun SetBase :: "int \<Rightarrow> bwriter option \<Rightarrow> bwriter option" where
  "SetBase held None = None"
| "SetBase held (Some w) = Some (w\<lparr>base := (if held < 0 then 0 else held)\<rparr>)"

fun WriteString ::
  "string option \<Rightarrow> string \<Rightarrow> bwriter option \<Rightarrow> gerror option \<times> bwriter option" where
  "WriteString cx s None = (None, None)"
| "WriteString cx s (Some w) =
     (let n = int (length s) in
      case CheckAlloc cx n (work w) of
        (Some e, b) \<Rightarrow> (Some e, Some (w\<lparr>work := b\<rparr>))
      | (None, b) \<Rightarrow>
          let current = int (length (buf w)) in
          if current > max_int64 - base w \<or> n > wrap64 (max_int64 - base w - current)
          then (case FailOutputOverflow cx b of (e, b') \<Rightarrow> (e, Some (w\<lparr>work := b'\<rparr>)))
          else
            let nxt = wrap64 (base w + current + n) in
            case CheckOutput cx nxt b of
              (Some e, b') \<Rightarrow> (Some e, Some (w\<lparr>work := b'\<rparr>))
            | (None, b') \<Rightarrow> (None, Some (w\<lparr>work := b', buf := buf w @ s\<rparr>)))"

fun WriterString :: "bwriter option \<Rightarrow> string" where
  "WriterString None = []"
| "WriterString (Some w) = buf w"

fun WriterLen :: "bwriter option \<Rightarrow> int" where
  "WriterLen None = 0"
| "WriterLen (Some w) = int (length (buf w))"

section \<open>Depth gauges and archive entries\<close>

definition Check :: "string option \<Rightarrow> budget option \<Rightarrow> gerror option \<times> budget option" where
  "Check cx b = Charge cx CounterRequestWork 0 b"

fun CheckDepth ::
  "string option \<Rightarrow> counter \<Rightarrow> int \<Rightarrow> budget option \<Rightarrow> gerror option \<times> budget option" where
  "CheckDepth cx c depth None = (None, None)"
| "CheckDepth cx c depth (Some b) = guarded cx b (\<lambda>b.
     let depth = (if depth < 0 then 0 else depth); limit = limitFor (limits b) c in
     if limit > 0 \<and> depth > limit
     then (let fail = WorkError \<lparr>Kind = KindResource, ErrCounter = c, Used = depth, Limit = limit,
                       Err = None\<rparr>
           in (Some fail, set_err fail b))
     else (None, if depth > read (used b) c then b\<lparr>used := (used b)(c \<mapsto> depth)\<rparr> else b))"

fun Enter :: "string option \<Rightarrow> counter \<Rightarrow> budget option \<Rightarrow> gerror option \<times> budget option" where
  "Enter cx c None = (None, None)"
| "Enter cx c (Some b) = guarded cx b (\<lambda>b.
     let nxt = wrap64 (read (nesting b) c + 1); limit = limitFor (limits b) c in
     if limit > 0 \<and> nxt > limit
     then (let fail = WorkError \<lparr>Kind = KindResource, ErrCounter = c, Used = nxt, Limit = limit,
                       Err = None\<rparr>
           in (Some fail, set_err fail b))
     else
       (None, (let b' = b\<lparr>nesting := (nesting b)(c \<mapsto> nxt)\<rparr> in
               if nxt > read (used b') c then b'\<lparr>used := (used b')(c \<mapsto> nxt)\<rparr> else b')))"

fun Leave :: "counter \<Rightarrow> budget option \<Rightarrow> budget option" where
  "Leave c None = None"
| "Leave c (Some b) =
     Some (if read (nesting b) c > 0
           then b\<lparr>nesting := (nesting b)(c \<mapsto> read (nesting b) c - 1)\<rparr> else b)"

text \<open>The second locked section of \<open>CheckArchiveEntryBytes\<close>.\<close>

definition entry_section ::
  "string option \<Rightarrow> int \<Rightarrow> budget \<Rightarrow> gerror option \<times> budget option" where
  "entry_section cx n b = guarded cx b (\<lambda>b.
     let limit = MaxArchiveEntryBytes (limits b) in
     if overflowOrExceed 0 n limit
     then (let fail = WorkError ((exceedError CounterArchiveEntryBytes 0 n limit)\<lparr>Used := n\<rparr>)
           in (Some fail, set_err fail b))
     else (None, if n > read (used b) CounterArchiveEntryBytes
                 then b\<lparr>used := (used b)(CounterArchiveEntryBytes \<mapsto> n)\<rparr> else b))"

definition CheckArchiveEntryBytes ::
  "string option \<Rightarrow> int \<Rightarrow> budget option \<Rightarrow> gerror option \<times> budget option" where
  "CheckArchiveEntryBytes cx n bp =
     (case bp of
        None \<Rightarrow> (None, None)
      | Some b \<Rightarrow>
          (case Check cx (Some b) of
             (Some e, b') \<Rightarrow> (Some e, b')
           | (None, b') \<Rightarrow>
               if n \<le> 0 then (None, b')
               else (case b' of None \<Rightarrow> (None, None) | Some b'' \<Rightarrow> entry_section cx n b'')))"

definition ChargeArchiveEntryBytes ::
  "string option \<Rightarrow> int \<Rightarrow> budget option \<Rightarrow> gerror option \<times> budget option" where
  "ChargeArchiveEntryBytes cx n b =
     (case CheckArchiveEntryBytes cx n b of
        (Some e, b') \<Rightarrow> (Some e, b')
      | (None, b') \<Rightarrow> Charge cx CounterArchiveTotalBytes n b')"

section \<open>The shape of every outcome\<close>

lemma read_upd [simp]: "read (m(c \<mapsto> v)) d = (if d = c then v else read m d)"
  by (simp add: read_def)

lemma read_empty [simp]: "read Map.empty c = 0"
  by (simp add: read_def)

text \<open>
  Outside a cancellation and a sticky error, a guarded method is its body; otherwise it reports
  the error and keeps the counters.
\<close>

lemma checkCancel_cases:
  "checkCancelLocked cx b =
     (case err b of Some e \<Rightarrow> (Some e, b)
      | None \<Rightarrow> (case cx of None \<Rightarrow> (None, b)
          | Some e \<Rightarrow> (let f = WorkError \<lparr>Kind = KindCanceled, ErrCounter = [], Used = 0, Limit = 0,
                          Err = Some e\<rparr> in (Some f, b\<lparr>err := Some f\<rparr>))))"
  by (simp add: checkCancelLocked_def)

lemma checkCancel_sticky [simp]: "err b = Some e \<Longrightarrow> checkCancelLocked cx b = (Some e, b)"
  by (simp add: checkCancelLocked_def)

lemma checkCancel_clear [simp]: "err b = None \<Longrightarrow> checkCancelLocked None b = (None, b)"
  by (simp add: checkCancelLocked_def)

lemma guarded_sticky [simp]: "err b = Some e \<Longrightarrow> guarded cx b body = (Some e, Some b)"
  by (simp add: guarded_def)

lemma guarded_clear [simp]: "err b = None \<Longrightarrow> guarded None b body = map_prod id Some (body b)"
  by (simp add: guarded_def)

definition cancelled :: "string \<Rightarrow> gerror" where
  "cancelled e = WorkError \<lparr>Kind = KindCanceled, ErrCounter = [], Used = 0, Limit = 0, Err = Some e\<rparr>"

lemma checkCancel_cancelled [simp]:
  "err b = None \<Longrightarrow>
     checkCancelLocked (Some e) b = (Some (cancelled e), b\<lparr>err := Some (cancelled e)\<rparr>)"
  by (simp add: checkCancelLocked_def cancelled_def Let_def)

lemma guarded_cancelled [simp]:
  "err b = None \<Longrightarrow>
     guarded (Some e) b body = (Some (cancelled e), Some (b\<lparr>err := Some (cancelled e)\<rparr>))"
  by (simp add: guarded_def)

text \<open>
  The invariant: every counter is a nonnegative \<open>int64\<close> within its limit. \<open>outcome_ok\<close> is
  the contract of every method: the limits stay, no counter decreases, the invariant is kept, and
  an error is the one that is stored.
\<close>

definition in_bounds :: "budget \<Rightarrow> counter \<Rightarrow> int \<Rightarrow> bool" where
  "in_bounds b c v \<longleftrightarrow> 0 \<le> v \<and> v \<le> max_int64 \<and>
     (0 < limitFor (limits b) c \<longrightarrow> v \<le> limitFor (limits b) c)"

definition within_limits :: "budget \<Rightarrow> bool" where
  "within_limits b \<longleftrightarrow> (\<forall>c. in_bounds b c (read (used b) c))"

definition outcome_ok :: "budget \<Rightarrow> gerror option \<times> budget \<Rightarrow> bool" where
  "outcome_ok b r \<longleftrightarrow>
     limits (snd r) = limits b \<and> (\<forall>c. read (used b) c \<le> read (used (snd r)) c) \<and>
     (within_limits b \<longrightarrow> within_limits (snd r)) \<and> err (snd r) = (if fst r = None then err b else fst r)"

lemma within_limits_New: "within_limits (New l)"
  by (simp add: within_limits_def in_bounds_def New_def max_int64_def)

lemma outcome_err:
  "err b = None \<Longrightarrow> outcome_ok b (Some e, b\<lparr>err := Some e\<rparr>)"
  by (simp add: outcome_ok_def within_limits_def in_bounds_def)

lemma outcome_same: "outcome_ok b (None, b)"
  by (simp add: outcome_ok_def)

lemma outcome_set_err: "err b = None \<Longrightarrow> outcome_ok b (Some e, set_err e b)"
  by (simp add: set_err_def outcome_err)

lemma outcome_nesting: "outcome_ok b (None, b\<lparr>nesting := m\<rparr>)"
  by (simp add: outcome_ok_def within_limits_def in_bounds_def)

lemma outcome_raise:
  assumes "read (used b) c \<le> v" and "v \<le> max_int64"
    and "0 < limitFor (limits b) c \<longrightarrow> v \<le> limitFor (limits b) c"
  shows "outcome_ok b (None, b\<lparr>used := (used b)(c \<mapsto> v)\<rparr>)"
  using assms by (auto simp: outcome_ok_def within_limits_def in_bounds_def intro: order_trans)

lemma outcome_trans:
  assumes "outcome_ok b (None, b')" and "outcome_ok b' r"
  shows "outcome_ok b r"
  using assms by (auto simp: outcome_ok_def intro: order_trans split: if_splits)

lemma limitFor_named [simp]:
  "limitFor l CounterRequestWork = MaxRequestWork l"
  "limitFor l CounterOutputBytes = MaxOutputBytes l"
  "limitFor l CounterArchiveEntryBytes = MaxArchiveEntryBytes l"
  "limitFor l CounterArchiveTotalBytes = MaxArchiveTotalBytes l"
  "limitFor l CounterIntermediateBytes = 0"
  by (simp_all add: limitFor_def counter_defs)

lemma not_exceedI:
  "\<not> overflowOrExceed u n limit \<longleftrightarrow> n \<le> 0 \<or> (u + n \<le> max_int64 \<and> (0 < limit \<longrightarrow> u + n \<le> limit))"
  by (auto simp: overflowOrExceed_def)

section \<open>\<open>chargeManyLocked\<close> on its entries\<close>

definition cost_fits :: "budget \<Rightarrow> counter \<times> int \<Rightarrow> bool" where
  "cost_fits b p \<longleftrightarrow> \<not> overflowOrExceed (read (used b) (fst p)) (snd p) (limitFor (limits b) (fst p))"

definition cost_sum :: "(counter \<times> int) list \<Rightarrow> int" where
  "cost_sum cost = sum_list (map snd cost)"

definition cost_of :: "(counter \<times> int) list \<Rightarrow> counter \<Rightarrow> int" where
  "cost_of cost c = sum_list (map snd (filter (\<lambda>p. fst p = c) cost))"

lemma sum_pos_entries: "\<forall>p\<in>set cost. 0 < snd p \<Longrightarrow> 0 \<le> cost_sum cost"
  by (induction cost) (auto simp: cost_sum_def)

lemma cost_of_pos: "\<forall>p\<in>set cost. 0 < snd p \<Longrightarrow> 0 \<le> cost_of cost c"
  by (induction cost) (auto simp: cost_of_def)

lemma check_keys_aggregate:
  assumes "\<forall>p\<in>set cost. 0 < snd p" and "0 \<le> t" and "t \<le> max_int64"
  shows "check_keys b cost True t = Inr v \<longleftrightarrow>
    (\<forall>p\<in>set cost. cost_fits b p) \<and> t + cost_sum cost \<le> max_int64 \<and> v = t + cost_sum cost"
  using assms
proof (induction cost arbitrary: t)
  case Nil
  then show ?case by (auto simp: cost_sum_def)
next
  case (Cons p cost)
  obtain c n where p: "p = (c, n)" by fastforce
  have n: "0 < n" and pos: "\<forall>p\<in>set cost. 0 < snd p" using Cons.prems p by auto
  have sum0: "0 \<le> cost_sum cost" using pos by (rule sum_pos_entries)
  have hd: "cost_sum (p # cost) = n + cost_sum cost" by (simp add: p cost_sum_def)
  show ?case
  proof (cases "t + n \<le> max_int64")
    case True
    then have w: "wrap64 (t + n) = t + n"
      using Cons.prems n by (intro wrap64_id) (simp add: int64_range_def min_int64_def)
    have "check_keys b cost True (t + n) = Inr v \<longleftrightarrow>
      (\<forall>p\<in>set cost. cost_fits b p) \<and> t + n + cost_sum cost \<le> max_int64 \<and> v = t + n + cost_sum cost"
      using Cons.IH [of "t + n"] pos Cons.prems n True by simp
    then show ?thesis using True w unfolding hd
      by (simp add: p cost_fits_def add.assoc)
  next
    case False
    then show ?thesis using sum0 unfolding hd by (auto simp: p cost_fits_def)
  qed
qed

lemma sum_list_mset_cong:
  fixes f :: "'a \<Rightarrow> int"
  assumes "mset xs = mset ys" shows "sum_list (map f xs) = sum_list (map f ys)"
proof -
  have "sum_mset (image_mset f (mset xs)) = sum_mset (image_mset f (mset ys))" using assms by simp
  then show ?thesis by (simp only: mset_map [symmetric] sum_mset_sum_list)
qed

lemma cost_of_notin: "c \<notin> fst ` set cost \<Longrightarrow> cost_of cost c = 0"
  by (induction cost) (auto simp: cost_of_def)

lemma cost_of_in: "distinct (map fst cost) \<Longrightarrow> (c, n) \<in> set cost \<Longrightarrow> cost_of cost c = n"
proof (induction cost)
  case (Cons p cost)
  then show ?case
  proof (cases "p = (c, n)")
    case True
    then have "c \<notin> fst ` set cost" using Cons.prems by simp
    then have "cost_of cost c = 0" by (rule cost_of_notin)
    then show ?thesis using True by (simp add: cost_of_def)
  next
    case False
    then have "(c, n) \<in> set cost" using Cons.prems by simp
    moreover have "fst p \<noteq> c" using \<open>(c, n) \<in> set cost\<close> Cons.prems(1) by (auto simp: image_iff)
    ultimately show ?thesis using Cons by (simp add: cost_of_def)
  qed
qed simp

lemma commit_keys_read:
  assumes "distinct (map fst cost)" and "\<forall>p\<in>set cost. 0 < snd p"
    and "\<forall>c. 0 \<le> read m c" and "\<forall>p\<in>set cost. read m (fst p) + snd p \<le> max_int64"
  shows "read (commit_keys True cost m) d =
    (if d = CounterRequestWork then read m d else read m d + cost_of cost d)"
  using assms
proof (induction cost arbitrary: m)
  case Nil
  then show ?case by (simp add: cost_of_def)
next
  case (Cons p cost)
  obtain c n where p: "p = (c, n)" by fastforce
  define m' where "m' = (if c \<noteq> CounterRequestWork then m(c \<mapsto> wrap64 (read m c + n)) else m)"
  have w: "wrap64 (read m c + n) = read m c + n"
  proof (rule wrap64_id)
    have "0 \<le> read m c" and "0 < n" and "read m c + n \<le> max_int64" using Cons.prems p by auto
    then show "int64_range (read m c + n)" by (simp add: int64_range_def min_int64_def)
  qed
  have fresh: "c \<notin> fst ` set cost" using Cons.prems(1) p by simp
  have m'_read: "read m' e = (if e = c \<and> c \<noteq> CounterRequestWork then read m c + n else read m e)" for e
    by (simp add: m'_def w)
  have "read (commit_keys True cost m') d =
    (if d = CounterRequestWork then read m' d else read m' d + cost_of cost d)"
  proof (rule Cons.IH)
    show "\<forall>p\<in>set cost. read m' (fst p) + snd p \<le> max_int64"
    proof
      fix q assume q: "q \<in> set cost"
      with fresh have "fst q \<noteq> c" by force
      with q Cons.prems(4) show "read m' (fst q) + snd q \<le> max_int64" by (simp add: m'_read)
    qed
  qed (use Cons.prems p in \<open>auto simp: m'_read add_nonneg_nonneg\<close>)
  moreover have "commit_keys True (p # cost) m = commit_keys True cost m'"
    by (simp add: p m'_def)
  moreover have "cost_of (p # cost) d = (if d = c then n else 0) + cost_of cost d"
    by (simp add: cost_of_def p)
  ultimately show ?case using fresh by (auto simp: m'_read cost_of_notin)
qed

text \<open>The entries that count, whatever their order.\<close>

definition positive :: "(counter \<times> int) list \<Rightarrow> (counter \<times> int) list" where
  "positive cost = filter (\<lambda>p. 0 < snd p) cost"

definition charge_fits :: "budget \<Rightarrow> (counter \<times> int) list \<Rightarrow> bool" where
  "charge_fits b cost \<longleftrightarrow> (\<forall>p\<in>set (positive cost). cost_fits b p) \<and>
     cost_fits b (CounterRequestWork, cost_sum (positive cost)) \<and>
     cost_sum (positive cost) \<le> max_int64"

definition charged :: "budget \<Rightarrow> (counter \<times> int) list \<Rightarrow> counter \<Rightarrow> int" where
  "charged b cost c = read (used b) c +
     (if c = CounterRequestWork then cost_sum (positive cost) else cost_of (positive cost) c)"

lemma sorted_cost_eq: "sorted_cost cost = sort_key fst (positive cost)"
  unfolding sorted_cost_def positive_def case_prod_beta by (rule refl)

lemma sorted_cost_facts:
  "set (sorted_cost cost) = set (positive cost)"
  "cost_sum (sorted_cost cost) = cost_sum (positive cost)"
  "distinct (map fst cost) \<Longrightarrow> distinct (map fst (sorted_cost cost))"
  "\<forall>p\<in>set (sorted_cost cost). 0 < snd p"
  "\<forall>p\<in>set (positive cost). 0 < snd p"
proof -
  have ms: "mset (sorted_cost cost) = mset (positive cost)" by (simp add: sorted_cost_eq)
  show "set (sorted_cost cost) = set (positive cost)" by (simp add: sorted_cost_eq)
  show "cost_sum (sorted_cost cost) = cost_sum (positive cost)"
    unfolding cost_sum_def using ms by (rule sum_list_mset_cong)
  show "distinct (map fst (sorted_cost cost))" if "distinct (map fst cost)"
  proof -
    have "distinct (map fst (positive cost))"
      using that unfolding positive_def by (induction cost) auto
    moreover have "mset (map fst (sorted_cost cost)) = mset (map fst (positive cost))" by (simp add: ms)
    ultimately show ?thesis using mset_eq_imp_distinct_iff by blast
  qed
qed (auto simp: sorted_cost_eq positive_def)

lemma cost_of_sorted: "cost_of (sorted_cost cost) c = cost_of (positive cost) c"
proof -
  have "mset (filter (\<lambda>p. fst p = c) (sorted_cost cost)) = mset (filter (\<lambda>p. fst p = c) (positive cost))"
    by (simp add: sorted_cost_eq)
  then show ?thesis unfolding cost_of_def by (rule sum_list_mset_cong)
qed

lemma chargeMany_ok:
  assumes "within_limits b" and "distinct (map fst cost)" and "charge_fits b cost"
  shows "\<exists>m. chargeManyLocked b cost True = (None, b\<lparr>used := m\<rparr>) \<and> (\<forall>c. read m c = charged b cost c)"
proof -
  let ?keys = "sorted_cost cost" and ?t = "cost_sum (positive cost)"
  note facts = sorted_cost_facts [of cost]
  have t0: "0 \<le> ?t" using sum_pos_entries facts(5) by blast
  have check: "check_keys b ?keys True 0 = Inr ?t"
    using check_keys_aggregate [of ?keys 0 b ?t] facts assms(3)
    by (simp add: charge_fits_def max_int64_def)
  have nonneg: "0 \<le> read (used b) c" for c
    using assms(1) by (simp add: within_limits_def in_bounds_def)
  have fits: "cost_fits b (CounterRequestWork, ?t)" using assms(3) by (simp add: charge_fits_def)
  have small: "read (used b) (fst p) + snd p \<le> max_int64" if "p \<in> set ?keys" for p
    using that facts assms(3) by (force simp: charge_fits_def cost_fits_def not_exceedI)
  define m where "m = commit_keys True ?keys (used b)"
  have m: "read m c = (if c = CounterRequestWork then read (used b) c
      else read (used b) c + cost_of ?keys c)" for c
    unfolding m_def by (rule commit_keys_read) (use facts assms(2) nonneg small in auto)
  have w: "wrap64 (read (used b) CounterRequestWork + ?t) = read (used b) CounterRequestWork + ?t"
  proof (rule wrap64_id)
    have "read (used b) CounterRequestWork \<le> max_int64"
      using assms(1) by (simp add: within_limits_def in_bounds_def)
    then show "int64_range (read (used b) CounterRequestWork + ?t)"
      using fits t0 nonneg [of CounterRequestWork]
      by (auto simp: cost_fits_def not_exceedI int64_range_def min_int64_def)
  qed
  have "chargeManyLocked b cost True =
      (None, b\<lparr>used := m(CounterRequestWork \<mapsto> wrap64 (read m CounterRequestWork + ?t))\<rparr>)"
    using check fits by (simp add: chargeManyLocked_def Let_def m_def cost_fits_def)
  then show ?thesis using m w by (intro exI conjI) (auto simp: charged_def cost_of_sorted)
qed

lemma chargeMany_err:
  assumes "\<not> charge_fits b cost"
  shows "\<exists>e. chargeManyLocked b cost True = (Some (WorkError e), b\<lparr>err := Some (WorkError e)\<rparr>)"
proof (cases "check_keys b (sorted_cost cost) True 0")
  case (Inl e)
  then show ?thesis by (simp add: chargeManyLocked_def)
next
  case (Inr t)
  then have "(\<forall>p\<in>set (positive cost). cost_fits b p) \<and> t \<le> max_int64 \<and> t = cost_sum (positive cost)"
    using check_keys_aggregate [of "sorted_cost cost" 0 b t] sorted_cost_facts [of cost]
    by (simp add: max_int64_def)
  with assms have "\<not> cost_fits b (CounterRequestWork, t)" by (simp add: charge_fits_def)
  with Inr show ?thesis by (simp add: chargeManyLocked_def cost_fits_def Let_def)
qed

lemma charged_in_bounds:
  assumes "within_limits b" and "distinct (map fst cost)" and "charge_fits b cost"
  shows "read (used b) c \<le> charged b cost c" and "in_bounds b c (charged b cost c)"
proof -
  have t0: "0 \<le> cost_sum (positive cost)" using sum_pos_entries sorted_cost_facts(5) by blast
  have c0: "0 \<le> cost_of (positive cost) c" using cost_of_pos sorted_cost_facts(5) by blast
  show ge: "read (used b) c \<le> charged b cost c" using t0 c0 by (simp add: charged_def)
  have b: "in_bounds b c (read (used b) c)" using assms(1) by (simp add: within_limits_def)
  show "in_bounds b c (charged b cost c)"
  proof (cases "c = CounterRequestWork")
    case True
    then show ?thesis using assms(3) b t0 
      by (auto simp: charge_fits_def cost_fits_def not_exceedI in_bounds_def charged_def)
  next
    case False
    show ?thesis
    proof (cases "\<exists>n. (c, n) \<in> set (positive cost)")
      case True
      then obtain n where n: "(c, n) \<in> set (positive cost)" by blast
      have d: "distinct (map fst (positive cost))"
        using assms(2) unfolding positive_def by (induction cost) auto
      have "cost_of (positive cost) c = n" using d n by (rule cost_of_in)
      moreover have "0 < n" using n by (simp add: positive_def)
      moreover have "cost_fits b (c, n)" using n assms(3) by (auto simp: charge_fits_def)
      ultimately show ?thesis using False b
        by (auto simp: cost_fits_def not_exceedI in_bounds_def charged_def)
    next
      case no: False
      then have "cost_of (positive cost) c = 0" by (intro cost_of_notin) force
      then show ?thesis using False b by (simp add: charged_def)
    qed
  qed
qed

lemma outcome_chargeMany:
  assumes "distinct (map fst cost)" and "err b = None"
  shows "outcome_ok b (chargeManyLocked b cost True) \<or> \<not> within_limits b"
proof (cases "within_limits b \<and> charge_fits b cost")
  case True
  then obtain m where "chargeManyLocked b cost True = (None, b\<lparr>used := m\<rparr>)"
      and m: "\<forall>c. read m c = charged b cost c"
    using chargeMany_ok assms by blast
  then show ?thesis using charged_in_bounds True assms(1)
    by (simp add: outcome_ok_def within_limits_def in_bounds_def)
next
  case False
  then show ?thesis using chargeMany_err [of b cost] outcome_err [OF assms(2)] by auto
qed

section \<open>Sequences of calls\<close>

text \<open>
  Every method that can change a budget, as a command; \<open>run\<close> is a sequence of calls, each with
  what the context reports at that moment. The mutex makes every concurrent history such a
  sequence (the two-part archive call included: its parts are the commands \<open>OCheck\<close> and
  \<open>OEntrySection\<close>).
\<close>

datatype bop =
    OCharge counter int
  | OChargeMany "(counter \<times> int) list"
  | OCheckContext "string option"
  | OCheckOutput int
  | OEnsureOutput int
  | OCheckAlloc int
  | ORejectUnboundedRender
  | OFailRender "string option"
  | OFailOutputOverflow
  | OCheck
  | OCheckDepth counter int
  | OEnter counter
  | OLeave counter
  | OEntrySection int
  | OCheckArchiveEntryBytes int
  | OChargeArchiveEntryBytes int

fun step :: "string option \<Rightarrow> bop \<Rightarrow> budget option \<Rightarrow> gerror option \<times> budget option" where
  "step cx (OCharge c n) b = Charge cx c n b"
| "step cx (OChargeMany cost) b = ChargeMany cx cost b"
| "step cx (OCheckContext ctx) b = CheckContext cx ctx b"
| "step cx (OCheckOutput n) b = CheckOutput cx n b"
| "step cx (OEnsureOutput n) b = EnsureOutput cx n b"
| "step cx (OCheckAlloc n) b = CheckAlloc cx n b"
| "step cx ORejectUnboundedRender b = RejectUnboundedRender cx b"
| "step cx (OFailRender e) b = FailRender cx e b"
| "step cx OFailOutputOverflow b = FailOutputOverflow cx b"
| "step cx OCheck b = Check cx b"
| "step cx (OCheckDepth c n) b = CheckDepth cx c n b"
| "step cx (OEnter c) b = Enter cx c b"
| "step cx (OLeave c) b = (None, Leave c b)"
| "step cx (OEntrySection n) b =
     (case b of None \<Rightarrow> (None, None) | Some b \<Rightarrow> entry_section cx n b)"
| "step cx (OCheckArchiveEntryBytes n) b = CheckArchiveEntryBytes cx n b"
| "step cx (OChargeArchiveEntryBytes n) b = ChargeArchiveEntryBytes cx n b"

fun run :: "(string option \<times> bop) list \<Rightarrow> budget option \<Rightarrow> budget option" where
  "run [] b = b"
| "run ((cx, op) # ops) b = run ops (snd (step cx op b))"

text \<open>
  What the callers owe: a Go map has distinct keys, and a depth is an \<open>int64\<close> (the other
  arguments are checked by the code itself).
\<close>

fun op_ok :: "bop \<Rightarrow> bool" where
  "op_ok (OChargeMany cost) \<longleftrightarrow> distinct (map fst cost)"
| "op_ok (OCheckDepth c n) \<longleftrightarrow> n \<le> max_int64"
| "op_ok _ \<longleftrightarrow> True"

definition result_ok :: "budget \<Rightarrow> gerror option \<times> budget option \<Rightarrow> bool" where
  "result_ok b r \<longleftrightarrow> (\<exists>b'. snd r = Some b' \<and> outcome_ok b (fst r, b'))"

lemma result_okI: "outcome_ok b r \<Longrightarrow> result_ok b (map_prod id Some r)"
  by (cases r) (simp add: result_ok_def)

lemma result_some [simp]: "result_ok b (e, Some b') \<longleftrightarrow> outcome_ok b (e, b')"
  by (simp add: result_ok_def)

lemma outcome_sticky: "err b = Some e \<Longrightarrow> outcome_ok b (Some e, b)"
  by (simp add: outcome_ok_def)

lemma result_guarded:
  assumes "err b = None \<Longrightarrow> outcome_ok b (body b)"
  shows "result_ok b (guarded cx b body)"
proof (cases "err b")
  case None
  then show ?thesis using assms
    by (cases cx) (simp_all add: result_okI outcome_err)
qed (simp add: outcome_sticky)

lemma result_Charge:
  assumes "within_limits b" shows "result_ok b (Charge cx c n (Some b))"
proof (cases "err b")
  case None
  then show ?thesis
    using outcome_chargeMany [of "[(c, n)]" b] assms
    by (cases cx) (auto simp: chargeLocked_def result_okI outcome_err outcome_same)
qed (simp add: outcome_sticky)

lemma result_trans:
  assumes "result_ok b (None, bp)" and "\<And>b'. bp = Some b' \<Longrightarrow> result_ok b' r"
  shows "result_ok b r"
  using assms outcome_trans unfolding result_ok_def by fastforce

lemma result_within:
  "result_ok b r \<Longrightarrow> snd r = Some b' \<Longrightarrow> within_limits b \<Longrightarrow> within_limits b'"
  by (auto simp: result_ok_def outcome_ok_def)

lemma result_entry: "result_ok b (entry_section cx n b)"
  unfolding entry_section_def
proof (rule result_guarded)
  assume e: "err b = None"
  show "outcome_ok b
     (let limit = MaxArchiveEntryBytes (limits b) in
      if overflowOrExceed 0 n limit
      then (let fail = WorkError ((exceedError CounterArchiveEntryBytes 0 n limit)\<lparr>Used := n\<rparr>)
            in (Some fail, set_err fail b))
      else (None, if n > read (used b) CounterArchiveEntryBytes
                  then b\<lparr>used := (used b)(CounterArchiveEntryBytes \<mapsto> n)\<rparr> else b))"
    using e by (auto simp: Let_def outcome_set_err outcome_same not_exceedI max_int64_def intro!: outcome_raise)
qed

lemma result_CheckArchive:
  assumes "within_limits b" shows "result_ok b (CheckArchiveEntryBytes cx n (Some b))"
proof -
  obtain e bp where c: "Check cx (Some b) = (e, bp)" by fastforce
  have r: "result_ok b (e, bp)" using result_Charge [OF assms] c by (metis Check_def)
  show ?thesis
  proof (cases e)
    case None
    with c r show ?thesis
      by (auto simp: CheckArchiveEntryBytes_def result_ok_def [of _ "(None, _)"] 
          intro: result_trans [OF r [unfolded None]] result_entry split: option.splits)
  qed (use c r in \<open>simp add: CheckArchiveEntryBytes_def\<close>)
qed

lemma result_step:
  assumes "op_ok op" and w: "within_limits b" shows "result_ok b (step cx op (Some b))"
proof (cases op)
  case (OChargeMany cost)
  then show ?thesis
    using outcome_chargeMany [of cost b] assms
    by (cases "err b"; cases cx) (auto simp: result_okI outcome_err outcome_sticky)
next
  case (OCheckContext ctx)
  then show ?thesis
    by (cases "err b"; cases cx; cases ctx)
      (auto simp: outcome_err outcome_sticky outcome_same Let_def)
next
  case (OEnsureOutput n)
  then show ?thesis
    using outcome_chargeMany [of "[(c, m)]" b for c m] w
    by (auto simp: chargeLocked_def Let_def outcome_same intro!: result_guarded)
next
  case (OCheckDepth c n)
  then show ?thesis using assms w
    by (auto simp: Let_def outcome_set_err outcome_same within_limits_def in_bounds_def max_int64_def
        intro!: result_guarded outcome_raise)
next
  case (OEnter c)
  have "wrap64 (read (nesting b) c + 1) \<le> max_int64"
    using wrap64_range by (simp add: int64_range_def)
  then show ?thesis unfolding OEnter
    using outcome_trans [OF outcome_nesting outcome_raise]
    by (auto simp: Let_def outcome_set_err outcome_nesting intro!: result_guarded)
next
  case (OLeave c)
  then show ?thesis by (simp add: outcome_nesting outcome_same)
next
  case (OChargeArchiveEntryBytes n)
  obtain e bp where c: "CheckArchiveEntryBytes cx n (Some b) = (e, bp)" by fastforce
  have r: "result_ok b (e, bp)" using result_CheckArchive [OF w] c by metis
  show ?thesis
  proof (cases e)
    case None
    then obtain b' where b': "bp = Some b'" "within_limits b'"
      using r result_within [OF r] w by (auto simp: result_ok_def)
    then show ?thesis using OChargeArchiveEntryBytes c None result_trans [OF r [unfolded None]]
        result_Charge by (simp add: ChargeArchiveEntryBytes_def)
  qed (use c r OChargeArchiveEntryBytes in \<open>simp add: ChargeArchiveEntryBytes_def\<close>)
qed (use w in \<open>auto simp: Let_def Check_def result_Charge result_entry result_CheckArchive
        outcome_set_err outcome_same outcome_err not_exceedI max_int64_def
        intro!: result_guarded outcome_raise simp del: Charge.simps\<close>)

lemma run_within:
  "\<forall>p\<in>set ops. op_ok (snd p) \<Longrightarrow> within_limits b \<Longrightarrow>
     \<exists>b'. run ops (Some b) = Some b' \<and> within_limits b' \<and> limits b' = limits b"
proof (induction ops arbitrary: b)
  case (Cons p ops)
  obtain cx op where p: "p = (cx, op)" by fastforce
  have "result_ok b (step cx op (Some b))" using Cons.prems p by (intro result_step) auto
  then obtain b' where b': "snd (step cx op (Some b)) = Some b'"
      "within_limits b'" "limits b' = limits b"
    using Cons.prems(2) by (auto simp: result_ok_def outcome_ok_def)
  then show ?case using Cons.IH [of b'] Cons.prems p by auto
qed simp

lemma step_sticky:
  assumes "err b = Some e"
  shows "(\<forall>c. op \<noteq> OLeave c) \<Longrightarrow> step cx op (Some b) = (Some e, Some b)"
  using assms
  by (cases op) (auto simp: Check_def CheckArchiveEntryBytes_def ChargeArchiveEntryBytes_def entry_section_def)

lemma run_sticky:
  "err b = Some e \<Longrightarrow>
     \<exists>b'. run ops (Some b) = Some b' \<and> err b' = Some e \<and> used b' = used b"
proof (induction ops arbitrary: b)
  case (Cons p ops)
  obtain cx op where p: "p = (cx, op)" by fastforce
  have "\<exists>b'. snd (step cx op (Some b)) = Some b' \<and> err b' = Some e \<and> used b' = used b"
  proof (cases "\<exists>c. op = OLeave c")
    case True
    then show ?thesis using Cons.prems by auto
  qed (use step_sticky Cons.prems in auto)
  then show ?case using Cons.IH p by fastforce
qed simp

lemma limitFor_rest:
  "limitFor l CounterInputBytes = MaxInputBytes l"
  "limitFor l CounterReadBytes = MaxReadBytes l"
  "limitFor l CounterParseItems = MaxParseItems l"
  "limitFor l CounterGraphScans = MaxGraphScans l"
  "limitFor l CounterGraphEdges = MaxGraphEdges l"
  "limitFor l CounterSetElementWork = MaxSetElementWork l"
  "limitFor l CounterDiagnostics = MaxDiagnostics l"
  "limitFor l CounterASTDepth = MaxASTDepth l"
  "limitFor l CounterArchiveEntries = MaxArchiveEntries l"
  "limitFor l CounterArchiveDepth = MaxArchiveDepth l"
  "limitFor l CounterNodeCopies = MaxNodeCopies l"
  by (simp_all add: limitFor_def counter_defs)

definition gauges :: "counter list" where
  "gauges = [CounterInputBytes, CounterReadBytes, CounterParseItems, CounterGraphScans,
     CounterGraphEdges, CounterSetElementWork, CounterRequestWork, CounterOutputBytes,
     CounterDiagnostics, CounterASTDepth, CounterArchiveEntries, CounterArchiveEntryBytes,
     CounterArchiveTotalBytes, CounterArchiveDepth, CounterNodeCopies]"

lemma first_negative_None: "first_negative fs = None \<Longrightarrow> \<forall>p\<in>set fs. 0 \<le> snd p"
  by (induction fs rule: first_negative.induct) (auto split: if_splits)

lemma exceed_iff:
  "overflowOrExceed u n limit \<longleftrightarrow> 0 < n \<and> (max_int64 < u + n \<or> (0 < limit \<and> limit < u + n))"
  by (auto simp: overflowOrExceed_def)

definition room :: "budget \<Rightarrow> counter \<Rightarrow> int \<Rightarrow> bool" where
  "room b c n \<longleftrightarrow> read (used b) c + n \<le> max_int64 \<and>
     (0 < limitFor (limits b) c \<longrightarrow> read (used b) c + n \<le> limitFor (limits b) c)"

lemma charge_fits_room:
  assumes "within_limits b"
  shows "charge_fits b cost \<longleftrightarrow>
    (\<forall>p\<in>set (positive cost). room b (fst p) (snd p)) \<and>
    room b CounterRequestWork (cost_sum (positive cost))"
proof -
  let ?t = "cost_sum (positive cost)"
  have t0: "0 \<le> ?t" using sum_pos_entries sorted_cost_facts(5) by blast
  have rw: "in_bounds b CounterRequestWork (read (used b) CounterRequestWork)"
    using assms by (simp add: within_limits_def)
  have "cost_fits b p \<longleftrightarrow> room b (fst p) (snd p)" if "p \<in> set (positive cost)" for p
    using that by (auto simp: cost_fits_def not_exceedI room_def positive_def)
  moreover have "cost_fits b (CounterRequestWork, ?t) \<and> ?t \<le> max_int64 \<longleftrightarrow>
      room b CounterRequestWork ?t"
    using t0 rw by (auto simp: cost_fits_def not_exceedI room_def in_bounds_def max_int64_def)
  ultimately show ?thesis by (auto simp: charge_fits_def)
qed

lemma sorted_cost_perm:
  assumes "mset cost = mset cost'" and "distinct (map fst cost)"
  shows "sorted_cost cost = sorted_cost cost'"
  unfolding sorted_cost_eq
proof (rule sort_key_inj_key_eq)
  show "mset (positive cost) = mset (sort_key fst (positive cost'))"
    using assms(1) by (simp add: positive_def)
  have "inj_on fst (set cost)" using assms(2) by (simp add: distinct_map)
  then show "inj_on fst (set (positive cost))"
    by (rule inj_on_subset) (auto simp: positive_def)
qed simp

lemma chargeLocked_single:
  assumes "within_limits b" and "0 < n"
  shows "\<exists>r b'. chargeLocked b c n True = (r, b') \<and>
    (r = None \<longrightarrow> (\<exists>m. b' = b\<lparr>used := m\<rparr> \<and> (\<forall>d. read m d = charged b [(c, n)] d)))"
proof (cases "charge_fits b [(c, n)]")
  case True
  then show ?thesis using chargeMany_ok [of b "[(c, n)]"] assms by (auto simp: chargeLocked_def)
next
  case False
  from chargeMany_err [OF this] show ?thesis by (auto simp: chargeLocked_def)
qed

section \<open>Properties of the budget\<close>

text \<open>C28: no sequence of calls, in any interleaving, takes a counter past its limit or past
  \<open>int64\<close>, and the limits themselves never change.\<close>

theorem budget_limits_hold:
  assumes "\<forall>p\<in>set ops. op_ok (snd p)"
  shows "\<exists>b. run ops (Some (New l)) = Some b \<and> limits b = l \<and>
    (\<forall>c. 0 \<le> BudgetUsed (Some b) c \<and> BudgetUsed (Some b) c \<le> max_int64 \<and>
      (0 < BudgetLimit (Some b) c \<longrightarrow> BudgetUsed (Some b) c \<le> BudgetLimit (Some b) c))"
proof -
  obtain b where "run ops (Some (New l)) = Some b" "within_limits b" "limits b = limits (New l)"
    using run_within [OF assms within_limits_New] by blast
  then show ?thesis by (auto simp: within_limits_def in_bounds_def New_def)
qed

definition ten_reads :: limits where
  "ten_reads = \<lparr>MaxInputBytes = 0, MaxReadBytes = 10, MaxParseItems = 0, MaxGraphScans = 0,
     MaxGraphEdges = 0, MaxSetElementWork = 0, MaxRequestWork = 15, MaxOutputBytes = 4,
     MaxASTDepth = 2, MaxDiagnostics = 0, MaxArchiveEntries = 0, MaxArchiveEntryBytes = 0,
     MaxArchiveTotalBytes = 0, MaxArchiveDepth = 0, MaxNodeCopies = 0\<rparr>"

theorem budget_limits_hold_witness:
  "\<exists>b. run [(None, OCharge CounterReadBytes 7), (None, OEnter CounterASTDepth),
            (None, OCharge CounterReadBytes 7)] (Some (New ten_reads)) = Some b \<and>
     limits b = ten_reads \<and>
     (\<forall>c. 0 \<le> BudgetUsed (Some b) c \<and> BudgetUsed (Some b) c \<le> max_int64 \<and>
       (0 < BudgetLimit (Some b) c \<longrightarrow> BudgetUsed (Some b) c \<le> BudgetLimit (Some b) c))"
  by (rule budget_limits_hold) simp

text \<open>C29: the first error is sticky: from then on every method but \<open>Leave\<close> returns that very
  error and leaves the budget as it is, and no later sequence of calls moves a counter.\<close>

theorem budget_error_sticky:
  assumes "BudgetErr b = Some e"
  shows "((\<forall>c. op \<noteq> OLeave c) \<longrightarrow> step cx op b = (Some e, b)) \<and>
    BudgetErr (run ops b) = Some e \<and> BudgetUsed (run ops b) = BudgetUsed b"
proof -
  obtain b' where b: "b = Some b'" and e: "err b' = Some e" using assms by (cases b) auto
  from run_sticky [OF e] obtain b'' where
    "run ops b = Some b''" "err b'' = Some e" "used b'' = used b'" unfolding b by blast
  moreover from this have "BudgetUsed (Some b'') = BudgetUsed (Some b')" by (intro ext) simp
  ultimately show ?thesis using step_sticky [OF e] by (simp add: b)
qed

theorem budget_error_sticky_witness:
  "step None (OCharge CounterReadBytes 1)
      (snd (Charge (Some ''canceled'') CounterReadBytes 1 (Some (New ten_reads)))) =
     (Some (cancelled ''canceled''),
      snd (Charge (Some ''canceled'') CounterReadBytes 1 (Some (New ten_reads))))"
  using budget_error_sticky [of "snd (Charge (Some ''canceled'') CounterReadBytes 1 (Some (New ten_reads)))"
      "cancelled ''canceled''" "OCharge CounterReadBytes 1" None "[]"]
  by (simp add: New_def)

text \<open>C27: \<open>ChargeMany\<close> is atomic and exact: it succeeds iff every positive entry and their sum
  (as request work) fit; then every counter grows by its entry and request work by the sum;
  otherwise no counter moves and the error is stored.\<close>

theorem ChargeMany_exact:
  assumes "within_limits b" and "err b = None" and "distinct (map fst cost)"
  shows "\<exists>r b'. ChargeMany None cost (Some b) = (r, Some b') \<and>
    (r = None \<longleftrightarrow> (\<forall>(c, n)\<in>set cost. 0 < n \<longrightarrow> room b c n) \<and>
        room b CounterRequestWork (\<Sum>(c, n)\<leftarrow>cost. max 0 n)) \<and>
    (r = None \<longrightarrow> err b' = None \<and> (\<forall>c. BudgetUsed (Some b') c = BudgetUsed (Some b) c +
        (if c = CounterRequestWork then \<Sum>(c, n)\<leftarrow>cost. max 0 n
         else \<Sum>(d, n)\<leftarrow>cost. if d = c then max 0 n else 0))) \<and>
    (r \<noteq> None \<longrightarrow> b' = b\<lparr>err := r\<rparr>)"
proof -
  have sum: "cost_sum (positive cost) = (\<Sum>(c, n)\<leftarrow>cost. max 0 n)"
    unfolding cost_sum_def positive_def by (induction cost) auto
  have per: "cost_of (positive cost) c = (\<Sum>(d, n)\<leftarrow>cost. if d = c then max 0 n else 0)" for c
    unfolding cost_of_def positive_def by (induction cost) auto
  have fits: "charge_fits b cost \<longleftrightarrow> (\<forall>(c, n)\<in>set cost. 0 < n \<longrightarrow> room b c n) \<and>
      room b CounterRequestWork (\<Sum>(c, n)\<leftarrow>cost. max 0 n)"
    unfolding charge_fits_room [OF assms(1)] sum by (auto simp: positive_def)
  show ?thesis
  proof (cases "charge_fits b cost")
    case True
    then obtain m where m: "chargeManyLocked b cost True = (None, b\<lparr>used := m\<rparr>)"
        "\<forall>c. read m c = charged b cost c" using chargeMany_ok assms by blast
    then show ?thesis using True fits assms(2) by (auto simp: charged_def sum per)
  next
    case False
    then show ?thesis using chargeMany_err [OF False] fits assms(2) by auto
  qed
qed

theorem ChargeMany_exact_witness:
  "\<exists>r b'. ChargeMany None [(CounterReadBytes, 6), (CounterParseItems, 10)] (Some (New ten_reads)) =
      (r, Some b') \<and> r \<noteq> None \<and> b' = (New ten_reads)\<lparr>err := r\<rparr>"
proof -
  have "within_limits (New ten_reads)" and "err (New ten_reads) = None"
    and "distinct (map fst [(CounterReadBytes, 6::int), (CounterParseItems, 10)])"
    by (rule within_limits_New) (simp_all add: New_def counter_defs)
  from ChargeMany_exact [OF this] obtain r b' where
    call: "ChargeMany None [(CounterReadBytes, 6), (CounterParseItems, 10)] (Some (New ten_reads)) =
      (r, Some b')" and
    ok: "r = None \<longrightarrow> room (New ten_reads) CounterRequestWork 16" and
    no: "r \<noteq> None \<longrightarrow> b' = (New ten_reads)\<lparr>err := r\<rparr>"
    by auto
  moreover have "\<not> room (New ten_reads) CounterRequestWork 16"
    by (simp add: room_def New_def ten_reads_def)
  ultimately show ?thesis by blast
qed

text \<open>C39: the outcome of \<open>ChargeMany\<close> does not depend on the order in which the map is
  visited, the reported error included.\<close>

theorem ChargeMany_order:
  assumes "mset cost = mset cost'" and "distinct (map fst cost)"
  shows "ChargeMany cx cost b = ChargeMany cx cost' b"
proof -
  have "chargeManyLocked b' cost True = chargeManyLocked b' cost' True" for b'
    using sorted_cost_perm [OF assms] by (simp add: chargeManyLocked_def)
  then show ?thesis by (cases b) (auto split: prod.splits option.splits)
qed

theorem ChargeMany_order_witness:
  "ChargeMany None [(CounterReadBytes, 60), (CounterParseItems, 70)] (Some (New ten_reads)) =
   ChargeMany None [(CounterParseItems, 70), (CounterReadBytes, 60)] (Some (New ten_reads))"
  by (rule ChargeMany_order) (simp_all add: counter_defs add_mset_commute)

text \<open>\<open>EnsureOutput\<close> is a high-water mark: after it the retained bytes are the maximum of the
  old mark and the argument, request work grew by the difference only, and asking for no more
  than the mark again is free.\<close>

theorem EnsureOutput_high_water:
  assumes "within_limits b" and "tot \<le> max_int64"
    and "EnsureOutput None tot (Some b) = (None, Some b')"
  shows "BudgetUsed (Some b') CounterOutputBytes = max (BudgetUsed (Some b) CounterOutputBytes) tot \<and>
    BudgetUsed (Some b') CounterRequestWork = BudgetUsed (Some b) CounterRequestWork +
      (BudgetUsed (Some b') CounterOutputBytes - BudgetUsed (Some b) CounterOutputBytes) \<and>
    EnsureOutput None (BudgetUsed (Some b') CounterOutputBytes) (Some b') = (None, Some b')"
proof -
  let ?u = "read (used b) CounterOutputBytes"
  have clear: "err b = None" using assms(3) by (cases "err b") auto
  have u: "0 \<le> ?u" using assms(1) by (simp add: within_limits_def in_bounds_def)
  have names: "CounterOutputBytes \<noteq> CounterRequestWork" by (simp add: counter_defs)
  show ?thesis
  proof (cases "tot \<le> ?u")
    case True
    then have "b' = b" using assms(3) clear u by (auto simp: Let_def split: if_splits)
    then show ?thesis using True u clear by simp
  next
    case False
    then have w: "wrap64 (tot - ?u) = tot - ?u"
      using u assms(2) by (intro wrap64_id) (simp add: int64_range_def min_int64_def)
    have "chargeLocked b CounterOutputBytes (tot - ?u) True = (None, b')"
      using assms(3) clear False u w
      by (cases "chargeLocked b CounterOutputBytes (tot - ?u) True")
        (auto simp: Let_def split: if_splits)
    then obtain m where b': "b' = b\<lparr>used := m\<rparr>"
        and m: "\<forall>d. read m d = charged b [(CounterOutputBytes, tot - ?u)] d"
      using chargeLocked_single [OF assms(1), of "tot - ?u" CounterOutputBytes] False by auto
    have "read m CounterOutputBytes = tot \<and>
        read m CounterRequestWork = read (used b) CounterRequestWork + (tot - ?u)"
      using m False names by (simp add: charged_def positive_def cost_of_def cost_sum_def)
    then show ?thesis using b' False clear u by simp
  qed
qed

theorem EnsureOutput_high_water_witness:
  "\<exists>b'. EnsureOutput None 3 (Some (New ten_reads)) = (None, Some b') \<and>
    BudgetUsed (Some b') CounterOutputBytes = 3"
proof -
  have "EnsureOutput None 3 (Some (New ten_reads)) =
      (None, Some ((New ten_reads)\<lparr>used := [CounterOutputBytes \<mapsto> 3, CounterRequestWork \<mapsto> 3]\<rparr>))"
    by (simp add: New_def ten_reads_def chargeLocked_def chargeManyLocked_def sorted_cost_def Let_def
        overflowOrExceed_def max_int64_def wrap64_def)
  from EnsureOutput_high_water [OF within_limits_New _ this] this show ?thesis
    by (auto simp: max_int64_def New_def)
qed

text \<open>C40: the bounded writer appends a string iff nothing failed before, the string fits the
  intermediate cap, and the size it would hold (the bytes held elsewhere included) is an
  \<open>int64\<close> within the output cap; otherwise the buffer stays and the budget holds the error.\<close>

theorem WriteString_bounded:
  assumes "work w = Some b" and "err b = None" and "0 \<le> base w"
  shows "\<exists>r b'. WriteString None s (Some w) =
      (r, Some (w\<lparr>work := Some b', buf := (if r = None then buf w @ s else buf w)\<rparr>)) \<and>
    err b' = r \<and>
    (r = None \<longleftrightarrow>
      (s = [] \<or> int (length s) \<le> max_int64 \<and>
         (0 < intermediateLimit (limits b) \<longrightarrow> int (length s) \<le> intermediateLimit (limits b))) \<and>
      base w + int (length (buf w @ s)) \<le> max_int64 \<and>
      (0 < MaxOutputBytes (limits b) \<longrightarrow>
         base w + int (length (buf w @ s)) \<le> MaxOutputBytes (limits b)))"
proof -
  let ?n = "int (length s)" and ?len = "int (length (buf w))"
  let ?alloc = "s = [] \<or> ?n \<le> max_int64 \<and>
    (0 < intermediateLimit (limits b) \<longrightarrow> ?n \<le> intermediateLimit (limits b))"
  obtain r1 b1 where alloc: "CheckAlloc None ?n (Some b) = (r1, Some b1)"
      and a: "r1 = None \<longleftrightarrow> ?alloc" "err b1 = r1" "limits b1 = limits b"
    using assms(2)
    by (cases "?n \<le> 0"; cases "overflowOrExceed 0 ?n (intermediateLimit (limits b))")
      (auto simp: Let_def set_err_def exceed_iff)
  show ?thesis
  proof (cases r1)
    case (Some e)
    then show ?thesis using alloc a assms(1) by (auto simp: Let_def)
  next
    case None
    then have al: "?alloc" and e1: "err b1 = None" using a by auto
    let ?fit = "base w + ?len + ?n \<le> max_int64"
    have over: "(?len > max_int64 - base w \<or> ?n > wrap64 (max_int64 - base w - ?len)) = (\<not> ?fit)"
    proof (cases "?len > max_int64 - base w")
      case False
      then have "wrap64 (max_int64 - base w - ?len) = max_int64 - base w - ?len"
        using assms(3) by (intro wrap64_id) (simp add: int64_range_def min_int64_def)
      then show ?thesis by linarith
    qed simp
    have out: "\<exists>r b'. CheckOutput None (base w + ?len + ?n) (Some b1) = (r, Some b') \<and> err b' = r \<and>
      (r = None \<longleftrightarrow> ?fit \<and> (0 < MaxOutputBytes (limits b) \<longrightarrow>
         base w + ?len + ?n \<le> MaxOutputBytes (limits b)))"
      if ?fit
      using that assms(3) e1 a(3)
      by (cases "overflowOrExceed 0 (base w + ?len + ?n) (MaxOutputBytes (limits b1))")
        (auto simp: Let_def set_err_def exceed_iff)
    show ?thesis
    proof (cases ?fit)
      case True
      then have w64: "wrap64 (base w + ?len + ?n) = base w + ?len + ?n"
        using assms(3) by (intro wrap64_id) (simp add: int64_range_def min_int64_def)
      have no: "\<not> (?len > max_int64 - base w \<or> ?n > wrap64 (max_int64 - base w - ?len))"
        using over True by blast
      obtain r b' where "CheckOutput None (base w + ?len + ?n) (Some b1) = (r, Some b')" "err b' = r"
          "r = None \<longleftrightarrow> ?fit \<and> (0 < MaxOutputBytes (limits b) \<longrightarrow>
             base w + ?len + ?n \<le> MaxOutputBytes (limits b))"
        using out [OF True] by (elim exE conjE)
      moreover from this have "WriteString None s (Some w) =
          (r, Some (w\<lparr>work := Some b', buf := (if r = None then buf w @ s else buf w)\<rparr>))"
        using alloc None no assms(1) w64
        by (cases r) (simp_all add: Let_def del: CheckOutput.simps CheckAlloc.simps)
      ultimately show ?thesis using al True
        by (intro exI [of _ r] exI [of _ b']) (simp add: add.assoc)
    next
      case False
      then have "?len > max_int64 - base w \<or> ?n > wrap64 (max_int64 - base w - ?len)"
        using over by blast
      then show ?thesis using alloc None assms(1) e1 False
        by (intro exI [of _ "Some (output_overflow (MaxOutputBytes (limits b1)))"]
            exI [of _ "b1\<lparr>err := Some (output_overflow (MaxOutputBytes (limits b1)))\<rparr>"])
          (simp add: Let_def del: CheckOutput.simps CheckAlloc.simps)
    qed
  qed
qed

theorem WriteString_bounded_witness:
  "\<exists>r b'. WriteString None ''abc'' (Some ((NewWriter (Some (New ten_reads)))\<lparr>base := 2\<rparr>)) =
      (r, Some \<lparr>buf = [], work = Some b', base = 2\<rparr>) \<and> err b' = r \<and> r \<noteq> None"
  using WriteString_bounded [of "(NewWriter (Some (New ten_reads)))\<lparr>base := 2\<rparr>" "New ten_reads" "''abc''"]
  by (auto simp: NewWriter_def New_def ten_reads_def simp del: WriteString.simps)

text \<open>An allocation size is computed exactly or rejected: \<open>CheckedProduct\<close> succeeds iff both
  factors are nonnegative and their product is an \<open>int64\<close>, and then it is that product.\<close>

theorem CheckedProduct_exact:
  "CheckedProduct cnt width = Inr p \<longleftrightarrow>
     0 \<le> cnt \<and> 0 \<le> width \<and> p = cnt * width \<and> p \<le> max_int64"
proof (cases "0 \<le> cnt \<and> 0 < width")
  case True
  have iff: "cnt \<le> max_int64 div width \<longleftrightarrow> cnt * width \<le> max_int64"
  proof
    assume "cnt \<le> max_int64 div width"
    then have "cnt * width \<le> max_int64 div width * width" using True by (simp add: mult_right_mono)
    also have "\<dots> \<le> max_int64"
      using True div_mult_mod_eq [of max_int64 width] pos_mod_sign [of width max_int64] by linarith
    finally show "cnt * width \<le> max_int64" .
  next
    assume "cnt * width \<le> max_int64"
    then have "cnt * width div width \<le> max_int64 div width" using True by (intro zdiv_mono1) auto
    then show "cnt \<le> max_int64 div width" using True by simp
  qed
  moreover have "wrap64 (cnt * width) = cnt * width" if "cnt * width \<le> max_int64"
    using that True by (intro wrap64_id) (simp add: int64_range_def min_int64_def order_trans [of _ 0])
  ultimately show ?thesis using True by (auto simp: CheckedProduct_def not_less)
next
  case False
  then show ?thesis by (auto simp: CheckedProduct_def wrap64_def max_int64_def)
qed

text \<open>\<open>Limits.Validate\<close> accepts exactly the limits none of which is negative, which is what
  every counter's limit is then.\<close>

theorem Validate_limits_nonneg:
  "Validate_limits l = None \<longleftrightarrow> (\<forall>c. 0 \<le> limitFor l c)"
proof
  assume "Validate_limits l = None"
  then have "\<forall>p\<in>set (limit_fields l). 0 \<le> snd p"
    unfolding Validate_limits_def by (rule first_negative_None)
  moreover have "limitFor l c = 0 \<or> limitFor l c \<in> snd ` set (limit_fields l)" for c
    by (simp add: limitFor_def limit_fields_def)
  ultimately show "\<forall>c. 0 \<le> limitFor l c" by force
next
  assume l: "\<forall>c. 0 \<le> limitFor l c"
  have "\<forall>c \<in> set gauges. 0 \<le> limitFor l c" using l by blast
  then show "Validate_limits l = None"
    unfolding gauges_def by (simp add: Validate_limits_def limit_fields_def limitFor_named limitFor_rest)
qed

end
