(* ===== verification/FrameTypes.thy ===== *)
theory FrameTypes
  imports Prelude
begin

text \<open>
  The verification types of \<open>core/frametransfer/frame.go\<close> and the errors of \<open>errors.go\<close>.
  The Go constants \<open>Top, Int, \<dots>\<close> carry a \<open>K\<close> here, and the fields \<open>Int\<close> and \<open>Long\<close> of
  \<open>Type\<close> are \<open>IntV\<close> and \<open>LongV\<close>; an error keeps its kind, position and format
  string and drops the rendered arguments.
\<close>

section \<open>Errors\<close>

datatype KindErr = InvalidInput | Unsupported | InconsistentSMT

record ferror =
  EKind :: KindErr
  EPC :: u16
  EOp :: int
  EMsg :: string

definition invalidf :: "string \<Rightarrow> ferror" where
  "invalidf msg = \<lparr>EKind = InvalidInput, EPC = 0, EOp = 0, EMsg = msg\<rparr>"

definition unsupportedf :: "string \<Rightarrow> ferror" where
  "unsupportedf msg = \<lparr>EKind = Unsupported, EPC = 0, EOp = 0, EMsg = msg\<rparr>"

definition smtf :: "string \<Rightarrow> ferror" where
  "smtf msg = \<lparr>EKind = InconsistentSMT, EPC = 0, EOp = 0, EMsg = msg\<rparr>"

definition IsInvalid :: "ferror \<Rightarrow> bool" where
  "IsInvalid e \<longleftrightarrow> EKind e = InvalidInput"

definition IsUnsupported :: "ferror \<Rightarrow> bool" where
  "IsUnsupported e \<longleftrightarrow> EKind e = Unsupported"

section \<open>Kinds and types\<close>

datatype kind =
    TopK | IntK | FloatK | LongK | DoubleK | LongTailK | DoubleTailK
  | RefK | NullK | UninitThisK | UninitNewK

text \<open>The number that \<open>iota\<close> gives a kind; the code compares kinds by it.\<close>

fun kind_no :: "kind \<Rightarrow> nat" where
  "kind_no TopK = 0" | "kind_no IntK = 1" | "kind_no FloatK = 2" | "kind_no LongK = 3"
| "kind_no DoubleK = 4" | "kind_no LongTailK = 5" | "kind_no DoubleTailK = 6" | "kind_no RefK = 7"
| "kind_no NullK = 8" | "kind_no UninitThisK = 9" | "kind_no UninitNewK = 10"

definition IsTail :: "kind \<Rightarrow> bool" where
  "IsTail k \<longleftrightarrow> k = LongTailK \<or> k = DoubleTailK"

definition IsCat2Head :: "kind \<Rightarrow> bool" where
  "IsCat2Head k \<longleftrightarrow> k = LongK \<or> k = DoubleK"

definition Category :: "kind \<Rightarrow> int" where
  "Category k =
     (if k = LongK \<or> k = DoubleK then 2
      else if k = LongTailK \<or> k = DoubleTailK \<or> k = TopK then 0
      else 1)"

record ftype =
  Kind :: kind
  Class :: string
  NewPC :: u16
  HasBits :: bool
  Bits :: u64
  HasInt :: bool
  IntV :: u32
  HasLong :: bool
  LongV :: u64

definition T :: "kind \<Rightarrow> ftype" where
  "T k = \<lparr>Kind = k, Class = [], NewPC = 0, HasBits = False, Bits = 0, HasInt = False, IntV = 0,
          HasLong = False, LongV = 0\<rparr>"

definition RefOf :: "string \<Rightarrow> ftype" where
  "RefOf class = (T RefK)\<lparr>Class := class\<rparr>"

definition UninitAt :: "u16 \<Rightarrow> ftype" where
  "UninitAt pc = (T UninitNewK)\<lparr>NewPC := pc\<rparr>"

definition IntConst :: "u32 \<Rightarrow> ftype" where
  "IntConst v = (T IntK)\<lparr>HasInt := True, IntV := v\<rparr>"

definition LongConst :: "u64 \<Rightarrow> ftype" where
  "LongConst v = (T LongK)\<lparr>HasLong := True, LongV := v\<rparr>"

definition FloatBits :: "u32 \<Rightarrow> ftype" where
  "FloatBits bits = (T FloatK)\<lparr>HasBits := True, Bits := ucast bits\<rparr>"

definition DoubleBits :: "u64 \<Rightarrow> ftype" where
  "DoubleBits bits = (T DoubleK)\<lparr>HasBits := True, Bits := bits\<rparr>"

definition TailOf :: "ftype \<Rightarrow> ftype" where
  "TailOf h =
     (case Kind h of LongK \<Rightarrow> T LongTailK | DoubleK \<Rightarrow> T DoubleTailK | _ \<Rightarrow> T TopK)"

definition TypeEqual :: "ftype \<Rightarrow> ftype \<Rightarrow> bool" where
  "TypeEqual t o' =
     (if Kind t \<noteq> Kind o' \<or> Class t \<noteq> Class o' \<or> NewPC t \<noteq> NewPC o' then False
      else if HasBits t \<noteq> HasBits o' \<or> HasBits t \<and> Bits t \<noteq> Bits o' then False
      else if HasInt t \<noteq> HasInt o' \<or> HasInt t \<and> IntV t \<noteq> IntV o' then False
      else if HasLong t \<noteq> HasLong o' \<or> HasLong t \<and> LongV t \<noteq> LongV o' then False
      else True)"

definition SameLattice :: "ftype \<Rightarrow> ftype \<Rightarrow> bool" where
  "SameLattice t o' =
     (if Kind t \<noteq> Kind o' then False
      else if Kind t = UninitNewK then NewPC t = NewPC o'
      else if Kind t = RefK then Class t = Class o'
      else True)"

definition TypeWidth :: "ftype \<Rightarrow> nat" where
  "TypeWidth t =
     (if IsCat2Head (Kind t) then 2 else if IsTail (Kind t) then 0
      else if Kind t = TopK then 1 else 1)"

definition Computational :: "ftype \<Rightarrow> bool" where
  "Computational t \<longleftrightarrow> kind_no (Kind t) \<ge> kind_no IntK \<and> kind_no (Kind t) \<le> kind_no UninitNewK \<and>
     \<not> IsTail (Kind t)"

definition DropValue :: "ftype \<Rightarrow> ftype" where
  "DropValue t = t\<lparr>HasBits := False, Bits := 0, HasInt := False, IntV := 0,
                   HasLong := False, LongV := 0\<rparr>"

definition referenceLike :: "ftype \<Rightarrow> bool \<Rightarrow> bool" where
  "referenceLike t allowUninit \<longleftrightarrow> Kind t = RefK \<or> Kind t = NullK \<or>
     allowUninit \<and> (Kind t = UninitThisK \<or> Kind t = UninitNewK)"

definition sameUninitialized :: "ftype \<Rightarrow> ftype \<Rightarrow> bool" where
  "sameUninitialized t site \<longleftrightarrow> Kind site = UninitThisK \<and> Kind t = UninitThisK \<or>
     Kind site = UninitNewK \<and> Kind t = UninitNewK \<and> NewPC t = NewPC site"

section \<open>Facts about kinds\<close>

lemma Computational_iff: "Computational t \<longleftrightarrow> Kind t \<noteq> TopK \<and> \<not> IsTail (Kind t)"
  by (cases "Kind t") (simp_all add: Computational_def IsTail_def)

lemma Category_iff:
  "Category (Kind t) = 2 \<longleftrightarrow> IsCat2Head (Kind t)"
  "Category (Kind t) = 0 \<longleftrightarrow> \<not> Computational t"
  by (cases "Kind t"; simp add: Category_def IsCat2Head_def Computational_def IsTail_def)+

lemma Kind_simps [simp]:
  "Kind (T k) = k" "Kind (RefOf c) = RefK" "Kind (UninitAt pc) = UninitNewK"
  "Kind (IntConst i) = IntK" "Kind (LongConst l) = LongK" "Kind (FloatBits b) = FloatK"
  "Kind (DoubleBits d) = DoubleK" "Kind (DropValue t) = Kind t"
  by (simp_all add: T_def RefOf_def UninitAt_def IntConst_def LongConst_def FloatBits_def
      DoubleBits_def DropValue_def)

lemma cat2_computational: "IsCat2Head (Kind t) \<Longrightarrow> Computational t"
  by (auto simp: IsCat2Head_def Computational_iff IsTail_def)

lemma cat2_not_tail: "IsCat2Head k \<Longrightarrow> \<not> IsTail k"
  by (auto simp: IsCat2Head_def IsTail_def)

lemma TailOf_cat2:
  "IsCat2Head (Kind t) \<Longrightarrow> IsTail (Kind (TailOf t)) \<and> \<not> Computational (TailOf t)"
  by (auto simp: IsCat2Head_def TailOf_def IsTail_def Computational_iff)

lemma TypeEqual_refl [simp]: "TypeEqual t t"
  by (simp add: TypeEqual_def)

lemma TypeEqual_sym: "TypeEqual t u \<longleftrightarrow> TypeEqual u t"
  by (auto simp: TypeEqual_def)

lemma TypeEqual_trans: "TypeEqual t u \<Longrightarrow> TypeEqual u v \<Longrightarrow> TypeEqual t v"
  by (auto simp: TypeEqual_def split: if_splits)

lemma TypeEqual_Kind: "TypeEqual t u \<Longrightarrow> Kind t = Kind u"
  by (auto simp: TypeEqual_def split: if_splits)

lemma TypeEqual_TailOf: "Kind t = Kind u \<Longrightarrow> TypeEqual x (TailOf t) \<longleftrightarrow> TypeEqual x (TailOf u)"
  by (simp add: TailOf_def)

lemma TailOf_cong: "Kind t = Kind u \<Longrightarrow> TailOf t = TailOf u"
  by (simp add: TailOf_def)

section \<open>The join of two types\<close>

text \<open>The constants that both sides agree on, on the kind of the first.\<close>

definition keep_consts :: "ftype \<Rightarrow> ftype \<Rightarrow> ftype" where
  "keep_consts a b =
     (let out = DropValue a;
          out = (if HasBits a \<and> HasBits b \<and> Bits a = Bits b
                 then out\<lparr>HasBits := True, Bits := Bits a\<rparr> else out);
          out = (if HasInt a \<and> HasInt b \<and> IntV a = IntV b
                 then out\<lparr>HasInt := True, IntV := IntV a\<rparr> else out);
          out = (if HasLong a \<and> HasLong b \<and> LongV a = LongV b
                 then out\<lparr>HasLong := True, LongV := LongV a\<rparr> else out)
      in out)"

lemma Kind_keep_consts [simp]: "Kind (keep_consts a b) = Kind a"
  by (simp add: keep_consts_def Let_def)

definition JoinTypes :: "ftype \<Rightarrow> ftype \<Rightarrow> ftype option" where
  "JoinTypes a b =
     (if Kind a = TopK then Some (T TopK)
      else if Kind b = TopK then Some (T TopK)
      else if IsTail (Kind a) \<or> IsTail (Kind b) then
        (if Kind a = Kind b then Some (DropValue a) else None)
      else if TypeWidth a \<noteq> TypeWidth b then None
      else if Kind a = NullK \<and> (Kind b = RefK \<or> Kind b = NullK) then Some (DropValue b)
      else if Kind b = NullK \<and> Kind a = RefK then Some (DropValue a)
      else if Kind a = UninitNewK \<and> Kind b = UninitNewK \<and> NewPC a = NewPC b then
        (if Class a \<noteq> Class b then None else Some (DropValue a))
      else if Kind a = UninitThisK \<and> Kind b = UninitThisK then Some (T UninitThisK)
      else if Kind a = RefK \<and> Kind b = RefK then
        (if Class a = Class b then Some (RefOf (Class a)) else Some (RefOf ''java/lang/Object''))
      else if Kind a = Kind b \<and> Kind a \<noteq> UninitNewK \<and> Kind a \<noteq> UninitThisK then
        Some (keep_consts a b)
      else if TypeWidth a = TypeWidth b then Some (T TopK)
      else None)"

lemma JoinTypes_kinds:
  assumes "JoinTypes a b = Some j" and "Computational j"
  shows "Computational a \<and> Computational b \<and>
    (IsCat2Head (Kind a) \<longleftrightarrow> IsCat2Head (Kind j)) \<and> (IsCat2Head (Kind b) \<longleftrightarrow> IsCat2Head (Kind j)) \<and>
    (IsCat2Head (Kind j) \<longrightarrow> Kind a = Kind j \<and> Kind b = Kind j)"
  using assms
  by (cases "Kind a"; cases "Kind b")
    (auto simp: JoinTypes_def TypeWidth_def IsTail_def IsCat2Head_def Computational_iff
      split: if_splits)

section \<open>Canonical types and the order of the join\<close>

text \<open>
  A canonical type carries only the payload of its kind, as every constructor of \<open>frame.go\<close>
  makes it. On these \<open>TypeEqual\<close> is equality and the join is a proper upper bound.
\<close>

definition canonical :: "ftype \<Rightarrow> bool" where
  "canonical t \<longleftrightarrow>
     (Kind t = RefK \<or> Kind t = UninitNewK \<or> Class t = []) \<and>
     (Kind t = UninitNewK \<or> NewPC t = 0) \<and>
     (if HasBits t then Kind t = FloatK \<or> Kind t = DoubleK else Bits t = 0) \<and>
     (if HasInt t then Kind t = IntK else IntV t = 0) \<and>
     (if HasLong t then Kind t = LongK else LongV t = 0)"

lemma canonical_constructors [simp]:
  "canonical (T k)" "canonical (RefOf c)" "canonical (UninitAt pc)" "canonical (IntConst i)"
  "canonical (LongConst l)" "canonical (FloatBits b)" "canonical (DoubleBits d)"
  by (simp_all add: canonical_def T_def RefOf_def UninitAt_def IntConst_def LongConst_def
      FloatBits_def DoubleBits_def)

lemma canonical_TailOf [simp]: "canonical (TailOf t)"
  by (cases "Kind t") (simp_all add: TailOf_def)

lemma canonical_equal: "canonical t \<Longrightarrow> canonical u \<Longrightarrow> TypeEqual t u \<longleftrightarrow> t = u"
  by (cases t; cases u) (auto simp: canonical_def TypeEqual_def split: if_splits)

text \<open>How far a type is from being forgotten.\<close>

fun height :: "ftype \<Rightarrow> nat" where
  "height t =
     (case Kind t of
        TopK \<Rightarrow> 0
      | NullK \<Rightarrow> 3
      | RefK \<Rightarrow> if Class t = ''java/lang/Object'' then 1 else 2
      | IntK \<Rightarrow> if HasInt t then 2 else 1
      | LongK \<Rightarrow> if HasLong t then 2 else 1
      | FloatK \<Rightarrow> if HasBits t then 2 else 1
      | DoubleK \<Rightarrow> if HasBits t then 2 else 1
      | _ \<Rightarrow> 1)"

declare height.simps [simp del]

lemma height_le: "height t \<le> 3"
  by (simp add: height.simps split: kind.splits)

lemmas join_defs = JoinTypes_def keep_consts_def canonical_def T_def RefOf_def DropValue_def IsTail_def
  IsCat2Head_def TypeWidth_def

lemma JoinTypes_cases:
  assumes "canonical a" and "canonical b"
  shows "JoinTypes a b =
    (if Kind a = TopK \<or> Kind b = TopK then Some (T TopK)
     else if a = b then Some a
     else if IsTail (Kind a) \<or> IsTail (Kind b) \<or> IsCat2Head (Kind a) \<noteq> IsCat2Head (Kind b) then None
     else if Kind a = NullK \<and> Kind b = RefK then Some b
     else if Kind b = NullK \<and> Kind a = RefK then Some a
     else if Kind a = UninitNewK \<and> Kind b = UninitNewK \<and> NewPC a = NewPC b then None
     else if Kind a = RefK \<and> Kind b = RefK then Some (RefOf ''java/lang/Object'')
     else if Kind a = Kind b \<and> Kind a \<noteq> UninitNewK then Some (T (Kind a))
     else Some (T TopK))"
  using assms
  by (cases a; cases b; cases "Kind a"; cases "Kind b") (auto simp: join_defs Let_def split: if_splits)

lemma canonical_bare:
  "canonical a \<Longrightarrow> Kind a = NullK \<or> Kind a = UninitThisK \<or> Kind a = TopK \<or> IsTail (Kind a) \<Longrightarrow>
     a = T (Kind a)"
  by (cases a) (auto simp: canonical_def T_def IsTail_def split: if_splits)

lemma JoinTypes_Top [simp]: "JoinTypes (T TopK) b = Some (T TopK)"
  by (simp add: JoinTypes_def)

lemma JoinTypes_descends:
  assumes "canonical a" and "canonical b" and "JoinTypes a b = Some c"
  shows "canonical c \<and> (c = a \<or> height c < height a)"
proof -
  note eq = canonical_bare [OF assms(1)]
  have const: "a = T (Kind a) \<or> height (T (Kind a)) < height a" if "Kind a \<noteq> RefK" "Kind a \<noteq> UninitNewK"
    using assms(1) that
    by (cases a; cases "Kind a") (auto simp: canonical_def T_def height.simps split: if_splits)
  have top: "height (T TopK) < height a" if "Kind a \<noteq> TopK"
    using that by (cases "Kind a") (simp_all add: height.simps)
  have obj: "a = RefOf ''java/lang/Object'' \<or> height (RefOf ''java/lang/Object'') < height a"
    if "Kind a = RefK"
    using that assms(1) by (cases a) (auto simp: canonical_def height.simps RefOf_def T_def split: if_splits)
  have ref: "height b < height a" if "Kind a = NullK" "Kind b = RefK"
    using that by (simp add: height.simps)
  show ?thesis
  proof (cases "Kind a = TopK")
    case True
    then have "a = T TopK" using eq by auto
    then show ?thesis using assms(3) by auto
  next
    case False
    then show ?thesis
      using assms(3) eq const top [OF False] obj ref assms(1,2)
      unfolding JoinTypes_cases [OF assms(1,2)]
      by (auto split: if_splits)
  qed
qed

lemma JoinTypes_idem: "canonical a \<Longrightarrow> Kind a \<noteq> TopK \<Longrightarrow> JoinTypes a a = Some a"
  by (simp add: JoinTypes_cases)

lemma JoinTypes_absorbs:
  assumes "canonical a" and "canonical b" and "JoinTypes a b = Some c"
  shows "JoinTypes c a = Some c \<and> JoinTypes c b = Some c"
proof -
  have self: "JoinTypes x x = Some x" if "canonical x" for x
  proof (cases "Kind x = TopK")
    case True
    then have "x = T TopK" using canonical_bare [OF that] by auto
    then show ?thesis by simp
  qed (use JoinTypes_idem [OF that] in simp)
  note J = assms(3) [unfolded JoinTypes_cases [OF assms(1,2)]]
  have "c = T TopK \<or> a = b \<and> c = a \<or> Kind a = NullK \<and> Kind b = RefK \<and> c = b \<or>
    Kind b = NullK \<and> Kind a = RefK \<and> c = a \<or>
    Kind a = RefK \<and> Kind b = RefK \<and> c = RefOf ''java/lang/Object'' \<or>
    Kind a = Kind b \<and> Kind a \<noteq> TopK \<and> Kind a \<noteq> UninitNewK \<and> Kind a \<noteq> RefK \<and>
      \<not> IsTail (Kind a) \<and> c = T (Kind a)"
  proof (cases "Kind a = TopK \<or> Kind b = TopK \<or> a = b")
    case True
    then show ?thesis using J by (cases "Kind a = TopK \<or> Kind b = TopK") simp_all
  next
    case False
    then show ?thesis using J
      by (cases "Kind a = NullK \<and> Kind b = RefK"; cases "Kind b = NullK \<and> Kind a = RefK";
          cases "Kind a = RefK \<and> Kind b = RefK") (simp_all split: if_splits)
  qed
  then consider "c = T TopK" | "a = b" "c = a" | "Kind a = NullK" "Kind b = RefK" "c = b"
    | "Kind b = NullK" "Kind a = RefK" "c = a"
    | "Kind a = RefK" "Kind b = RefK" "c = RefOf ''java/lang/Object''"
    | "Kind a = Kind b" "Kind a \<noteq> TopK" "Kind a \<noteq> UninitNewK" "Kind a \<noteq> RefK"
      "\<not> IsTail (Kind a)" "c = T (Kind a)"
    by argo
  then show ?thesis
  proof cases
    case 1 then show ?thesis by simp
  next
    case 2 then show ?thesis using self assms by simp
  next
    case 3 then show ?thesis using self assms JoinTypes_cases [of b a] by (auto simp: IsTail_def IsCat2Head_def)
  next
    case 4 then show ?thesis using self assms JoinTypes_cases [of a b] by (auto simp: IsTail_def IsCat2Head_def)
  next
    case 5
    then have "JoinTypes c x = Some c" if "canonical x" "Kind x = RefK" for x
      using that JoinTypes_cases [of c x] by (auto simp: IsTail_def IsCat2Head_def)
    then show ?thesis using 5 assms by simp
  next
    case 6
    then have "JoinTypes c x = Some c" if "canonical x" "Kind x = Kind a" for x
      using that JoinTypes_cases [of c x] by simp
    then show ?thesis using 6 assms by simp
  qed
qed

lemma JoinTypes_commute:
  "canonical a \<Longrightarrow> canonical b \<Longrightarrow> JoinTypes a b = JoinTypes b a"
  by (auto simp: JoinTypes_cases)

end
