(* ===== verification/Frame.thy ===== *)
theory Frame
  imports FrameTypes
begin

text \<open>
  The frame of \<open>core/frametransfer/frame.go\<close> and its operations. Locals and stack are lists
  (the stack from the bottom); a long or double takes two slots, its head and its tail. A method
  on \<open>*Frame\<close> is an action: a function from the frame to an error or a result and the new frame.
  The frame that an erring method leaves behind is dropped, as every caller in the code does.
\<close>

section \<open>Frames\<close>

record frame =
  Locals :: "ftype list"
  Stack :: "ftype list"
  maxStack :: int
  hasLimits :: bool
  ThisUninitialized :: bool
  ThisClass :: string
  DirectSuperClass :: string

definition maxSlots :: int where
  "maxSlots = 65535"

definition NewFrame :: "int \<Rightarrow> frame" where
  "NewFrame nLocals =
     (let nLocals = (if nLocals < 0 then 0 else nLocals) in
      \<lparr>Locals = replicate (nat nLocals) (T TopK), Stack = [], maxStack = 0, hasLimits = False,
       ThisUninitialized = False, ThisClass = [], DirectSuperClass = []\<rparr>)"

definition NewFrameWithLimits :: "int \<Rightarrow> int \<Rightarrow> ferror + frame" where
  "NewFrameWithLimits maxLocals maxStk =
     (if maxLocals < 0 \<or> maxLocals > maxSlots \<or> maxStk < 0 \<or> maxStk > maxSlots
      then Inl (invalidf ''invalid frame limits %d/%d'')
      else Inr ((NewFrame maxLocals)\<lparr>maxStack := maxStk, hasLimits := True\<rparr>))"

definition stackLimit :: "frame \<Rightarrow> int" where
  "stackLimit f = (if hasLimits f then maxStack f else maxSlots)"

definition slen :: "'a list \<Rightarrow> int" where
  "slen xs = int (length xs)"

definition FrameEqual :: "frame \<Rightarrow> frame \<Rightarrow> bool" where
  "FrameEqual f o' =
     (if length (Locals f) \<noteq> length (Locals o') \<or> length (Stack f) \<noteq> length (Stack o') \<or>
         stackLimit f \<noteq> stackLimit o' \<or> ThisUninitialized f \<noteq> ThisUninitialized o' \<or>
         ThisClass f \<noteq> ThisClass o' \<or> DirectSuperClass f \<noteq> DirectSuperClass o'
      then False
      else list_all2 TypeEqual (Locals f) (Locals o') \<and> list_all2 TypeEqual (Stack f) (Stack o'))"

section \<open>Validation\<close>

text \<open>The slots of one part of the frame: \<open>lcl\<close> for the locals, where a dead slot is allowed.\<close>

fun validate_slots :: "bool \<Rightarrow> ftype list \<Rightarrow> ferror + unit" where
  "validate_slots lcl [] = Inr ()"
| "validate_slots lcl (t # ts) =
     (if lcl \<and> Kind t = TopK then validate_slots lcl ts
      else if \<not> Computational t then Inl (invalidf ''non-computational slot %d: %s'')
      else if IsCat2Head (Kind t) then
        (case ts of
           [] \<Rightarrow> Inl (invalidf ''mismatched category-2 slot %d'')
         | u # us \<Rightarrow>
             if \<not> TypeEqual u (TailOf t) then Inl (invalidf ''mismatched category-2 slot %d'')
             else validate_slots lcl us)
      else validate_slots lcl ts)"

definition Validate :: "frame \<Rightarrow> ferror + unit" where
  "Validate f =
     (if slen (Locals f) > maxSlots \<or> slen (Stack f) > stackLimit f
      then Inl (invalidf ''frame bounds exceeded'')
      else res_bind (validate_slots True (Locals f)) (\<lambda>_. validate_slots False (Stack f)))"

section \<open>Actions\<close>

type_synonym 'a action = "frame \<Rightarrow> ferror + ('a \<times> frame)"

definition ret :: "'a \<Rightarrow> 'a action" where
  "ret a f = Inr (a, f)"

definition fail :: "ferror \<Rightarrow> 'a action" where
  "fail e f = Inl e"

definition bind_act :: "'a action \<Rightarrow> ('a \<Rightarrow> 'b action) \<Rightarrow> 'b action" where
  "bind_act m k f = (case m f of Inl e \<Rightarrow> Inl e | Inr (a, f') \<Rightarrow> k a f')"

definition then_act :: "'a action \<Rightarrow> 'b action \<Rightarrow> 'b action" where
  "then_act m k = bind_act m (\<lambda>_. k)"

definition lift_res :: "ferror + 'a \<Rightarrow> 'a action" where
  "lift_res r f = (case r of Inl e \<Rightarrow> Inl e | Inr a \<Rightarrow> Inr (a, f))"

definition with_frame :: "(frame \<Rightarrow> 'a action) \<Rightarrow> 'a action" where
  "with_frame g f = g f f"

lemma act_simps:
  "ret a f = Inr (a, f)" "fail e f = Inl e" "with_frame g f = g f f"
  by (simp_all add: ret_def fail_def with_frame_def)

lemma bind_act_Inr:
  "bind_act m k f = Inr r \<longleftrightarrow> (\<exists>a f'. m f = Inr (a, f') \<and> k a f' = Inr r)"
  by (auto simp: bind_act_def split: sum.splits)

lemma then_act_Inr:
  "then_act m k f = Inr r \<longleftrightarrow> (\<exists>a f'. m f = Inr (a, f') \<and> k f' = Inr r)"
  by (auto simp: then_act_def bind_act_Inr)

lemma lift_res_Inr: "lift_res r f = Inr (a, f') \<longleftrightarrow> r = Inr a \<and> f' = f"
  by (auto simp: lift_res_def split: sum.splits)

section \<open>Locals\<close>

definition ensureLocal :: "int \<Rightarrow> unit action" where
  "ensureLocal idx f =
     (if idx < 0 \<or> idx \<ge> slen (Locals f) \<or> idx \<ge> maxSlots
      then Inl (invalidf ''local index %d exceeds max_locals %d'') else Inr ((), f))"

text \<open>
  The first block of \<open>invalidatePairAt\<close>, whose two tests read the slot one after the other, and
  the second block.
\<close>

definition kill_own :: "nat \<Rightarrow> ftype list \<Rightarrow> ftype list" where
  "kill_own i ls =
     (let ls = (if IsCat2Head (Kind (ls ! i)) \<and> i + 1 < length ls
                then ls[i := T TopK, i + 1 := T TopK] else ls)
      in if IsTail (Kind (ls ! i)) \<and> i \<ge> 1 then ls[i - 1 := T TopK, i := T TopK] else ls)"

definition kill_before :: "nat \<Rightarrow> ftype list \<Rightarrow> ftype list" where
  "kill_before i ls =
     (if i \<ge> 1 \<and> i - 1 < length ls \<and> IsCat2Head (Kind (ls ! (i - 1)))
      then (let ls = ls[i - 1 := T TopK] in if i < length ls then ls[i := T TopK] else ls)
      else ls)"

definition invalidatePairAt :: "int \<Rightarrow> ftype list \<Rightarrow> ftype list" where
  "invalidatePairAt idx ls =
     (if idx < 0 then ls
      else kill_before (nat idx) (if idx < slen ls then kill_own (nat idx) ls else ls))"

definition write_local :: "int \<Rightarrow> ftype \<Rightarrow> frame \<Rightarrow> frame" where
  "write_local idx t f =
     (let width = (if IsCat2Head (Kind t) then 2 else 1);
          ls = invalidatePairAt idx (Locals f);
          ls = (if width = (2::nat) then invalidatePairAt (idx + 1) ls
                else if idx + 1 < slen ls \<and> IsTail (Kind (ls ! nat (idx + 1)))
                then ls[nat (idx + 1) := T TopK] else ls);
          ls = ls[nat idx := t];
          this = (if Kind t = UninitThisK then True else ThisUninitialized f);
          ls = (if width = 2 then ls[nat (idx + 1) := TailOf t] else ls)
      in f\<lparr>Locals := ls, ThisUninitialized := this\<rparr>)"

definition storeLocal :: "int \<Rightarrow> ftype \<Rightarrow> unit action" where
  "storeLocal idx t f =
     (if \<not> Computational t then Inl (invalidf ''invalid local value %s'')
      else if idx < 0 \<or> idx \<ge> slen (Locals f) then Inl (invalidf ''local index %d'')
      else
        (let width = (if IsCat2Head (Kind t) then 2 else 1) in
         case ensureLocal (idx + width - 1) f of
           Inl e \<Rightarrow> Inl e
         | Inr _ \<Rightarrow> Inr ((), write_local idx t f)))"

definition StoreLocal :: "int \<Rightarrow> ftype \<Rightarrow> unit action" where
  "StoreLocal idx t = storeLocal idx t"

definition loadLocal :: "int \<Rightarrow> kind \<Rightarrow> ftype action" where
  "loadLocal idx want f =
     (case ensureLocal idx f of
        Inl e \<Rightarrow> Inl e
      | Inr _ \<Rightarrow>
          (let t = Locals f ! nat idx in
           if \<not> Computational t then Inl (invalidf ''local %d is %s'')
           else if want = RefK \<and> \<not> referenceLike t True
           then Inl (invalidf ''local %d is %s, want ref'')
           else if want \<noteq> RefK \<and> Kind t \<noteq> want then Inl (invalidf ''local %d is %s, want %s'')
           else if IsCat2Head (Kind t) \<and>
             (idx + 1 \<ge> slen (Locals f) \<or> \<not> TypeEqual (Locals f ! nat (idx + 1)) (TailOf t))
           then Inl (invalidf ''local %d has mismatched category-2 tail'')
           else Inr (t, f)))"

section \<open>Stack\<close>

definition push :: "ftype \<Rightarrow> unit action" where
  "push t f =
     (if \<not> Computational t then Inl (invalidf ''push of non-computational value %s'')
      else if slen (Stack f) + int (TypeWidth t) > stackLimit f
      then Inl (invalidf ''max_stack exceeded'')
      else Inr ((), f\<lparr>Stack := (if IsCat2Head (Kind t) then Stack f @ [t, TailOf t]
                                else Stack f @ [t])\<rparr>))"

definition popValue :: "ftype action" where
  "popValue f =
     (if Stack f = [] then Inl (invalidf ''stack underflow'')
      else
        (let top = last (Stack f) in
         if IsTail (Kind top) then
           (if length (Stack f) < 2 then Inl (invalidf ''truncated category-2'')
            else
              (let head = Stack f ! (length (Stack f) - 2) in
               if Kind top = LongTailK \<and> Kind head \<noteq> LongK \<or>
                  Kind top = DoubleTailK \<and> Kind head \<noteq> DoubleK
               then Inl (invalidf ''mismatched category-2 tail'')
               else Inr (head, f\<lparr>Stack := take (length (Stack f) - 2) (Stack f)\<rparr>)))
         else if \<not> Computational top \<or> IsCat2Head (Kind top)
         then Inl (invalidf ''invalid computational stack top'')
         else Inr (top, f\<lparr>Stack := take (length (Stack f) - 1) (Stack f)\<rparr>)))"

definition popKind :: "kind \<Rightarrow> ftype action" where
  "popKind want = bind_act popValue (\<lambda>t.
     if want = RefK then
       (if Kind t = RefK \<or> Kind t = NullK then ret t
        else fail (invalidf ''pop %s, want ref''))
     else if Kind t \<noteq> want then fail (invalidf ''pop %s, want %s'')
     else ret t)"

definition peek :: "int \<Rightarrow> frame \<Rightarrow> ferror + ftype" where
  "peek n f =
     (if n < 0 \<or> n \<ge> slen (Stack f) then Inl (invalidf ''stack underflow'')
      else Inr (Stack f ! nat (slen (Stack f) - 1 - n)))"

definition initialize :: "ftype \<Rightarrow> ftype \<Rightarrow> frame \<Rightarrow> frame" where
  "initialize site to f =
     (let set_if = (\<lambda>t. if sameUninitialized t site then to else t) in
      f\<lparr>Locals := map set_if (Locals f), Stack := map set_if (Stack f)\<rparr>)"

section \<open>The join of two frames\<close>

definition join_locals :: "ftype list \<Rightarrow> ftype list \<Rightarrow> ftype list" where
  "join_locals as bs =
     map2 (\<lambda>a b. case JoinTypes a b of None \<Rightarrow> T TopK | Some j \<Rightarrow> j) as bs"

text \<open>
  The pass that kills the other half of a broken pair: it goes upwards and reads the slots it
  has already rewritten (\<open>prev\<close> is the slot below, \<open>None\<close> at index 0).
\<close>

fun kill_halves :: "ftype option \<Rightarrow> ftype list \<Rightarrow> ftype list" where
  "kill_halves prev [] = []"
| "kill_halves prev (t # ts) =
     (let t1 = (if IsCat2Head (Kind t) \<and>
                   (case ts of [] \<Rightarrow> True | u # _ \<Rightarrow> \<not> TypeEqual u (TailOf t))
                then T TopK else t);
          t2 = (if IsTail (Kind t) \<and>
                   (case prev of None \<Rightarrow> True | Some p \<Rightarrow> \<not> TypeEqual t (TailOf p))
                then T TopK else t1)
      in t2 # kill_halves (Some t2) ts)"

fun join_stack :: "ftype list \<Rightarrow> ftype list \<Rightarrow> ferror + ftype list" where
  "join_stack (a # as) (b # bs) =
     (case JoinTypes a b of
        None \<Rightarrow> Inl (invalidf ''incompatible computational stack at %d: %s vs %s'')
      | Some j \<Rightarrow>
          if \<not> Computational j
          then Inl (invalidf ''incompatible computational stack at %d: %s vs %s'')
          else if IsCat2Head (Kind j)
          then res_bind (join_stack (drop 1 as) (drop 1 bs)) (\<lambda>js. Inr (j # TailOf j # js))
          else res_bind (join_stack as bs) (\<lambda>js. Inr (j # js)))"
| "join_stack _ _ = Inr []"

definition JoinFrames :: "frame \<Rightarrow> frame \<Rightarrow> ferror + frame" where
  "JoinFrames a b =
     (if length (Stack a) \<noteq> length (Stack b) then Inl (invalidf ''stack height mismatch %d vs %d'')
      else if length (Locals a) \<noteq> length (Locals b) \<or> stackLimit a \<noteq> stackLimit b \<or>
        ThisClass a \<noteq> ThisClass b \<or> DirectSuperClass a \<noteq> DirectSuperClass b
      then Inl (invalidf ''frame shape/context mismatch'')
      else
        res_bind (Validate a) (\<lambda>_.
        res_bind (Validate b) (\<lambda>_.
        res_bind (join_stack (Stack a) (Stack b)) (\<lambda>stk.
          Inr (a\<lparr>Locals := kill_halves None (join_locals (Locals a) (Locals b)),
                Stack := stk,
                ThisUninitialized := ThisUninitialized a \<or> ThisUninitialized b\<rparr>)))))"

section \<open>Well-formed slots\<close>

definition wf_slots :: "bool \<Rightarrow> ftype list \<Rightarrow> bool" where
  "wf_slots lcl ts \<longleftrightarrow> validate_slots lcl ts = Inr ()"

lemma wf_slots_Nil [simp]: "wf_slots lcl []"
  by (simp add: wf_slots_def)

lemma wf_slots_Cons:
  "wf_slots lcl (t # ts) \<longleftrightarrow>
     (lcl \<and> Kind t = TopK \<and> wf_slots lcl ts) \<or>
     (Computational t \<and> \<not> IsCat2Head (Kind t) \<and> wf_slots lcl ts) \<or>
     (IsCat2Head (Kind t) \<and> (\<exists>u us. ts = u # us \<and> TypeEqual u (TailOf t) \<and> wf_slots lcl us))"
  unfolding wf_slots_def by (subst validate_slots.simps, cases "Kind t"; cases ts)
    (simp_all add: Computational_iff IsCat2Head_def IsTail_def del: validate_slots.simps)

lemma tail_of_head: "IsCat2Head (Kind t) \<Longrightarrow> TypeEqual u (TailOf t) \<Longrightarrow> IsTail (Kind u) \<and> \<not> Computational u"
  using TailOf_cat2 [of t] TypeEqual_Kind [of u "TailOf t"] by (simp add: Computational_iff)

text \<open>Appending a value, and the decomposition from the top.\<close>

lemma wf_slots_append: "wf_slots lcl xs \<Longrightarrow> wf_slots lcl ys \<Longrightarrow> wf_slots lcl (xs @ ys)"
proof (induction "length xs" arbitrary: xs rule: less_induct)
  case less
  show ?case
  proof (cases xs)
    case (Cons t ts)
    have IH: "wf_slots lcl (zs @ ys)" if "wf_slots lcl zs" "length zs < length xs" for zs
      using less.hyps [OF that(2,1) less.prems(2)] .
    show ?thesis
      using less.prems(1) [unfolded Cons wf_slots_Cons [of lcl t ts]] IH
      unfolding Cons append_Cons wf_slots_Cons [of lcl t "ts @ ys"] by fastforce
  qed (simp add: less.prems)
qed

lemma wf_slots_single: "wf_slots lcl [t] \<longleftrightarrow> (lcl \<and> Kind t = TopK) \<or> (Computational t \<and> \<not> IsCat2Head (Kind t))"
  by (simp add: wf_slots_Cons)

lemma wf_slots_pair:
  "IsCat2Head (Kind t) \<Longrightarrow> TypeEqual u (TailOf t) \<Longrightarrow> wf_slots lcl [t, u]"
  by (simp add: wf_slots_Cons cat2_computational)

lemma wf_stack_cases:
  assumes "wf_slots False xs"
  obtains "xs = []"
  | ys t where "xs = ys @ [t]" "wf_slots False ys" "Computational t" "\<not> IsCat2Head (Kind t)"
  | ys t u where "xs = ys @ [t, u]" "wf_slots False ys" "IsCat2Head (Kind t)" "TypeEqual u (TailOf t)"
proof -
  have "xs = [] \<or> (\<exists>ys t. xs = ys @ [t] \<and> wf_slots False ys \<and> Computational t \<and> \<not> IsCat2Head (Kind t)) \<or>
    (\<exists>ys t u. xs = ys @ [t, u] \<and> wf_slots False ys \<and> IsCat2Head (Kind t) \<and> TypeEqual u (TailOf t))"
    using assms
  proof (induction "length xs" arbitrary: xs rule: less_induct)
    case less
    show ?case
    proof (cases xs)
      case (Cons t ts)
      show ?thesis
      proof (cases "IsCat2Head (Kind t)")
        case True
        then obtain u us where us: "ts = u # us" "TypeEqual u (TailOf t)" "wf_slots False us"
          using less.prems Cons by (auto simp: wf_slots_Cons)
        have pre: "wf_slots False (t # u # ys)" if "wf_slots False ys" for ys
          using that us True by (simp add: wf_slots_Cons)
        have "length us < length xs" using Cons us by simp
        from less.hyps [OF this us(3)] show ?thesis
        proof (elim disjE exE conjE)
          assume "us = []"
          then have "xs = [] @ [t, u]" using Cons us by simp
          then show ?thesis using True us(2) wf_slots_Nil by blast
        next
          fix ys s assume s: "us = ys @ [s]" "wf_slots False ys" "Computational s" "\<not> IsCat2Head (Kind s)"
          then have "xs = (t # u # ys) @ [s]" using Cons us by simp
          then show ?thesis using s pre by blast
        next
          fix ys s v assume s: "us = ys @ [s, v]" "wf_slots False ys" "IsCat2Head (Kind s)"
            "TypeEqual v (TailOf s)"
          then have "xs = (t # u # ys) @ [s, v]" using Cons us by simp
          then show ?thesis using s pre by blast
        qed
      next
        case False
        then have t: "Computational t" "wf_slots False ts" using less.prems Cons
          by (auto simp: wf_slots_Cons)
        have pre: "wf_slots False (t # ys)" if "wf_slots False ys" for ys
          using that t False by (simp add: wf_slots_Cons)
        have "length ts < length xs" using Cons by simp
        from less.hyps [OF this t(2)] show ?thesis
        proof (elim disjE exE conjE)
          assume "ts = []"
          then have "xs = [] @ [t]" using Cons by simp
          then show ?thesis using False t(1) wf_slots_Nil by blast
        next
          fix ys s assume s: "ts = ys @ [s]" "wf_slots False ys" "Computational s" "\<not> IsCat2Head (Kind s)"
          then have "xs = (t # ys) @ [s]" using Cons by simp
          then show ?thesis using s pre by blast
        next
          fix ys s v assume s: "ts = ys @ [s, v]" "wf_slots False ys" "IsCat2Head (Kind s)"
            "TypeEqual v (TailOf s)"
          then have "xs = (t # ys) @ [s, v]" using Cons by simp
          then show ?thesis using s pre by blast
        qed
      qed
    qed simp
  qed
  with that show thesis by blast
qed

section \<open>Locals slot by slot\<close>

definition pair_ok :: "ftype list \<Rightarrow> nat \<Rightarrow> bool" where
  "pair_ok ls i \<longleftrightarrow>
     (IsCat2Head (Kind (ls ! i)) \<longrightarrow> i + 1 < length ls \<and> TypeEqual (ls ! (i + 1)) (TailOf (ls ! i))) \<and>
     (IsTail (Kind (ls ! i)) \<longrightarrow> 0 < i \<and> IsCat2Head (Kind (ls ! (i - 1))))"

lemma pair_ok_shift:
  "pair_ok (t # ls) (Suc i) \<longleftrightarrow>
     (if i = 0
      then (IsCat2Head (Kind (ls ! 0)) \<longrightarrow> 1 < length ls \<and> TypeEqual (ls ! 1) (TailOf (ls ! 0))) \<and>
        (IsTail (Kind (ls ! 0)) \<longrightarrow> IsCat2Head (Kind t))
      else pair_ok ls i)"
  by (cases i) (auto simp: pair_ok_def)

lemma wf_locals_slots: "wf_slots True ls \<longleftrightarrow> (\<forall>i<length ls. pair_ok ls i)"
proof (induction "length ls" arbitrary: ls rule: less_induct)
  case less
  show ?case
  proof (cases ls)
    case (Cons t ts)
    consider "IsCat2Head (Kind t)" | "IsTail (Kind t)" | "\<not> IsCat2Head (Kind t)" "\<not> IsTail (Kind t)"
      by blast
    then show ?thesis
    proof cases
      case 1
      have nt: "\<not> IsTail (Kind t)" using 1 by (simp add: cat2_not_tail)
      show ?thesis
      proof (cases ts)
        case Nil
        then show ?thesis using 1 nt Cons
          by (auto simp: wf_slots_Cons pair_ok_def IsCat2Head_def Computational_iff)
      next
        case us: (Cons u us)
        have IH: "wf_slots True us \<longleftrightarrow> (\<forall>i<length us. pair_ok us i)"
          by (rule less.hyps) (simp add: Cons us)
        have eq: "pair_ok (t # u # us) (Suc (Suc i)) \<longleftrightarrow> pair_ok us i"
          if "TypeEqual u (TailOf t)" "i < length us" for i
          using tail_of_head [OF 1 that(1)] cat2_not_tail
          by (cases i) (auto simp: pair_ok_def)
        have "(\<forall>i<length ls. pair_ok ls i) \<longleftrightarrow>
            TypeEqual u (TailOf t) \<and> (\<forall>i<length us. pair_ok us i)"
        proof
          assume all: "\<forall>i<length ls. pair_ok ls i"
          then have "pair_ok ls 0" using Cons by blast
          then have tu: "TypeEqual u (TailOf t)" using 1 Cons us by (simp add: pair_ok_def)
          moreover have "pair_ok us i" if "i < length us" for i
            using all [rule_format, of "Suc (Suc i)"] that eq [OF tu that] Cons us by simp
          ultimately show "TypeEqual u (TailOf t) \<and> (\<forall>i<length us. pair_ok us i)" by blast
        next
          assume r: "TypeEqual u (TailOf t) \<and> (\<forall>i<length us. pair_ok us i)"
          show "\<forall>i<length ls. pair_ok ls i"
          proof (intro allI impI)
            fix i assume i: "i < length ls"
            have u: "IsTail (Kind u)" "\<not> IsCat2Head (Kind u)" 
              using tail_of_head [OF 1] r cat2_not_tail by blast+
            show "pair_ok ls i"
            proof (cases i)
              case 0
              then show ?thesis using r 1 nt Cons us by (simp add: pair_ok_def)
            next
              case (Suc j)
              then show ?thesis using r eq 1 u i Cons us by (cases j) (auto simp: pair_ok_def)
            qed
          qed
        qed
        moreover have "wf_slots True ls \<longleftrightarrow> TypeEqual u (TailOf t) \<and> wf_slots True us"
          using 1 Cons us by (auto simp: wf_slots_Cons [of True t] IsCat2Head_def)
        ultimately show ?thesis using IH by simp
      qed
    next
      case 2
      then show ?thesis using Cons cat2_not_tail
        by (auto simp: wf_slots_Cons pair_ok_def Computational_iff IsTail_def)
    next
      case 3
      have IH: "wf_slots True ts \<longleftrightarrow> (\<forall>i<length ts. pair_ok ts i)"
        by (rule less.hyps) (simp add: Cons)
      have "wf_slots True ls \<longleftrightarrow> wf_slots True ts"
        using 3 Cons by (auto simp: wf_slots_Cons [of True t] Computational_iff)
      moreover have "(\<forall>i<length ls. pair_ok ls i) \<longleftrightarrow> (\<forall>i<length ts. pair_ok ts i)"
      proof -
        have "pair_ok (t # ts) 0" using 3 by (simp add: pair_ok_def)
        moreover have "pair_ok (t # ts) (Suc i) \<longleftrightarrow> pair_ok ts i" for i
          using 3 by (cases i) (auto simp: pair_ok_def)
        ultimately show ?thesis using Cons by (metis Suc_less_eq gr0_conv_Suc length_Cons not_gr_zero)
      qed
      ultimately show ?thesis using IH by simp
    qed
  qed simp
qed

lemma pair_okD:
  assumes "wf_slots True ls" and "i < length ls"
  shows "IsCat2Head (Kind (ls ! i)) \<Longrightarrow> i + 1 < length ls \<and> TypeEqual (ls ! (i + 1)) (TailOf (ls ! i))"
    and "IsTail (Kind (ls ! i)) \<Longrightarrow> 0 < i \<and> IsCat2Head (Kind (ls ! (i - 1)))"
  using assms by (auto simp: wf_locals_slots pair_ok_def)

lemma top_single [simp]: "\<not> IsCat2Head TopK" "\<not> IsTail TopK"
  by (simp_all add: IsCat2Head_def IsTail_def)

definition single :: "ftype \<Rightarrow> bool" where
  "single t \<longleftrightarrow> \<not> IsCat2Head (Kind t) \<and> \<not> IsTail (Kind t)"

lemma single_Top [simp]: "single (T TopK)"
  by (simp add: single_def)

lemma single_update:
  "j < length ls \<Longrightarrow> single (ls ! j) \<Longrightarrow> single (ls[a := T TopK] ! j)"
  by (cases "a = j") simp_all

text \<open>Rewriting a slot that is no half of a pair, and a pair that is one.\<close>

lemma wf_update_single:
  assumes "wf_slots True ls" and "i < length ls \<Longrightarrow> single (ls ! i)" and "single t"
  shows "wf_slots True (ls[i := t])"
proof (cases "i < length ls")
  case True
  have "pair_ok (ls[i := t]) j" if j: "j < length ls" for j
  proof -
    have old: "pair_ok ls j" using assms(1) j by (simp add: wf_locals_slots)
    consider "j = i" | "j + 1 = i" | "j = i + 1" | "j \<noteq> i" "j + 1 \<noteq> i" "j \<noteq> i + 1" by blast
    then show ?thesis
    proof cases
      case 1
      then show ?thesis using assms(3) True by (simp add: pair_ok_def single_def)
    next
      case 2
      then have "\<not> IsCat2Head (Kind (ls ! j))"
        using pair_okD(1) [OF assms(1) j] tail_of_head assms(2) [OF True] by (auto simp: single_def)
      then show ?thesis using 2 old True by (auto simp: pair_ok_def nth_list_update)
    next
      case 3
      then have "\<not> IsTail (Kind (ls ! j))"
        using pair_okD(2) [OF assms(1) j] assms(2) [OF True] by (auto simp: single_def)
      then show ?thesis using 3 old by (auto simp: pair_ok_def)
    next
      case 4
      then have "j - 1 = i \<longrightarrow> j = 0" by linarith
      then show ?thesis using 4 old by (auto simp: pair_ok_def nth_list_update)
    qed
  qed
  then show ?thesis by (simp add: wf_locals_slots)
next
  case False
  then show ?thesis using assms(1) by (simp add: list_update_beyond)
qed

lemma wf_kill_pair:
  assumes "wf_slots True ls" and "i + 1 < length ls" and "IsCat2Head (Kind (ls ! i))"
  shows "wf_slots True (ls[i := T TopK, i + 1 := T TopK])"
proof -
  have tl: "IsTail (Kind (ls ! (i + 1)))"
    using pair_okD(1) [OF assms(1) _ assms(3)] tail_of_head assms by auto
  have "pair_ok (ls[i := T TopK, i + 1 := T TopK]) j" if j: "j < length ls" for j
  proof -
    have old: "pair_ok ls j" using assms(1) j by (simp add: wf_locals_slots)
    consider "j = i \<or> j = i + 1" | "j + 1 = i" | "j = i + 2" | "j \<noteq> i" "j \<noteq> i + 1" "j + 1 \<noteq> i" "j \<noteq> i + 2"
      by blast
    then show ?thesis
    proof cases
      case 1
      then show ?thesis using assms(2) by (auto simp: pair_ok_def)
    next
      case 2
      then have "\<not> IsCat2Head (Kind (ls ! j))"
        using pair_okD(1) [OF assms(1) j] tail_of_head assms(3) cat2_not_tail by auto
      then show ?thesis using 2 old assms(2) by (auto simp: pair_ok_def nth_list_update)
    next
      case 3
      then have "\<not> IsTail (Kind (ls ! j))"
        using pair_okD(2) [OF assms(1) j] tl cat2_not_tail by auto
      then show ?thesis using 3 old by (auto simp: pair_ok_def)
    next
      case 4
      then have "j - 1 \<noteq> i \<or> j = 0" "j - 1 \<noteq> i + 1" by linarith+
      then show ?thesis using 4 old by (auto simp: pair_ok_def nth_list_update)
    qed
  qed
  then show ?thesis by (simp add: wf_locals_slots)
qed

lemma kill_own_eq:
  assumes "wf_slots True ls" and "i < length ls"
  shows "kill_own i ls =
    (if IsCat2Head (Kind (ls ! i)) then ls[i := T TopK, i + 1 := T TopK]
     else if IsTail (Kind (ls ! i)) then ls[i - 1 := T TopK, i := T TopK] else ls)"
  using pair_okD [OF assms] assms(2) by (auto simp: kill_own_def Let_def)

lemma wf_kill_own:
  assumes "wf_slots True ls" and "i < length ls"
  shows "wf_slots True (kill_own i ls) \<and> single (kill_own i ls ! i)"
proof -
  have "wf_slots True (ls[i - 1 := T TopK, i := T TopK])" if "IsTail (Kind (ls ! i))"
    using pair_okD(2) [OF assms that] wf_kill_pair [OF assms(1), of "i - 1"] assms(2) by simp
  moreover have "wf_slots True (ls[i := T TopK, i + 1 := T TopK])" if "IsCat2Head (Kind (ls ! i))"
    using pair_okD(1) [OF assms that] wf_kill_pair [OF assms(1)] that by simp
  ultimately show ?thesis using assms by (auto simp: kill_own_eq single_def)
qed

lemma kill_before_id:
  assumes "wf_slots True ls" and "i < length ls" and "single (ls ! i)"
  shows "kill_before i ls = ls"
  using pair_okD(1) [OF assms(1), of "i - 1"] tail_of_head assms(2,3)
  by (auto simp: kill_before_def single_def Let_def)

text \<open>What an operation on the locals may do to a slot that it does not write.\<close>

definition spared :: "ftype list \<Rightarrow> ftype list \<Rightarrow> nat \<Rightarrow> bool" where
  "spared ls ls' j \<longleftrightarrow> ls' ! j = ls ! j \<or> ls' ! j = T TopK \<and> \<not> single (ls ! j)"

lemma spared_trans: "spared ls ls1 j \<Longrightarrow> spared ls1 ls2 j \<Longrightarrow> spared ls ls2 j"
  by (auto simp: spared_def)

lemma kill_own_spared:
  assumes "wf_slots True ls" and "i < length ls" and "j < length ls"
  shows "spared ls (kill_own i ls) j"
proof -
  have h: "\<not> single (ls ! (i + 1)) \<and> i + 1 < length ls" if "IsCat2Head (Kind (ls ! i))"
    using pair_okD(1) [OF assms(1,2) that] tail_of_head that by (auto simp: single_def)
  have t: "\<not> single (ls ! (i - 1)) \<and> 0 < i" if "IsTail (Kind (ls ! i))"
    using pair_okD(2) [OF assms(1,2) that] by (auto simp: single_def)
  show ?thesis
    using h t assms(2,3)
    by (auto simp: spared_def kill_own_eq [OF assms(1,2)] nth_list_update single_def)
qed

lemma invalidatePairAt_ok:
  assumes "wf_slots True ls" and "0 \<le> idx" and "nat idx < length ls"
  shows "wf_slots True (invalidatePairAt idx ls) \<and> single (invalidatePairAt idx ls ! nat idx) \<and>
    length (invalidatePairAt idx ls) = length ls \<and>
    (\<forall>j<length ls. single (ls ! j) \<longrightarrow> single (invalidatePairAt idx ls ! j)) \<and>
    (\<forall>j<length ls. spared ls (invalidatePairAt idx ls) j)"
proof -
  let ?i = "nat idx"
  have k: "wf_slots True (kill_own ?i ls)" "single (kill_own ?i ls ! ?i)"
    using wf_kill_own [OF assms(1,3)] by auto
  have len: "length (kill_own ?i ls) = length ls" by (simp add: kill_own_def Let_def)
  have "idx < slen ls" using assms(2,3) by (simp add: slen_def nat_less_iff)
  then have "invalidatePairAt idx ls = kill_own ?i ls"
    using kill_before_id [OF k(1) _ k(2)] assms len by (simp add: invalidatePairAt_def)
  moreover have "single (kill_own ?i ls ! j)" if "j < length ls" "single (ls ! j)" for j
    using that by (simp add: kill_own_eq [OF assms(1,3)] single_update)
  ultimately show ?thesis using k len kill_own_spared [OF assms(1,3)] by simp
qed

lemma write_local_ok:
  assumes wf: "wf_slots True (Locals f)" and t: "Computational t" and i: "0 \<le> idx"
    and room: "idx + (if IsCat2Head (Kind t) then 2 else 1) \<le> slen (Locals f)"
  shows "wf_slots True (Locals (write_local idx t f)) \<and>
    length (Locals (write_local idx t f)) = length (Locals f) \<and>
    Locals (write_local idx t f) ! nat idx = t \<and>
    (IsCat2Head (Kind t) \<longrightarrow> Locals (write_local idx t f) ! (nat idx + 1) = TailOf t) \<and>
    (\<forall>j<length (Locals f). j \<noteq> nat idx \<and> (IsCat2Head (Kind t) \<longrightarrow> j \<noteq> nat idx + 1) \<longrightarrow>
       spared (Locals f) (Locals (write_local idx t f)) j)"
proof -
  let ?i = "nat idx" and ?ls = "Locals f"
  define l1 where "l1 = invalidatePairAt idx ?ls"
  have len: "?i < length ?ls" using i room by (simp add: slen_def split: if_splits)
  have l1: "wf_slots True l1" "single (l1 ! ?i)" "length l1 = length ?ls"
      "\<forall>j<length ?ls. spared ?ls l1 j"
    using invalidatePairAt_ok [OF wf i len] unfolding l1_def by auto
  show ?thesis
  proof (cases "IsCat2Head (Kind t)")
    case True
    have i1: "nat (idx + 1) = ?i + 1" using i by simp
    define l2 where "l2 = invalidatePairAt (idx + 1) l1"
    have len1: "?i + 1 < length ?ls" using i room True by (simp add: slen_def)
    have l2: "wf_slots True l2" "single (l2 ! (?i + 1))" "length l2 = length ?ls" "single (l2 ! ?i)"
        "\<forall>j<length ?ls. spared l1 l2 j"
      using invalidatePairAt_ok [OF l1(1), of "idx + 1"] i1 l1 len len1 i unfolding l2_def by auto
    have "pair_ok (l2[?i := t, ?i + 1 := TailOf t]) j" if j: "j < length ?ls" for j
    proof -
      have old: "pair_ok l2 j" using l2 j by (simp add: wf_locals_slots)
      consider "j = ?i" | "j = ?i + 1" | "j + 1 = ?i" | "j = ?i + 2"
        | "j \<noteq> ?i" "j \<noteq> ?i + 1" "j + 1 \<noteq> ?i" "j \<noteq> ?i + 2" by blast
      then show ?thesis
      proof cases
        case 1
        then show ?thesis using True len1 l2 by (simp add: pair_ok_def cat2_not_tail)
      next
        case 2
        then show ?thesis using True len1 l2 TailOf_cat2 [OF True] cat2_not_tail
          by (auto simp: pair_ok_def)
      next
        case 3
        then have "\<not> IsCat2Head (Kind (l2 ! j))"
          using pair_okD(1) [OF l2(1), of j] tail_of_head l2 j by (auto simp: single_def)
        then show ?thesis using 3 old by (auto simp: pair_ok_def nth_list_update)
      next
        case 4
        then have "\<not> IsTail (Kind (l2 ! j))"
          using pair_okD(2) [OF l2(1), of j] l2 j by (auto simp: single_def)
        then show ?thesis using 4 old by (auto simp: pair_ok_def)
      next
        case 5
        then have "j - 1 \<noteq> ?i \<or> j = 0" "j - 1 \<noteq> ?i + 1" by linarith+
        then show ?thesis using 5 old by (auto simp: pair_ok_def nth_list_update)
      qed
    qed
    then have "wf_slots True (l2[?i := t, ?i + 1 := TailOf t])" using l2 by (simp add: wf_locals_slots)
    moreover have "spared ?ls (l2[?i := t, ?i + 1 := TailOf t]) j"
      if "j < length ?ls" "j \<noteq> ?i" "j \<noteq> ?i + 1" for j
    proof -
      have "spared ?ls l2 j" using l1(4) l2(5) that(1) by (blast intro: spared_trans)
      then show ?thesis using that by (simp add: spared_def)
    qed
    moreover have "Locals (write_local idx t f) = l2[?i := t, ?i + 1 := TailOf t]"
      using True i1 by (simp add: write_local_def Let_def l1_def [symmetric] l2_def [symmetric])
    ultimately show ?thesis using True l2(3) len len1 by simp
  next
    case False
    have nt: "\<not> IsTail (Kind (l1 ! nat (idx + 1)))" if "idx + 1 < slen l1"
    proof
      assume tl: "IsTail (Kind (l1 ! nat (idx + 1)))"
      have "nat (idx + 1) < length l1" using that i by (simp add: slen_def nat_less_iff)
      from pair_okD(2) [OF l1(1) this tl] l1(2) i show False by (simp add: single_def nat_add_distrib)
    qed
    have "single t" using False t by (simp add: single_def Computational_iff)
    then have "wf_slots True (l1[?i := t])" using wf_update_single l1 by blast
    moreover have "Locals (write_local idx t f) = l1[?i := t]"
      using False nt by (auto simp: write_local_def Let_def l1_def [symmetric])
    moreover have "spared ?ls (l1[?i := t]) j" if "j < length ?ls" "j \<noteq> ?i" for j
      using l1(4) that by (simp add: spared_def)
    ultimately show ?thesis using False l1(3) len by simp
  qed
qed

section \<open>Valid frames and what every operation keeps\<close>

definition frame_ok :: "frame \<Rightarrow> bool" where
  "frame_ok f \<longleftrightarrow> is_ok (Validate f)"

lemma frame_ok_iff:
  "frame_ok f \<longleftrightarrow> slen (Locals f) \<le> maxSlots \<and> slen (Stack f) \<le> stackLimit f \<and>
     wf_slots True (Locals f) \<and> wf_slots False (Stack f)"
  by (auto simp: frame_ok_def Validate_def is_ok_iff wf_slots_def)

text \<open>The part of a frame that no operation changes.\<close>

definition shape :: "frame \<Rightarrow> nat \<times> int \<times> bool \<times> string \<times> string" where
  "shape f = (length (Locals f), maxStack f, hasLimits f, ThisClass f, DirectSuperClass f)"

lemma shape_stackLimit: "shape f = shape g \<Longrightarrow> stackLimit f = stackLimit g"
  by (simp add: shape_def stackLimit_def)

definition keeps :: "'a action \<Rightarrow> bool" where
  "keeps m \<longleftrightarrow> (\<forall>f a f'. frame_ok f \<longrightarrow> m f = Inr (a, f') \<longrightarrow> frame_ok f' \<and> shape f' = shape f)"

named_theorems keeps_intros \<open>actions that keep frames valid\<close>

lemma keepsI:
  "(\<And>f a f'. frame_ok f \<Longrightarrow> m f = Inr (a, f') \<Longrightarrow> frame_ok f' \<and> shape f' = shape f) \<Longrightarrow> keeps m"
  by (simp add: keeps_def)

lemma keepsD: "keeps m \<Longrightarrow> frame_ok f \<Longrightarrow> m f = Inr (a, f') \<Longrightarrow> frame_ok f' \<and> shape f' = shape f"
  by (simp add: keeps_def)

lemma keeps_ret [keeps_intros]: "keeps (ret a)"
  by (simp add: keeps_def ret_def)

lemma keeps_fail [keeps_intros]: "keeps (fail e)"
  by (simp add: keeps_def fail_def)

lemma keeps_lift [keeps_intros]: "keeps (lift_res r)"
  by (simp add: keeps_def lift_res_Inr)

lemma keeps_bind [keeps_intros]: "keeps m \<Longrightarrow> (\<And>a. keeps (k a)) \<Longrightarrow> keeps (bind_act m k)"
  unfolding keeps_def bind_act_Inr by metis

lemma keeps_then [keeps_intros]: "keeps m \<Longrightarrow> keeps k \<Longrightarrow> keeps (then_act m k)"
  unfolding then_act_def by (intro keeps_bind)

lemma keeps_if [keeps_intros]: "(c \<Longrightarrow> keeps m) \<Longrightarrow> (\<not> c \<Longrightarrow> keeps k) \<Longrightarrow> keeps (if c then m else k)"
  by simp

lemma keeps_with_frame [keeps_intros]: "(\<And>f. keeps (g f)) \<Longrightarrow> keeps (with_frame g)"
  by (simp add: keeps_def with_frame_def)

lemma keeps_storeLocal [keeps_intros]: "keeps (storeLocal idx t)"
proof (rule keepsI)
  fix f a f' assume ok: "frame_ok f" and st: "storeLocal idx t f = Inr (a, f')"
  have f': "f' = write_local idx t f" and t: "Computational t" and i: "0 \<le> idx"
    and room: "idx + (if IsCat2Head (Kind t) then 2 else 1) \<le> slen (Locals f)"
    using st by (auto simp: storeLocal_def ensureLocal_def Let_def split: if_splits)
  have wf: "wf_slots True (Locals f)" using ok by (simp add: frame_ok_iff)
  note w = write_local_ok [OF wf t i room]
  have "Stack f' = Stack f" "stackLimit f' = stackLimit f" "shape f' = shape f"
    using w by (auto simp: f' write_local_def Let_def stackLimit_def shape_def)
  then show "frame_ok f' \<and> shape f' = shape f"
    using ok w by (simp add: frame_ok_iff f' slen_def)
qed

lemma keeps_loadLocal [keeps_intros]: "keeps (loadLocal idx want)"
  by (rule keepsI) (auto simp: loadLocal_def ensureLocal_def Let_def split: if_splits)

text \<open>The stack as the sequence of its values, bottom first.\<close>

definition vals :: "frame \<Rightarrow> ftype list" where
  "vals f = filter Computational (Stack f)"

definition width_sum :: "ftype list \<Rightarrow> int" where
  "width_sum vs = (\<Sum>v\<leftarrow>vs. int (TypeWidth v))"

lemma width_sum_simps [simp]:
  "width_sum [] = 0" "width_sum (v # vs) = int (TypeWidth v) + width_sum vs"
  "width_sum (vs @ ws) = width_sum vs + width_sum ws"
  by (simp_all add: width_sum_def)

lemma TypeWidth_comp: "Computational t \<Longrightarrow> TypeWidth t = (if IsCat2Head (Kind t) then 2 else 1)"
  by (simp add: TypeWidth_def Computational_iff)

lemma width_of_stack:
  "wf_slots False xs \<Longrightarrow> width_sum (filter Computational xs) = slen xs"
proof (induction "length xs" arbitrary: xs rule: less_induct)
  case less
  from less.prems show ?case
  proof (cases rule: wf_stack_cases)
    case 1 then show ?thesis by (simp add: slen_def)
  next
    case (2 ys t)
    then show ?thesis using less.hyps [of ys] by (simp add: TypeWidth_comp slen_def)
  next
    case (3 ys t u)
    then show ?thesis using less.hyps [of ys] tail_of_head [OF 3(3,4)]
      by (simp add: TypeWidth_comp slen_def cat2_computational)
  qed
qed

lemma vals_width: "frame_ok f \<Longrightarrow> width_sum (vals f) = slen (Stack f)"
  by (simp add: vals_def frame_ok_iff width_of_stack)

lemma vals_computational: "v \<in> set (vals f) \<Longrightarrow> Computational v"
  by (simp add: vals_def)

text \<open>Everything but the stack.\<close>

definition same_rest :: "frame \<Rightarrow> frame \<Rightarrow> bool" where
  "same_rest f f' \<longleftrightarrow> f' = f\<lparr>Stack := Stack f'\<rparr>"

lemma same_rest_refl [simp]: "same_rest f f"
  by (simp add: same_rest_def)

lemma same_rest_trans: "same_rest f g \<Longrightarrow> same_rest g h \<Longrightarrow> same_rest f h"
  by (cases f; cases g; cases h) (simp add: same_rest_def)

lemma same_rest_shape: "same_rest f f' \<Longrightarrow> shape f' = shape f \<and> Locals f' = Locals f \<and>
    ThisUninitialized f' = ThisUninitialized f \<and> stackLimit f' = stackLimit f"
  by (cases f; cases f') (simp add: same_rest_def shape_def stackLimit_def)

lemma push_ok:
  assumes "frame_ok f" and "Computational t"
  shows "if slen (Stack f) + int (TypeWidth t) \<le> stackLimit f
    then \<exists>f'. push t f = Inr ((), f') \<and> frame_ok f' \<and> vals f' = vals f @ [t] \<and> same_rest f f'
    else \<exists>e. push t f = Inl e"
proof (cases "slen (Stack f) + int (TypeWidth t) \<le> stackLimit f")
  case True
  let ?new = "if IsCat2Head (Kind t) then [t, TailOf t] else [t]"
  have wf: "wf_slots False ?new"
    using assms(2) by (simp add: wf_slots_single wf_slots_pair)
  have "push t f = Inr ((), f\<lparr>Stack := Stack f @ ?new\<rparr>)"
    using True assms(2) by (simp add: push_def)
  moreover have "frame_ok (f\<lparr>Stack := Stack f @ ?new\<rparr>)"
    using assms True wf TypeWidth_comp [OF assms(2)] wf_slots_append
    by (auto simp: frame_ok_iff slen_def stackLimit_def)
  moreover have "vals (f\<lparr>Stack := Stack f @ ?new\<rparr>) = vals f @ [t]"
    using assms(2) TailOf_cat2 by (auto simp: vals_def)
  ultimately show ?thesis using True by (simp add: same_rest_def)
qed (simp add: push_def assms)

lemma popValue_ok:
  assumes "frame_ok f"
  shows "if vals f = [] then \<exists>e. popValue f = Inl e
    else \<exists>f'. popValue f = Inr (last (vals f), f') \<and> frame_ok f' \<and> vals f' = butlast (vals f) \<and>
      same_rest f f'"
proof -
  have wf: "wf_slots False (Stack f)" using assms by (simp add: frame_ok_iff)
  have ok: "frame_ok (f\<lparr>Stack := ys\<rparr>)" if "wf_slots False ys" "length ys \<le> length (Stack f)" for ys
    using that assms by (auto simp: frame_ok_iff slen_def stackLimit_def)
  from wf show ?thesis
  proof (cases rule: wf_stack_cases)
    case 1 then show ?thesis by (simp add: vals_def popValue_def)
  next
    case (2 ys t)
    then have "popValue f = Inr (t, f\<lparr>Stack := ys\<rparr>)"
      by (auto simp: popValue_def Let_def Computational_iff)
    then show ?thesis using 2 ok [of ys] by (simp add: vals_def same_rest_def)
  next
    case (3 ys t u)
    have u: "Kind u = Kind (TailOf t)" using 3(4) by (rule TypeEqual_Kind)
    have "popValue f = Inr (t, f\<lparr>Stack := ys\<rparr>)"
      using 3 u by (auto simp: popValue_def Let_def IsCat2Head_def TailOf_def IsTail_def nth_append)
    then show ?thesis using 3 ok [of ys] tail_of_head [OF 3(3,4)]
      by (simp add: vals_def same_rest_def cat2_computational)
  qed
qed

lemma keeps_push [keeps_intros]: "keeps (push t)"
proof (rule keepsI)
  fix f a f' assume ok: "frame_ok f" and p: "push t f = Inr (a, f')"
  have t: "Computational t" using p by (auto simp: push_def split: if_splits)
  show "frame_ok f' \<and> shape f' = shape f"
    using push_ok [OF ok t] p by (auto split: if_splits dest: same_rest_shape)
qed

lemma keeps_popValue [keeps_intros]: "keeps popValue"
proof (rule keepsI)
  fix f a f' assume ok: "frame_ok f" and p: "popValue f = Inr (a, f')"
  then show "frame_ok f' \<and> shape f' = shape f"
    using popValue_ok [OF ok] by (auto split: if_splits dest: same_rest_shape)
qed

lemma keeps_popKind [keeps_intros]: "keeps (popKind k)"
  unfolding popKind_def by (intro keeps_intros)

lemma wf_map_set:
  assumes "\<And>t. g t = t \<or> single t \<and> single (g t) \<and> Computational (g t)"
  shows "wf_slots lcl xs \<Longrightarrow> wf_slots lcl (map g xs)"
proof (induction "length xs" arbitrary: xs rule: less_induct)
  case less
  show ?case
  proof (cases xs)
    case (Cons t ts)
    have IH: "wf_slots lcl (map g zs)" if "wf_slots lcl zs" "length zs < length xs" for zs
      using less.hyps [OF that(2,1)] .
    from less.prems [unfolded Cons wf_slots_Cons [of lcl t ts]] show ?thesis
    proof (elim disjE exE conjE)
      assume "lcl" "Kind t = TopK" "wf_slots lcl ts"
      moreover have "length ts < length xs" by (simp add: Cons)
      ultimately show ?thesis using assms [of t] IH [of ts]
        unfolding Cons list.map wf_slots_Cons [of lcl "g t" "map g ts"] by (auto simp: single_def)
    next
      assume "Computational t" "\<not> IsCat2Head (Kind t)" "wf_slots lcl ts"
      moreover have "length ts < length xs" by (simp add: Cons)
      ultimately show ?thesis using assms [of t] IH [of ts]
        unfolding Cons list.map wf_slots_Cons [of lcl "g t" "map g ts"] by (auto simp: single_def)
    next
      fix u us assume h: "IsCat2Head (Kind t)" "ts = u # us" "TypeEqual u (TailOf t)" "wf_slots lcl us"
      have "g t = t" using assms [of t] h(1) by (auto simp: single_def)
      moreover have "g u = u" using assms [of u] tail_of_head [OF h(1,3)] by (auto simp: single_def)
      ultimately show ?thesis using h IH [of us] Cons by (simp add: wf_slots_Cons [of lcl t])
    qed
  qed simp
qed

lemma frame_ok_initialize:
  assumes "frame_ok f" and "single to" and "Computational to"
  shows "frame_ok (initialize site to f) \<and> shape (initialize site to f) = shape f"
proof -
  have "(if sameUninitialized t site then to else t) = t \<or>
      single t \<and> single (if sameUninitialized t site then to else t) \<and>
      Computational (if sameUninitialized t site then to else t)" for t
    using assms(2,3) by (auto simp: sameUninitialized_def single_def IsCat2Head_def IsTail_def)
  from wf_map_set [OF this] show ?thesis
    using assms(1) by (auto simp: frame_ok_iff initialize_def Let_def shape_def slen_def stackLimit_def)
qed
section \<open>Locals and values: stores, loads, pushes and pops\<close>


definition pair_frame :: frame where
  "pair_frame = (NewFrame 3)\<lparr>Locals := [T LongK, T LongTailK, T IntK], Stack := [T DoubleK, T DoubleTailK]\<rparr>"

lemma frame_ok_pair_frame: "frame_ok pair_frame"
  by code_simp


lemma frame_Stack_id [simp]: "f\<lparr>Stack := Stack f\<rparr> = f"
  by simp

text \<open>What was pushed is what is popped, and the frame is then exactly the one before.\<close>

theorem pop_push: 
  assumes "push t f = Inr ((), f')" shows "popValue f' = Inr (t, f)"
proof -
  have t: "Computational t" using assms by (auto simp: push_def split: if_splits)
  show ?thesis
  proof (cases "IsCat2Head (Kind t)")
    case True
    then have f': "f' = f\<lparr>Stack := Stack f @ [t, TailOf t]\<rparr>"
      using assms by (auto simp: push_def split: if_splits)
    have "Kind (TailOf t) = LongTailK \<and> Kind t = LongK \<or> Kind (TailOf t) = DoubleTailK \<and> Kind t = DoubleK"
      using True by (auto simp: IsCat2Head_def TailOf_def)
    then show ?thesis unfolding f' popValue_def by (auto simp: Let_def nth_append IsTail_def)
  next
    case False
    then have "f' = f\<lparr>Stack := Stack f @ [t]\<rparr>"
      using assms by (auto simp: push_def split: if_splits)
    then show ?thesis using t False unfolding popValue_def by (auto simp: Let_def Computational_iff)
  qed
qed

theorem pop_push_witness:
  "\<exists>f'. push (T LongK) pair_frame = Inr ((), f') \<and> popValue f' = Inr (T LongK, pair_frame)"
proof -
  have "push (T LongK) pair_frame =
      Inr ((), pair_frame\<lparr>Stack := [T DoubleK, T DoubleTailK, T LongK, T LongTailK]\<rparr>)"
    by code_simp
  with pop_push [OF this] show ?thesis by blast
qed

end
