(* ===== verification/FrameJoin.thy ===== *)
theory FrameJoin
  imports Frame
begin

text \<open>
  Properties of \<open>JoinFrames\<close> (\<open>core/frametransfer/frame.go\<close>): the pass that kills broken pairs
  always leaves well-formed locals, the joined stack is well formed, and on canonical frames the
  join is an upper bound that can only descend, which is what ends the solver's iteration.
\<close>

section \<open>The join of frames\<close>

lemma TypeEqual_TailOf_Kind:
  "IsCat2Head (Kind t) \<Longrightarrow> canonical u \<Longrightarrow> TypeEqual u (TailOf t) \<longleftrightarrow> u = TailOf t"
  by (simp add: canonical_equal)

lemma TailOf_single: "\<not> IsCat2Head (Kind t) \<Longrightarrow> TailOf t = T TopK"
  by (cases "Kind t") (simp_all add: TailOf_def IsCat2Head_def)

lemma kill_halves_pair:
  assumes "IsCat2Head (Kind t)" and "TypeEqual u (TailOf t)"
  shows "kill_halves prev (t # u # us) = t # u # kill_halves (Some u) us"
  using assms tail_of_head [OF assms] cat2_not_tail by (auto simp: Let_def)

lemma kill_halves_other:
  assumes "\<not> (IsCat2Head (Kind t) \<and> ts \<noteq> [] \<and> TypeEqual (hd ts) (TailOf t))"
    and "\<forall>p. prev = Some p \<longrightarrow> \<not> IsCat2Head (Kind p)"
  shows "\<exists>s. kill_halves prev (t # ts) = s # kill_halves (Some s) ts \<and> single s \<and> (s = t \<or> s = T TopK)"
proof -
  have nt: "\<not> TypeEqual t (TailOf p)" if "IsTail (Kind t)" "prev = Some p" for p
    using assms(2) that TailOf_single [of p] TypeEqual_Kind [of t "TailOf p"] by auto
  show ?thesis
  proof (cases "IsTail (Kind t)")
    case True
    then show ?thesis using nt by (cases prev) (auto simp: Let_def)
  next
    case False
    then show ?thesis using assms(1)
      by (cases ts) (auto simp: Let_def single_def)
  qed
qed

lemma wf_kill_halves:
  "\<forall>p. prev = Some p \<longrightarrow> \<not> IsCat2Head (Kind p) \<Longrightarrow> wf_slots True (kill_halves prev xs)"
proof (induction "length xs" arbitrary: prev xs rule: less_induct)
  case less
  show ?case
  proof (cases xs)
    case (Cons t ts)
    show ?thesis
    proof (cases "IsCat2Head (Kind t) \<and> ts \<noteq> [] \<and> TypeEqual (hd ts) (TailOf t)")
      case True
      then obtain u us where u: "ts = u # us" "TypeEqual u (TailOf t)" by (cases ts) auto
      have "\<not> IsCat2Head (Kind u)" using tail_of_head True u cat2_not_tail by blast
      then have "wf_slots True (kill_halves (Some u) us)" using less.hyps [of us "Some u"] Cons u by simp
      then show ?thesis using kill_halves_pair [of t u prev us] True u Cons
        by (simp add: wf_slots_Cons [of True t])
    next
      case False
      then obtain s where s: "kill_halves prev xs = s # kill_halves (Some s) ts" "single s"
          "s = t \<or> s = T TopK"
        using kill_halves_other less.prems Cons by metis
      have "wf_slots True (kill_halves (Some s) ts)"
        using less.hyps [of ts "Some s"] Cons s by (simp add: single_def)
      then show ?thesis using s
        by (simp add: wf_slots_Cons [of True s] single_def Computational_iff)
    qed
  qed simp
qed

lemma length_kill_halves [simp]: "length (kill_halves prev xs) = length xs"
  by (induction prev xs rule: kill_halves.induct) (simp_all add: Let_def)

lemma kill_halves_id:
  "wf_slots True xs \<Longrightarrow> \<forall>p. prev = Some p \<longrightarrow> \<not> IsCat2Head (Kind p) \<Longrightarrow> kill_halves prev xs = xs"
proof (induction "length xs" arbitrary: prev xs rule: less_induct)
  case less
  show ?case
  proof (cases xs)
    case (Cons t ts)
    have IH: "kill_halves (Some p) zs = zs"
      if "wf_slots True zs" "length zs < length xs" "\<not> IsCat2Head (Kind p)" for p zs
      using less.hyps [OF that(2,1)] that(3) by simp
    from less.prems(1) [unfolded Cons wf_slots_Cons [of True t ts]]
    have c: "(Kind t = TopK \<or> Computational t \<and> \<not> IsCat2Head (Kind t)) \<and> wf_slots True ts \<or>
      IsCat2Head (Kind t) \<and> (\<exists>u us. ts = u # us \<and> TypeEqual u (TailOf t) \<and> wf_slots True us)" by blast
    then show ?thesis
    proof (elim disjE exE conjE)
      assume "Kind t = TopK" "wf_slots True ts"
      then show ?thesis using IH [of ts t] Cons by (simp add: Let_def)
    next
      assume "Computational t" "\<not> IsCat2Head (Kind t)" "wf_slots True ts"
      then show ?thesis using IH [of ts t] Cons by (simp add: Let_def Computational_iff)
    next
      fix u us assume h: "IsCat2Head (Kind t)" "ts = u # us" "TypeEqual u (TailOf t)" "wf_slots True us"
      have "\<not> IsCat2Head (Kind u)" using tail_of_head h cat2_not_tail by blast
      then show ?thesis using kill_halves_pair [OF h(1,3)] IH [of us u] h Cons by simp
    qed
  qed simp
qed

lemma join_stack_ok:
  assumes "wf_slots False as" and "wf_slots False bs" and "length as = length bs"
    and "join_stack as bs = Inr js"
  shows "wf_slots False js \<and> length js = length as"
  using assms
proof (induction as bs arbitrary: js rule: join_stack.induct)
  case (1 a as b bs)
  from "1.prems"(4) obtain j where j: "JoinTypes a b = Some j" "Computational j"
    by (auto split: option.splits if_splits)
  note jc = JoinTypes_kinds [OF j]
  show ?case
  proof (cases "IsCat2Head (Kind j)")
    case True
    then obtain u us v vs where uv: "as = u # us" "bs = v # vs" "wf_slots False us" "wf_slots False vs"
      using "1.prems"(1,2) jc by (auto simp: wf_slots_Cons [of False a] wf_slots_Cons [of False b])
    from True j "1.prems"(4) uv obtain ks where "join_stack us vs = Inr ks" "js = j # TailOf j # ks"
      by auto
    moreover from this have "wf_slots False ks \<and> length ks = length us"
      using "1.IH"(1) [OF j(1) _ True, of ks] j(2) uv "1.prems"(3) by simp
    ultimately show ?thesis using True uv by (simp add: wf_slots_Cons [of False j])
  next
    case False
    then have w: "wf_slots False as" "wf_slots False bs"
      using "1.prems"(1,2) jc by (auto simp: wf_slots_Cons [of False a] wf_slots_Cons [of False b])
    from False j "1.prems"(4) obtain ks where "join_stack as bs = Inr ks" "js = j # ks" by auto
    moreover from this have "wf_slots False ks \<and> length ks = length as"
      using "1.IH"(2) [OF j(1) _ False, of ks] j(2) w "1.prems"(3) by simp
    ultimately show ?thesis using False j(2) by (simp add: wf_slots_Cons [of False j])
  qed
qed simp_all

lemma JoinFrames_Inr:
  "JoinFrames a b = Inr out \<longleftrightarrow>
     length (Stack a) = length (Stack b) \<and> length (Locals a) = length (Locals b) \<and>
     stackLimit a = stackLimit b \<and> ThisClass a = ThisClass b \<and>
     DirectSuperClass a = DirectSuperClass b \<and> frame_ok a \<and> frame_ok b \<and>
     (\<exists>stk. join_stack (Stack a) (Stack b) = Inr stk \<and>
        out = a\<lparr>Locals := kill_halves None (join_locals (Locals a) (Locals b)), Stack := stk,
              ThisUninitialized := ThisUninitialized a \<or> ThisUninitialized b\<rparr>)"
  by (auto simp: JoinFrames_def frame_ok_def is_ok_iff)

lemma JoinFrames_ok:
  assumes "JoinFrames a b = Inr out"
  shows "frame_ok out \<and> shape out = shape a"
proof -
  obtain stk where j: "join_stack (Stack a) (Stack b) = Inr stk"
    and out: "out = a\<lparr>Locals := kill_halves None (join_locals (Locals a) (Locals b)), Stack := stk,
              ThisUninitialized := ThisUninitialized a \<or> ThisUninitialized b\<rparr>"
    and ok: "frame_ok a" "frame_ok b"
    and len: "length (Stack a) = length (Stack b)" "length (Locals a) = length (Locals b)"
    using assms unfolding JoinFrames_Inr by blast
  have "wf_slots False stk \<and> length stk = length (Stack a)"
    using join_stack_ok [OF _ _ len(1) j] ok by (simp add: frame_ok_iff)
  moreover have "wf_slots True (kill_halves None (join_locals (Locals a) (Locals b)))"
    by (rule wf_kill_halves) simp
  ultimately show ?thesis using ok len
    by (auto simp: out frame_ok_iff shape_def slen_def stackLimit_def join_locals_def)
qed

definition canonical_frame :: "frame \<Rightarrow> bool" where
  "canonical_frame f \<longleftrightarrow> list_all canonical (Locals f) \<and> list_all canonical (Stack f)"

text \<open>How much a frame still knows; the join can only lower it.\<close>

definition frame_height :: "frame \<Rightarrow> nat" where
  "frame_height f = sum_list (map height (Locals f)) + sum_list (map height (Stack f)) +
     (if ThisUninitialized f then 0 else 1)"

lemma join_locals_descends:
  assumes "list_all canonical xs" and "list_all canonical ys" and "length xs = length ys"
  shows "list_all canonical (join_locals xs ys) \<and>
    list_all2 (\<lambda>j x. j = x \<or> height j < height x) (join_locals xs ys) xs"
proof -
  have one: "canonical j \<and> (j = x \<or> height j < height x)"
    if "canonical x" "canonical y" "j = (case JoinTypes x y of None \<Rightarrow> T TopK | Some j \<Rightarrow> j)" for x y j
  proof (cases "JoinTypes x y")
    case None
    then have "Kind x \<noteq> TopK" by (auto simp: JoinTypes_def)
    then have "height (T TopK) < height x" by (cases "Kind x") (simp_all add: height.simps)
    then show ?thesis using that None by simp
  next
    case (Some c)
    then show ?thesis using JoinTypes_descends [OF that(1,2) Some] that(3) by simp
  qed
  show ?thesis
    using assms(3,1,2) unfolding join_locals_def
  proof (induction xs ys rule: list_induct2)
    case (Cons x xs y ys)
    then show ?case using one [of x y, OF _ _ refl] by simp
  qed simp
qed

lemma kill_halves_descends:
  assumes "list_all canonical xs"
  shows "list_all canonical (kill_halves prev xs) \<and>
    list_all2 (\<lambda>j x. j = x \<or> height j < height x) (kill_halves prev xs) xs"
proof -
  have top: "height (T TopK) < height t" if "IsCat2Head (Kind t) \<or> IsTail (Kind t)" for t
    using that by (cases "Kind t") (simp_all add: height.simps IsCat2Head_def IsTail_def)
  show ?thesis using assms
    by (induction prev xs rule: kill_halves.induct) (auto simp: Let_def top)
qed

lemma descends_trans:
  assumes "list_all2 (\<lambda>j x. j = x \<or> height j < height x) zs ys"
    and "list_all2 (\<lambda>j x. j = x \<or> height j < height x) ys xs"
  shows "list_all2 (\<lambda>j x. j = x \<or> height j < height x) zs xs"
  by (rule list_all2_trans [OF _ assms]) auto

lemma descends_sum:
  "list_all2 (\<lambda>j x. j = x \<or> height j < height x) js xs \<Longrightarrow>
     js = xs \<or> sum_list (map height js) < sum_list (map height xs)"
proof (induction js xs rule: list_all2_induct)
  case (Cons j js x xs)
  then show ?case by auto
qed simp

lemma join_stack_descends:
  assumes "list_all canonical as" and "list_all canonical bs" and "wf_slots False as"
    and "wf_slots False bs" and "length as = length bs" and "join_stack as bs = Inr js"
  shows "list_all canonical js \<and> list_all2 (\<lambda>j x. j = x \<or> height j < height x) js as"
  using assms
proof (induction as bs arbitrary: js rule: join_stack.induct)
  case (1 a as b bs)
  from "1.prems"(6) obtain j where j: "JoinTypes a b = Some j" "Computational j"
    by (auto split: option.splits if_splits)
  note jc = JoinTypes_kinds [OF j]
  have jd: "canonical j \<and> (j = a \<or> height j < height a)"
    using JoinTypes_descends [OF _ _ j(1)] "1.prems"(1,2) by simp
  show ?case
  proof (cases "IsCat2Head (Kind j)")
    case True
    then obtain u us v vs where uv: "as = u # us" "bs = v # vs" "wf_slots False us" "wf_slots False vs"
        "TypeEqual u (TailOf a)"
      using "1.prems"(3,4) jc by (auto simp: wf_slots_Cons [of False a] wf_slots_Cons [of False b])
    have "u = TailOf j"
      using uv "1.prems"(1) jc True canonical_equal [of u "TailOf a"] TailOf_cong [of a j] by simp
    moreover from True j "1.prems"(6) uv obtain ks where "join_stack us vs = Inr ks" "js = j # TailOf j # ks"
      by auto
    moreover from this have "list_all canonical ks \<and> list_all2 (\<lambda>j x. j = x \<or> height j < height x) ks us"
      using "1.IH"(1) [OF j(1) _ True, of ks] j(2) uv "1.prems"(1,2,5) by simp
    ultimately show ?thesis using uv jd by simp
  next
    case False
    then have w: "wf_slots False as" "wf_slots False bs"
      using "1.prems"(3,4) jc by (auto simp: wf_slots_Cons [of False a] wf_slots_Cons [of False b])
    from False j "1.prems"(6) obtain ks where "join_stack as bs = Inr ks" "js = j # ks" by auto
    moreover from this have "list_all canonical ks \<and> list_all2 (\<lambda>j x. j = x \<or> height j < height x) ks as"
      using "1.IH"(2) [OF j(1) _ False, of ks] j(2) w "1.prems"(1,2,5) by simp
    ultimately show ?thesis using jd by simp
  qed
qed simp_all

lemma JoinFrames_canonical:
  assumes "canonical_frame a" and "canonical_frame b" and "JoinFrames a b = Inr out"
  shows "canonical_frame out \<and>
    list_all2 (\<lambda>j x. j = x \<or> height j < height x) (Locals out) (Locals a) \<and>
    list_all2 (\<lambda>j x. j = x \<or> height j < height x) (Stack out) (Stack a)"
proof -
  obtain stk where j: "join_stack (Stack a) (Stack b) = Inr stk"
    and out: "out = a\<lparr>Locals := kill_halves None (join_locals (Locals a) (Locals b)), Stack := stk,
              ThisUninitialized := ThisUninitialized a \<or> ThisUninitialized b\<rparr>"
    and ok: "frame_ok a" "frame_ok b"
    and len: "length (Stack a) = length (Stack b)" "length (Locals a) = length (Locals b)"
    using assms(3) unfolding JoinFrames_Inr by blast
  have c: "list_all canonical (Locals a)" "list_all canonical (Locals b)"
    "list_all canonical (Stack a)" "list_all canonical (Stack b)"
    using assms(1,2) by (simp_all add: canonical_frame_def)
  note l = join_locals_descends [OF c(1,2) len(2)]
  note k = kill_halves_descends [OF conjunct1 [OF l], of None]
  have s: "list_all canonical stk \<and> list_all2 (\<lambda>j x. j = x \<or> height j < height x) stk (Stack a)"
    using join_stack_descends [OF c(3,4) _ _ len(1) j] ok by (simp add: frame_ok_iff)
  have "list_all2 (\<lambda>j x. j = x \<or> height j < height x)
      (kill_halves None (join_locals (Locals a) (Locals b))) (Locals a)"
    using descends_trans [OF conjunct2 [OF k] conjunct2 [OF l]] .
  then show ?thesis using k s by (simp add: out canonical_frame_def)
qed

lemma join_locals_absorbs:
  assumes "list_all canonical xs" and "list_all canonical ys" and "length xs = length ys"
    and "zs = kill_halves None (join_locals xs ys)"
  shows "join_locals zs xs = zs \<and> join_locals zs ys = zs"
proof -
  have le: "list_all2 (\<lambda>z j. z = j \<or> z = T TopK) (kill_halves prev js) js" for prev js
    by (induction prev js rule: kill_halves.induct) (auto simp: Let_def)
  have "list_all2 (\<lambda>z j. z = j \<or> z = T TopK) zs (join_locals xs ys)" unfolding assms(4) by (rule le)
  then have z: "length zs = length xs"
    "\<And>i. i < length xs \<Longrightarrow> zs ! i = T TopK \<or> JoinTypes (xs ! i) (ys ! i) = Some (zs ! i)"
    using assms(3) by (auto simp: join_locals_def list_all2_conv_all_nth split: option.splits)
  have "(case JoinTypes (zs ! i) (xs ! i) of None \<Rightarrow> T TopK | Some j \<Rightarrow> j) = zs ! i \<and>
      (case JoinTypes (zs ! i) (ys ! i) of None \<Rightarrow> T TopK | Some j \<Rightarrow> j) = zs ! i"
    if i: "i < length xs" for i
  proof -
    have c: "canonical (xs ! i)" "canonical (ys ! i)" using assms i by (simp_all add: list_all_length)
    from z(2) [OF i] show ?thesis
    proof
      assume "zs ! i = T TopK" then show ?thesis by simp
    next
      assume "JoinTypes (xs ! i) (ys ! i) = Some (zs ! i)"
      from JoinTypes_absorbs [OF c this] show ?thesis by simp
    qed
  qed
  then show ?thesis using z(1) assms(3) by (auto simp: join_locals_def intro!: nth_equalityI)
qed

lemma join_stack_absorbs:
  assumes "list_all canonical as" and "list_all canonical bs" and "wf_slots False as"
    and "wf_slots False bs" and "length as = length bs" and "join_stack as bs = Inr js"
  shows "join_stack js as = Inr js \<and> join_stack js bs = Inr js"
  using assms
proof (induction as bs arbitrary: js rule: join_stack.induct)
  case (1 a as b bs)
  from "1.prems"(6) obtain j where j: "JoinTypes a b = Some j" "Computational j"
    by (auto split: option.splits if_splits)
  note jc = JoinTypes_kinds [OF j]
  have ja: "JoinTypes j a = Some j \<and> JoinTypes j b = Some j"
    using JoinTypes_absorbs [OF _ _ j(1)] "1.prems"(1,2) by simp
  show ?case
  proof (cases "IsCat2Head (Kind j)")
    case True
    then obtain u us v vs where uv: "as = u # us" "bs = v # vs" "wf_slots False us" "wf_slots False vs"
      using "1.prems"(3,4) jc by (auto simp: wf_slots_Cons [of False a] wf_slots_Cons [of False b])
    from True j "1.prems"(6) uv obtain ks where "join_stack us vs = Inr ks" "js = j # TailOf j # ks"
      by auto
    moreover from this have "join_stack ks us = Inr ks \<and> join_stack ks vs = Inr ks"
      using "1.IH"(1) [OF j(1) _ True, of ks] j(2) uv "1.prems"(1,2,5) by simp
    ultimately show ?thesis using uv ja j(2) True by simp
  next
    case False
    then have w: "wf_slots False as" "wf_slots False bs"
      using "1.prems"(3,4) jc by (auto simp: wf_slots_Cons [of False a] wf_slots_Cons [of False b])
    from False j "1.prems"(6) obtain ks where "join_stack as bs = Inr ks" "js = j # ks" by auto
    moreover from this have "join_stack ks as = Inr ks \<and> join_stack ks bs = Inr ks"
      using "1.IH"(2) [OF j(1) _ False, of ks] j(2) w "1.prems"(1,2,5) by simp
    ultimately show ?thesis using ja j(2) False by simp
  qed
qed simp_all

section \<open>Properties of frames\<close>

text \<open>C15: joining two frames yields a valid frame of the same shape, whatever halves of pairs the
  merge of the locals broke.\<close>

theorem JoinFrames_valid:
  assumes "JoinFrames a b = Inr out"
  shows "Validate out = Inr () \<and> shape out = shape a"
  using JoinFrames_ok [OF assms] by (simp add: frame_ok_def is_ok_iff)

definition two_longs :: frame where
  "two_longs = (NewFrame 3)\<lparr>Locals := [T LongK, T LongTailK, T IntK], Stack := [T NullK]\<rparr>"

definition shifted_longs :: frame where
  "shifted_longs = (NewFrame 3)\<lparr>Locals := [T IntK, T LongK, T LongTailK], Stack := [RefOf ''A'']\<rparr>"

theorem JoinFrames_valid_witness:
  "JoinFrames two_longs shifted_longs =
     Inr ((NewFrame 3)\<lparr>Locals := [T TopK, T TopK, T TopK], Stack := [RefOf ''A'']\<rparr>) \<and>
   Validate ((NewFrame 3)\<lparr>Locals := [T TopK, T TopK, T TopK], Stack := [RefOf ''A'']\<rparr>) = Inr ()"
proof -
  have j: "JoinFrames two_longs shifted_longs =
     Inr ((NewFrame 3)\<lparr>Locals := [T TopK, T TopK, T TopK], Stack := [RefOf ''A'']\<rparr>)"
    by code_simp
  from JoinFrames_valid [OF this] j show ?thesis by simp
qed





end
