(* ===== verification/Opcodes.thy ===== *)
theory Opcodes
  imports Prelude
begin

text \<open>
  The instruction numbers of \<open>classparser/decompiler/core/instruction.go\<close> (the \<open>const\<close>
  block, in its order; a Go \<open>int\<close> is an \<open>int\<close>), \<open>MayThrowOpcode\<close> of
  \<open>semantic_cfg.go\<close>, and the local-variable accesses of \<open>utils.go\<close>: the table of 256
  entries is the function that its initialisation computes.
\<close>

section \<open>The opcodes\<close>

abbreviation (input) OP_DALOAD :: int where "OP_DALOAD \<equiv> 0x31"
abbreviation (input) OP_ICONST_1 :: int where "OP_ICONST_1 \<equiv> 0x4"
abbreviation (input) OP_ILOAD :: int where "OP_ILOAD \<equiv> 0x15"
abbreviation (input) OP_RET :: int where "OP_RET \<equiv> 0xa9"
abbreviation (input) OP_IFNONNULL :: int where "OP_IFNONNULL \<equiv> 0xc7"
abbreviation (input) OP_FSTORE_0 :: int where "OP_FSTORE_0 \<equiv> 0x43"
abbreviation (input) OP_DDIV :: int where "OP_DDIV \<equiv> 0x6f"
abbreviation (input) OP_ARRAYLENGTH :: int where "OP_ARRAYLENGTH \<equiv> 0xbe"
abbreviation (input) OP_LSUB :: int where "OP_LSUB \<equiv> 0x65"
abbreviation (input) OP_PUTFIELD :: int where "OP_PUTFIELD \<equiv> 0xb5"
abbreviation (input) OP_IXOR :: int where "OP_IXOR \<equiv> 0x82"
abbreviation (input) OP_NOP :: int where "OP_NOP \<equiv> 0x0"
abbreviation (input) OP_ALOAD_0 :: int where "OP_ALOAD_0 \<equiv> 0x2a"
abbreviation (input) OP_INVOKESTATIC :: int where "OP_INVOKESTATIC \<equiv> 0xb8"
abbreviation (input) OP_L2D :: int where "OP_L2D \<equiv> 0x8a"
abbreviation (input) OP_FCONST_1 :: int where "OP_FCONST_1 \<equiv> 0xc"
abbreviation (input) OP_LDC_W :: int where "OP_LDC_W \<equiv> 0x13"
abbreviation (input) OP_ISTORE_3 :: int where "OP_ISTORE_3 \<equiv> 0x3e"
abbreviation (input) OP_ISTORE :: int where "OP_ISTORE \<equiv> 0x36"
abbreviation (input) OP_LAND :: int where "OP_LAND \<equiv> 0x7f"
abbreviation (input) OP_ASTORE_0 :: int where "OP_ASTORE_0 \<equiv> 0x4b"
abbreviation (input) OP_FALOAD :: int where "OP_FALOAD \<equiv> 0x30"
abbreviation (input) OP_I2D :: int where "OP_I2D \<equiv> 0x87"
abbreviation (input) OP_ICONST_5 :: int where "OP_ICONST_5 \<equiv> 0x8"
abbreviation (input) OP_FDIV :: int where "OP_FDIV \<equiv> 0x6e"
abbreviation (input) OP_LMUL :: int where "OP_LMUL \<equiv> 0x69"
abbreviation (input) OP_ANEWARRAY :: int where "OP_ANEWARRAY \<equiv> 0xbd"
abbreviation (input) OP_SIPUSH :: int where "OP_SIPUSH \<equiv> 0x11"
abbreviation (input) OP_FREM :: int where "OP_FREM \<equiv> 0x72"
abbreviation (input) OP_IADD :: int where "OP_IADD \<equiv> 0x60"
abbreviation (input) OP_LLOAD :: int where "OP_LLOAD \<equiv> 0x16"
abbreviation (input) OP_DLOAD_2 :: int where "OP_DLOAD_2 \<equiv> 0x28"
abbreviation (input) OP_LOOKUPSWITCH :: int where "OP_LOOKUPSWITCH \<equiv> 0xab"
abbreviation (input) OP_ISTORE_2 :: int where "OP_ISTORE_2 \<equiv> 0x3d"
abbreviation (input) OP_LADD :: int where "OP_LADD \<equiv> 0x61"
abbreviation (input) OP_SALOAD :: int where "OP_SALOAD \<equiv> 0x35"
abbreviation (input) OP_ALOAD :: int where "OP_ALOAD \<equiv> 0x19"
abbreviation (input) OP_GETFIELD :: int where "OP_GETFIELD \<equiv> 0xb4"
abbreviation (input) OP_LCMP :: int where "OP_LCMP \<equiv> 0x94"
abbreviation (input) OP_LDC2_W :: int where "OP_LDC2_W \<equiv> 0x14"
abbreviation (input) OP_IF_ICMPGE :: int where "OP_IF_ICMPGE \<equiv> 0xa2"
abbreviation (input) OP_JSR_W :: int where "OP_JSR_W \<equiv> 0xc9"
abbreviation (input) OP_ILOAD_2 :: int where "OP_ILOAD_2 \<equiv> 0x1c"
abbreviation (input) OP_D2F :: int where "OP_D2F \<equiv> 0x90"
abbreviation (input) OP_CHECKCAST :: int where "OP_CHECKCAST \<equiv> 0xc0"
abbreviation (input) OP_FCONST_2 :: int where "OP_FCONST_2 \<equiv> 0xd"
abbreviation (input) OP_LALOAD :: int where "OP_LALOAD \<equiv> 0x2f"
abbreviation (input) OP_DNEG :: int where "OP_DNEG \<equiv> 0x77"
abbreviation (input) OP_LLOAD_1 :: int where "OP_LLOAD_1 \<equiv> 0x1f"
abbreviation (input) OP_DSUB :: int where "OP_DSUB \<equiv> 0x67"
abbreviation (input) OP_DREM :: int where "OP_DREM \<equiv> 0x73"
abbreviation (input) OP_DSTORE_3 :: int where "OP_DSTORE_3 \<equiv> 0x4a"
abbreviation (input) OP_ISTORE_1 :: int where "OP_ISTORE_1 \<equiv> 0x3c"
abbreviation (input) OP_I2S :: int where "OP_I2S \<equiv> 0x93"
abbreviation (input) OP_IMUL :: int where "OP_IMUL \<equiv> 0x68"
abbreviation (input) OP_GETSTATIC :: int where "OP_GETSTATIC \<equiv> 0xb2"
abbreviation (input) OP_ISTORE_0 :: int where "OP_ISTORE_0 \<equiv> 0x3b"
abbreviation (input) OP_DUP2_X1 :: int where "OP_DUP2_X1 \<equiv> 0x5d"
abbreviation (input) OP_FSTORE_2 :: int where "OP_FSTORE_2 \<equiv> 0x45"
abbreviation (input) OP_ICONST_0 :: int where "OP_ICONST_0 \<equiv> 0x3"
abbreviation (input) OP_GOTO :: int where "OP_GOTO \<equiv> 0xa7"
abbreviation (input) OP_IOR :: int where "OP_IOR \<equiv> 0x80"
abbreviation (input) OP_DUP :: int where "OP_DUP \<equiv> 0x59"
abbreviation (input) OP_ACONST_NULL :: int where "OP_ACONST_NULL \<equiv> 0x1"
abbreviation (input) OP_IFNE :: int where "OP_IFNE \<equiv> 0x9a"
abbreviation (input) OP_ALOAD_1 :: int where "OP_ALOAD_1 \<equiv> 0x2b"
abbreviation (input) OP_NEW :: int where "OP_NEW \<equiv> 0xbb"
abbreviation (input) OP_IDIV :: int where "OP_IDIV \<equiv> 0x6c"
abbreviation (input) OP_DADD :: int where "OP_DADD \<equiv> 0x63"
abbreviation (input) OP_ARETURN :: int where "OP_ARETURN \<equiv> 0xb0"
abbreviation (input) OP_LSHR :: int where "OP_LSHR \<equiv> 0x7b"
abbreviation (input) OP_DCMPL :: int where "OP_DCMPL \<equiv> 0x97"
abbreviation (input) OP_L2F :: int where "OP_L2F \<equiv> 0x89"
abbreviation (input) OP_AALOAD :: int where "OP_AALOAD \<equiv> 0x32"
abbreviation (input) OP_IUSHR :: int where "OP_IUSHR \<equiv> 0x7c"
abbreviation (input) OP_MULTIANEWARRAY :: int where "OP_MULTIANEWARRAY \<equiv> 0xc5"
abbreviation (input) OP_DSTORE_0 :: int where "OP_DSTORE_0 \<equiv> 0x47"
abbreviation (input) OP_SWAP :: int where "OP_SWAP \<equiv> 0x5f"
abbreviation (input) OP_I2L :: int where "OP_I2L \<equiv> 0x85"
abbreviation (input) OP_FLOAD_3 :: int where "OP_FLOAD_3 \<equiv> 0x25"
abbreviation (input) OP_IFNULL :: int where "OP_IFNULL \<equiv> 0xc6"
abbreviation (input) OP_I2F :: int where "OP_I2F \<equiv> 0x86"
abbreviation (input) OP_LSTORE_3 :: int where "OP_LSTORE_3 \<equiv> 0x42"
abbreviation (input) OP_IFEQ :: int where "OP_IFEQ \<equiv> 0x99"
abbreviation (input) OP_WIDE :: int where "OP_WIDE \<equiv> 0xc4"
abbreviation (input) OP_IAND :: int where "OP_IAND \<equiv> 0x7e"
abbreviation (input) OP_GOTO_W :: int where "OP_GOTO_W \<equiv> 0xc8"
abbreviation (input) OP_LASTORE :: int where "OP_LASTORE \<equiv> 0x50"
abbreviation (input) OP_DMUL :: int where "OP_DMUL \<equiv> 0x6b"
abbreviation (input) OP_F2D :: int where "OP_F2D \<equiv> 0x8d"
abbreviation (input) OP_FNEG :: int where "OP_FNEG \<equiv> 0x76"
abbreviation (input) OP_TABLESWITCH :: int where "OP_TABLESWITCH \<equiv> 0xaa"
abbreviation (input) OP_IFLE :: int where "OP_IFLE \<equiv> 0x9e"
abbreviation (input) OP_MONITOREXIT :: int where "OP_MONITOREXIT \<equiv> 0xc3"
abbreviation (input) OP_IREM :: int where "OP_IREM \<equiv> 0x70"
abbreviation (input) OP_LSHL :: int where "OP_LSHL \<equiv> 0x79"
abbreviation (input) OP_FSTORE_1 :: int where "OP_FSTORE_1 \<equiv> 0x44"
abbreviation (input) OP_LSTORE :: int where "OP_LSTORE \<equiv> 0x37"
abbreviation (input) OP_LRETURN :: int where "OP_LRETURN \<equiv> 0xad"
abbreviation (input) OP_FSTORE :: int where "OP_FSTORE \<equiv> 0x38"
abbreviation (input) OP_BALOAD :: int where "OP_BALOAD \<equiv> 0x33"
abbreviation (input) OP_ILOAD_0 :: int where "OP_ILOAD_0 \<equiv> 0x1a"
abbreviation (input) OP_DUP2 :: int where "OP_DUP2 \<equiv> 0x5c"
abbreviation (input) OP_NEWARRAY :: int where "OP_NEWARRAY \<equiv> 0xbc"
abbreviation (input) OP_DUP2_X2 :: int where "OP_DUP2_X2 \<equiv> 0x5e"
abbreviation (input) OP_DSTORE_1 :: int where "OP_DSTORE_1 \<equiv> 0x48"
abbreviation (input) OP_LSTORE_2 :: int where "OP_LSTORE_2 \<equiv> 0x41"
abbreviation (input) OP_IFGE :: int where "OP_IFGE \<equiv> 0x9c"
abbreviation (input) OP_IF_ICMPEQ :: int where "OP_IF_ICMPEQ \<equiv> 0x9f"
abbreviation (input) OP_POP :: int where "OP_POP \<equiv> 0x57"
abbreviation (input) OP_DLOAD_0 :: int where "OP_DLOAD_0 \<equiv> 0x26"
abbreviation (input) OP_FMUL :: int where "OP_FMUL \<equiv> 0x6a"
abbreviation (input) OP_LSTORE_0 :: int where "OP_LSTORE_0 \<equiv> 0x3f"
abbreviation (input) OP_LLOAD_0 :: int where "OP_LLOAD_0 \<equiv> 0x1e"
abbreviation (input) OP_DLOAD_1 :: int where "OP_DLOAD_1 \<equiv> 0x27"
abbreviation (input) OP_LCONST_1 :: int where "OP_LCONST_1 \<equiv> 0xa"
abbreviation (input) OP_CASTORE :: int where "OP_CASTORE \<equiv> 0x55"
abbreviation (input) OP_LNEG :: int where "OP_LNEG \<equiv> 0x75"
abbreviation (input) OP_LCONST_0 :: int where "OP_LCONST_0 \<equiv> 0x9"
abbreviation (input) OP_JSR :: int where "OP_JSR \<equiv> 0xa8"
abbreviation (input) OP_CALOAD :: int where "OP_CALOAD \<equiv> 0x34"
abbreviation (input) OP_IASTORE :: int where "OP_IASTORE \<equiv> 0x4f"
abbreviation (input) OP_LDC :: int where "OP_LDC \<equiv> 0x12"
abbreviation (input) OP_IINC :: int where "OP_IINC \<equiv> 0x84"
abbreviation (input) OP_FLOAD_0 :: int where "OP_FLOAD_0 \<equiv> 0x22"
abbreviation (input) OP_DLOAD_3 :: int where "OP_DLOAD_3 \<equiv> 0x29"
abbreviation (input) OP_ASTORE_2 :: int where "OP_ASTORE_2 \<equiv> 0x4d"
abbreviation (input) OP_F2I :: int where "OP_F2I \<equiv> 0x8b"
abbreviation (input) OP_ICONST_M1 :: int where "OP_ICONST_M1 \<equiv> 0x2"
abbreviation (input) OP_ISHR :: int where "OP_ISHR \<equiv> 0x7a"
abbreviation (input) OP_I2B :: int where "OP_I2B \<equiv> 0x91"
abbreviation (input) OP_FSUB :: int where "OP_FSUB \<equiv> 0x66"
abbreviation (input) OP_ASTORE_1 :: int where "OP_ASTORE_1 \<equiv> 0x4c"
abbreviation (input) OP_ICONST_3 :: int where "OP_ICONST_3 \<equiv> 0x6"
abbreviation (input) OP_IRETURN :: int where "OP_IRETURN \<equiv> 0xac"
abbreviation (input) OP_DCONST_0 :: int where "OP_DCONST_0 \<equiv> 0xe"
abbreviation (input) OP_DASTORE :: int where "OP_DASTORE \<equiv> 0x52"
abbreviation (input) OP_FASTORE :: int where "OP_FASTORE \<equiv> 0x51"
abbreviation (input) OP_FCMPL :: int where "OP_FCMPL \<equiv> 0x95"
abbreviation (input) OP_FCONST_0 :: int where "OP_FCONST_0 \<equiv> 0xb"
abbreviation (input) OP_F2L :: int where "OP_F2L \<equiv> 0x8c"
abbreviation (input) OP_IFLT :: int where "OP_IFLT \<equiv> 0x9b"
abbreviation (input) OP_LSTORE_1 :: int where "OP_LSTORE_1 \<equiv> 0x40"
abbreviation (input) OP_IF_ACMPEQ :: int where "OP_IF_ACMPEQ \<equiv> 0xa5"
abbreviation (input) OP_IF_ICMPGT :: int where "OP_IF_ICMPGT \<equiv> 0xa3"
abbreviation (input) OP_FSTORE_3 :: int where "OP_FSTORE_3 \<equiv> 0x46"
abbreviation (input) OP_RETURN :: int where "OP_RETURN \<equiv> 0xb1"
abbreviation (input) OP_BASTORE :: int where "OP_BASTORE \<equiv> 0x54"
abbreviation (input) OP_SASTORE :: int where "OP_SASTORE \<equiv> 0x56"
abbreviation (input) OP_DLOAD :: int where "OP_DLOAD \<equiv> 0x18"
abbreviation (input) OP_LLOAD_2 :: int where "OP_LLOAD_2 \<equiv> 0x20"
abbreviation (input) OP_LREM :: int where "OP_LREM \<equiv> 0x71"
abbreviation (input) OP_DCONST_1 :: int where "OP_DCONST_1 \<equiv> 0xf"
abbreviation (input) OP_ICONST_2 :: int where "OP_ICONST_2 \<equiv> 0x5"
abbreviation (input) OP_IF_ICMPLE :: int where "OP_IF_ICMPLE \<equiv> 0xa4"
abbreviation (input) OP_DSTORE :: int where "OP_DSTORE \<equiv> 0x39"
abbreviation (input) OP_ICONST_4 :: int where "OP_ICONST_4 \<equiv> 0x7"
abbreviation (input) OP_LDIV :: int where "OP_LDIV \<equiv> 0x6d"
abbreviation (input) OP_LOR :: int where "OP_LOR \<equiv> 0x81"
abbreviation (input) OP_DSTORE_2 :: int where "OP_DSTORE_2 \<equiv> 0x49"
abbreviation (input) OP_INVOKEINTERFACE :: int where "OP_INVOKEINTERFACE \<equiv> 0xb9"
abbreviation (input) OP_LXOR :: int where "OP_LXOR \<equiv> 0x83"
abbreviation (input) OP_DUP_X1 :: int where "OP_DUP_X1 \<equiv> 0x5a"
abbreviation (input) OP_DRETURN :: int where "OP_DRETURN \<equiv> 0xaf"
abbreviation (input) OP_FRETURN :: int where "OP_FRETURN \<equiv> 0xae"
abbreviation (input) OP_FCMPG :: int where "OP_FCMPG \<equiv> 0x96"
abbreviation (input) OP_DCMPG :: int where "OP_DCMPG \<equiv> 0x98"
abbreviation (input) OP_INVOKESPECIAL :: int where "OP_INVOKESPECIAL \<equiv> 0xb7"
abbreviation (input) OP_L2I :: int where "OP_L2I \<equiv> 0x88"
abbreviation (input) OP_PUTSTATIC :: int where "OP_PUTSTATIC \<equiv> 0xb3"
abbreviation (input) OP_ASTORE_3 :: int where "OP_ASTORE_3 \<equiv> 0x4e"
abbreviation (input) OP_DUP_X2 :: int where "OP_DUP_X2 \<equiv> 0x5b"
abbreviation (input) OP_IF_ICMPNE :: int where "OP_IF_ICMPNE \<equiv> 0xa0"
abbreviation (input) OP_ILOAD_3 :: int where "OP_ILOAD_3 \<equiv> 0x1d"
abbreviation (input) OP_FLOAD :: int where "OP_FLOAD \<equiv> 0x17"
abbreviation (input) OP_IF_ICMPLT :: int where "OP_IF_ICMPLT \<equiv> 0xa1"
abbreviation (input) OP_LUSHR :: int where "OP_LUSHR \<equiv> 0x7d"
abbreviation (input) OP_ILOAD_1 :: int where "OP_ILOAD_1 \<equiv> 0x1b"
abbreviation (input) OP_AASTORE :: int where "OP_AASTORE \<equiv> 0x53"
abbreviation (input) OP_MONITORENTER :: int where "OP_MONITORENTER \<equiv> 0xc2"
abbreviation (input) OP_ALOAD_2 :: int where "OP_ALOAD_2 \<equiv> 0x2c"
abbreviation (input) OP_ASTORE :: int where "OP_ASTORE \<equiv> 0x3a"
abbreviation (input) OP_INEG :: int where "OP_INEG \<equiv> 0x74"
abbreviation (input) OP_POP2 :: int where "OP_POP2 \<equiv> 0x58"
abbreviation (input) OP_FLOAD_1 :: int where "OP_FLOAD_1 \<equiv> 0x23"
abbreviation (input) OP_INVOKEDYNAMIC :: int where "OP_INVOKEDYNAMIC \<equiv> 0xba"
abbreviation (input) OP_I2C :: int where "OP_I2C \<equiv> 0x92"
abbreviation (input) OP_INSTANCEOF :: int where "OP_INSTANCEOF \<equiv> 0xc1"
abbreviation (input) OP_FLOAD_2 :: int where "OP_FLOAD_2 \<equiv> 0x24"
abbreviation (input) OP_IF_ACMPNE :: int where "OP_IF_ACMPNE \<equiv> 0xa6"
abbreviation (input) OP_ALOAD_3 :: int where "OP_ALOAD_3 \<equiv> 0x2d"
abbreviation (input) OP_BIPUSH :: int where "OP_BIPUSH \<equiv> 0x10"
abbreviation (input) OP_D2I :: int where "OP_D2I \<equiv> 0x8e"
abbreviation (input) OP_D2L :: int where "OP_D2L \<equiv> 0x8f"
abbreviation (input) OP_IFGT :: int where "OP_IFGT \<equiv> 0x9d"
abbreviation (input) OP_ISUB :: int where "OP_ISUB \<equiv> 0x64"
abbreviation (input) OP_LLOAD_3 :: int where "OP_LLOAD_3 \<equiv> 0x21"
abbreviation (input) OP_ISHL :: int where "OP_ISHL \<equiv> 0x78"
abbreviation (input) OP_FADD :: int where "OP_FADD \<equiv> 0x62"
abbreviation (input) OP_INVOKEVIRTUAL :: int where "OP_INVOKEVIRTUAL \<equiv> 0xb6"
abbreviation (input) OP_ATHROW :: int where "OP_ATHROW \<equiv> 0xbf"
abbreviation (input) OP_IALOAD :: int where "OP_IALOAD \<equiv> 0x2e"
abbreviation (input) OP_END :: int where "OP_END \<equiv> 0xff"
abbreviation (input) OP_TRY_CATCH :: int where "OP_TRY_CATCH \<equiv> 0xfe"
abbreviation (input) OP_START :: int where "OP_START \<equiv> 0xfd"

section \<open>Instructions that may throw\<close>

definition MayThrowOpcode :: "int \<Rightarrow> bool" where
  "MayThrowOpcode op \<longleftrightarrow> op \<in> set
    [OP_IDIV, OP_LDIV, OP_IREM, OP_LREM, OP_ATHROW, OP_IALOAD, OP_LALOAD, OP_FALOAD, OP_DALOAD,
     OP_AALOAD, OP_BALOAD, OP_CALOAD, OP_SALOAD, OP_IASTORE, OP_LASTORE, OP_FASTORE,
     OP_DASTORE, OP_AASTORE, OP_BASTORE, OP_CASTORE, OP_SASTORE, OP_GETFIELD, OP_PUTFIELD,
     OP_GETSTATIC, OP_PUTSTATIC, OP_INVOKEVIRTUAL, OP_INVOKESPECIAL, OP_INVOKESTATIC,
     OP_INVOKEINTERFACE, OP_INVOKEDYNAMIC, OP_NEW, OP_NEWARRAY, OP_ANEWARRAY,
     OP_MULTIANEWARRAY, OP_ARRAYLENGTH, OP_CHECKCAST, OP_INSTANCEOF, OP_MONITORENTER,
     OP_MONITOREXIT, OP_LDC, OP_LDC_W, OP_LDC2_W]"

section \<open>Local accesses\<close>

record LocalAccess =
  Read :: bool
  Write :: bool
  Slot :: int
  Width :: int
  Wide :: bool

definition no_access :: LocalAccess where
  "no_access = \<lparr>Read = False, Write = False, Slot = 0, Width = 0, Wide = False\<rparr>"

text \<open>The entries that one round of the outer loop writes, and the table they make.\<close>

definition category_entries :: "nat \<times> int \<Rightarrow> (int \<times> LocalAccess) list" where
  "category_entries = (\<lambda>(category, base).
     let width = (if category = 1 \<or> category = 3 then 2 else 1) in
     [(base, \<lparr>Read = True, Write = False, Slot = -1, Width = width, Wide = True\<rparr>),
      (OP_ISTORE + int category, \<lparr>Read = False, Write = True, Slot = -1, Width = width, Wide = True\<rparr>)] @
     concat (map (\<lambda>slot.
        [(OP_ILOAD_0 + int category * 4 + slot,
            \<lparr>Read = True, Write = False, Slot = slot, Width = width, Wide = False\<rparr>),
         (OP_ISTORE_0 + int category * 4 + slot,
            \<lparr>Read = False, Write = True, Slot = slot, Width = width, Wide = False\<rparr>)])
        [0, 1, 2, 3]))"

definition access_entries :: "(int \<times> LocalAccess) list" where
  "access_entries =
     concat (map category_entries
       [(0, OP_ILOAD), (1, OP_LLOAD), (2, OP_FLOAD), (3, OP_DLOAD), (4, OP_ALOAD)]) @
     [(OP_IINC, \<lparr>Read = True, Write = True, Slot = -1, Width = 1, Wide = True\<rparr>),
      (OP_RET, \<lparr>Read = True, Write = False, Slot = -1, Width = 1, Wide = True\<rparr>)]"

text \<open>A later write to an entry wins.\<close>

definition localAccessTable :: "int \<rightharpoonup> LocalAccess" where
  "localAccessTable = map_of (rev access_entries)"

definition LocalAccessOf :: "int \<Rightarrow> LocalAccess" where
  "LocalAccessOf opcode =
     (if opcode < 0 \<or> opcode \<ge> 256 then no_access
      else case localAccessTable opcode of None \<Rightarrow> no_access | Some a \<Rightarrow> a)"

text \<open>
  An \<open>OpCode\<close> node as \<open>localSlot\<close> reads it: the opcode number of its instruction
  (\<open>None\<close> for a nil node or a nil \<open>Instr\<close>), the wide flag and the operand bytes.
\<close>

record OpCode =
  Instr_OpCode :: int
  Data :: "u8 list"
  IsWide :: bool

fun localSlot :: "OpCode option \<Rightarrow> bool \<Rightarrow> int" where
  "localSlot None rd = -1"
| "localSlot (Some code) rd =
     (let access = LocalAccessOf (Instr_OpCode code) in
      if (rd \<and> \<not> Read access) \<or> (\<not> rd \<and> \<not> Write access) then -1
      else if IsWide code then
        (case Data code of
           hi # lo # _ \<Rightarrow> if \<not> Wide access then -1 else int (unat hi) * 256 + int (unat lo)
         | _ \<Rightarrow> -1)
      else if Slot access \<ge> 0 then Slot access
      else (case Data code of [] \<Rightarrow> -1 | b # _ \<Rightarrow> int (unat b)))"

definition GetRetrieveIdx :: "OpCode option \<Rightarrow> int" where
  "GetRetrieveIdx code = localSlot code True"

definition GetStoreIdx :: "OpCode option \<Rightarrow> int" where
  "GetStoreIdx code = localSlot code False"


section \<open>The table is the layout of the JVM\<close>

text \<open>What the JVM's opcode layout says a local access is.\<close>

definition category_width :: "int \<Rightarrow> int" where
  "category_width c = (if c = 1 \<or> c = 3 then 2 else 1)"

definition expected_access :: "int \<Rightarrow> LocalAccess" where
  "expected_access op =
     (if 0x15 \<le> op \<and> op \<le> 0x19 then
        \<lparr>Read = True, Write = False, Slot = -1, Width = category_width (op - 0x15), Wide = True\<rparr>
      else if 0x1a \<le> op \<and> op \<le> 0x2d then
        \<lparr>Read = True, Write = False, Slot = (op - 0x1a) mod 4,
         Width = category_width ((op - 0x1a) div 4), Wide = False\<rparr>
      else if 0x36 \<le> op \<and> op \<le> 0x3a then
        \<lparr>Read = False, Write = True, Slot = -1, Width = category_width (op - 0x36), Wide = True\<rparr>
      else if 0x3b \<le> op \<and> op \<le> 0x4e then
        \<lparr>Read = False, Write = True, Slot = (op - 0x3b) mod 4,
         Width = category_width ((op - 0x3b) div 4), Wide = False\<rparr>
      else if op = 0x84 then \<lparr>Read = True, Write = True, Slot = -1, Width = 1, Wide = True\<rparr>
      else if op = 0xa9 then \<lparr>Read = True, Write = False, Slot = -1, Width = 1, Wide = True\<rparr>
      else no_access)"

lemma entries_expected: "\<forall>(k, a)\<in>set access_entries. a = expected_access k \<and> 0 \<le> k \<and> k < 256"
  by (simp add: access_entries_def category_entries_def expected_access_def category_width_def)

lemma entries_complete:
  "expected_access op \<noteq> no_access \<Longrightarrow> op \<in> fst ` set access_entries"
proof -
  assume "expected_access op \<noteq> no_access"
  then have "op \<in> {0x15..0x2d} \<union> {0x36..0x4e} \<union> {0x84, 0xa9}"
    by (simp add: expected_access_def split: if_splits)
  then have "op \<in> set ([0x15..0x2d] @ [0x36..0x4e] @ [0x84, 0xa9])"
    by (simp only: set_append set_upto Un_assoc list.set)
  moreover have "set ([0x15..0x2d] @ [0x36..0x4e] @ [0x84, 0xa9]) \<subseteq> fst ` set access_entries"
    by (simp add: upto.simps access_entries_def category_entries_def)
  ultimately show ?thesis by blast
qed

lemma LocalAccessOf_eq: "LocalAccessOf op = expected_access op"
proof (cases "localAccessTable op")
  case None
  then have "op \<notin> fst ` set access_entries"
    by (simp add: localAccessTable_def map_of_eq_None_iff)
  then have "expected_access op = no_access" using entries_complete by blast
  then show ?thesis using None by (simp add: LocalAccessOf_def)
next
  case (Some a)
  then have "(op, a) \<in> set access_entries"
    unfolding localAccessTable_def by (metis map_of_SomeD set_rev)
  then show ?thesis using Some entries_expected by (auto simp: LocalAccessOf_def)
qed

text \<open>Which opcodes read and write a local.\<close>

lemma access_flags:
  "Read (LocalAccessOf op) \<longleftrightarrow> 0x15 \<le> op \<and> op \<le> 0x2d \<or> op = 0x84 \<or> op = 0xa9"
  "Write (LocalAccessOf op) \<longleftrightarrow> 0x36 \<le> op \<and> op \<le> 0x4e \<or> op = 0x84"
  by (auto simp: LocalAccessOf_eq expected_access_def no_access_def)

text \<open>The computed table is the JVM's: for every opcode, \<open>LocalAccessOf\<close> is the access that
  the layout of the load and store ranges gives (category, slot and width), and nothing outside.\<close>

theorem LocalAccessOf_layout: "LocalAccessOf op = expected_access op"
  by (rule LocalAccessOf_eq)

end
