(* ===== verification/FrameDup.thy ===== *)
theory FrameDup
  imports Frame Opcodes
begin

text \<open>
  \<open>core/frametransfer/dup.go\<close>: the stack-move instructions, over the slots of the frame. The
  locale \<open>operand_stack\<close> states what a client of the operand stack relies on; it is interpreted
  on \<open>push\<close> and \<open>popValue\<close>, and through it every instruction of the family is shown to move
  values as the JVM specification says, form by form.
\<close>

section \<open>The code\<close>

record stackVal =
  v :: ftype
  width :: nat

definition topSlot :: "frame \<Rightarrow> ftype" where
  "topSlot f = last (Stack f)"

text \<open>One round of the loop of \<open>popNComputational\<close>, and the loop, from the top down.\<close>

definition pop_one :: "stackVal action" where
  "pop_one = with_frame (\<lambda>f.
     if Stack f = [] then fail (invalidf ''stack underflow'')
     else if IsTail (Kind (topSlot f)) then
       bind_act popValue (\<lambda>t. ret \<lparr>v = t, width = 2\<rparr>)
     else if IsCat2Head (Kind (topSlot f)) then fail (invalidf ''category-2 head on top'')
     else if Kind (topSlot f) = TopK then fail (invalidf ''top on stack'')
     else bind_act popValue (\<lambda>t. ret \<lparr>v = t, width = 1\<rparr>))"

fun popNComputational :: "nat \<Rightarrow> stackVal list action" where
  "popNComputational 0 = ret []"
| "popNComputational (Suc n) =
     bind_act pop_one (\<lambda>x. bind_act (popNComputational n) (\<lambda>out. ret (out @ [x])))"

fun pushVals :: "stackVal list \<Rightarrow> unit action" where
  "pushVals [] = ret ()"
| "pushVals (x # vs) = then_act (push (v x)) (pushVals vs)"

definition dup_OP_DUP :: "unit action" where
  "dup_OP_DUP = bind_act (popNComputational 1) (\<lambda>vs.
     if width (vs ! 0) \<noteq> 1 then fail (invalidf ''dup requires category-1'')
     else pushVals [vs ! 0, vs ! 0])"

definition dup_OP_DUP_X1 :: "unit action" where
  "dup_OP_DUP_X1 = bind_act (popNComputational 2) (\<lambda>vs.
     if width (vs ! 0) \<noteq> 1 \<or> width (vs ! 1) \<noteq> 1
     then fail (invalidf ''dup_x1 requires two category-1 values'')
     else pushVals [vs ! 1, vs ! 0, vs ! 1])"

definition dup_OP_DUP_X2 :: "unit action" where
  "dup_OP_DUP_X2 = bind_act (popNComputational 2) (\<lambda>vs.
     if width (vs ! 1) \<noteq> 1 then fail (invalidf ''dup_x2 requires category-1 top'')
     else if width (vs ! 0) = 2 then pushVals [vs ! 1, vs ! 0, vs ! 1]
     else bind_act (popNComputational 1) (\<lambda>vs3.
       if width (vs3 ! 0) \<noteq> 1
       then fail (invalidf ''dup_x2 form1 requires three category-1 values'')
       else pushVals [vs ! 1, vs3 ! 0, vs ! 0, vs ! 1]))"

definition dup_OP_DUP2 :: "unit action" where
  "dup_OP_DUP2 = with_frame (\<lambda>f.
     if Stack f = [] then fail (invalidf ''stack underflow'')
     else if IsTail (Kind (topSlot f)) then
       bind_act (popNComputational 1) (\<lambda>vs.
         if width (vs ! 0) \<noteq> 2 then fail (invalidf ''dup2 form2 requires category-2'')
         else pushVals [vs ! 0, vs ! 0])
     else bind_act (popNComputational 2) (\<lambda>vs.
       if width (vs ! 0) \<noteq> 1 \<or> width (vs ! 1) \<noteq> 1
       then fail (invalidf ''dup2 form1 requires two category-1 values'')
       else pushVals [vs ! 0, vs ! 1, vs ! 0, vs ! 1]))"

definition dup_OP_DUP2_X1 :: "unit action" where
  "dup_OP_DUP2_X1 = with_frame (\<lambda>f.
     if Stack f = [] then fail (invalidf ''stack underflow'')
     else if IsTail (Kind (topSlot f)) then
       bind_act (popNComputational 2) (\<lambda>vs.
         if width (vs ! 1) \<noteq> 2 \<or> width (vs ! 0) \<noteq> 1
         then fail (invalidf ''dup2_x1 form2 requires cat2 under cat1'')
         else pushVals [vs ! 1, vs ! 0, vs ! 1])
     else bind_act (popNComputational 3) (\<lambda>vs.
       if width (vs ! 0) \<noteq> 1 \<or> width (vs ! 1) \<noteq> 1 \<or> width (vs ! 2) \<noteq> 1
       then fail (invalidf ''dup2_x1 form1 requires three category-1 values'')
       else pushVals [vs ! 1, vs ! 2, vs ! 0, vs ! 1, vs ! 2]))"

definition dup2_x2_cat2 :: "unit action" where
  "dup2_x2_cat2 = bind_act (popNComputational 1) (\<lambda>v1.
     if width (v1 ! 0) \<noteq> 2 then fail (invalidf ''dup2_x2 top must be category-2'')
     else with_frame (\<lambda>f.
       if Stack f = [] then fail (invalidf ''stack underflow'')
       else if IsTail (Kind (topSlot f)) then
         bind_act (popNComputational 1) (\<lambda>v2.
           if width (v2 ! 0) \<noteq> 2
           then fail (invalidf ''dup2_x2 form4 requires two category-2 values'')
           else pushVals [v1 ! 0, v2 ! 0, v1 ! 0])
       else bind_act (popNComputational 2) (\<lambda>v2.
         if width (v2 ! 0) \<noteq> 1 \<or> width (v2 ! 1) \<noteq> 1
         then fail (invalidf ''dup2_x2 form2 requires cat2 then two cat1'')
         else pushVals [v1 ! 0, v2 ! 0, v2 ! 1, v1 ! 0])))"

definition dup2_x2_cat1 :: "unit action" where
  "dup2_x2_cat1 = bind_act (popNComputational 2) (\<lambda>v1.
     if width (v1 ! 0) \<noteq> 1 \<or> width (v1 ! 1) \<noteq> 1
     then fail (invalidf ''dup2_x2 form1/3 top pair must be category-1'')
     else with_frame (\<lambda>f.
       if Stack f = [] then fail (invalidf ''stack underflow'')
       else if IsTail (Kind (topSlot f)) then
         bind_act (popNComputational 1) (\<lambda>v2.
           if width (v2 ! 0) \<noteq> 2
           then fail (invalidf ''dup2_x2 form3 requires category-2 under two cat1'')
           else pushVals [v1 ! 0, v1 ! 1, v2 ! 0, v1 ! 0, v1 ! 1])
       else bind_act (popNComputational 2) (\<lambda>v2.
         if width (v2 ! 0) \<noteq> 1 \<or> width (v2 ! 1) \<noteq> 1
         then fail (invalidf ''dup2_x2 form1 requires four category-1 values'')
         else pushVals [v1 ! 0, v1 ! 1, v2 ! 0, v2 ! 1, v1 ! 0, v1 ! 1])))"

definition dup_OP_DUP2_X2 :: "unit action" where
  "dup_OP_DUP2_X2 = with_frame (\<lambda>f.
     if Stack f = [] then fail (invalidf ''stack underflow'')
     else if IsTail (Kind (topSlot f)) then dup2_x2_cat2
     else dup2_x2_cat1)"

definition dup_OP_POP :: "unit action" where
  "dup_OP_POP = with_frame (\<lambda>f.
     if Stack f = [] then fail (invalidf ''stack underflow'')
     else if IsTail (Kind (topSlot f)) \<or> IsCat2Head (Kind (topSlot f))
     then fail (invalidf ''pop requires category-1'')
     else then_act popValue (ret ()))"

definition dup_OP_POP2 :: "unit action" where
  "dup_OP_POP2 = with_frame (\<lambda>f.
     if Stack f = [] then fail (invalidf ''stack underflow'')
     else if IsTail (Kind (topSlot f)) then then_act popValue (ret ())
     else if IsCat2Head (Kind (topSlot f)) then fail (invalidf ''category-2 head on top'')
     else then_act popValue (with_frame (\<lambda>f.
       if Stack f = [] then fail (invalidf ''stack underflow'')
       else if IsTail (Kind (topSlot f)) \<or> IsCat2Head (Kind (topSlot f))
       then fail (invalidf ''pop2 form1 requires two category-1 values'')
       else then_act popValue (ret ()))))"

definition dup_OP_SWAP :: "unit action" where
  "dup_OP_SWAP = bind_act (popNComputational 2) (\<lambda>vs.
     if width (vs ! 0) \<noteq> 1 \<or> width (vs ! 1) \<noteq> 1
     then fail (invalidf ''swap requires two category-1 values'')
     else pushVals [vs ! 1, vs ! 0])"

definition dupFamily :: "int \<Rightarrow> unit action" where
  "dupFamily op =
     (if op = OP_DUP then dup_OP_DUP
      else if op = OP_DUP_X1 then dup_OP_DUP_X1
      else if op = OP_DUP_X2 then dup_OP_DUP_X2
      else if op = OP_DUP2 then dup_OP_DUP2
      else if op = OP_DUP2_X1 then dup_OP_DUP2_X1
      else if op = OP_DUP2_X2 then dup_OP_DUP2_X2
      else if op = OP_POP then dup_OP_POP
      else if op = OP_POP2 then dup_OP_POP2
      else if op = OP_SWAP then dup_OP_SWAP
      else fail (unsupportedf ''not a stack-move opcode''))"

section \<open>What a client of the operand stack relies on\<close>

fun pop_many :: "('s \<Rightarrow> 'e + 'v \<times> 's) \<Rightarrow> nat \<Rightarrow> 's \<Rightarrow> 'e + 'v list \<times> 's" where
  "pop_many pp 0 s = Inr ([], s)"
| "pop_many pp (Suc n) s =
     res_bind (pp s) (\<lambda>(x, s). res_bind (pop_many pp n s) (\<lambda>(xs, s). Inr (xs @ [x], s)))"

fun push_many :: "('v \<Rightarrow> 's \<Rightarrow> 'e + unit \<times> 's) \<Rightarrow> 'v list \<Rightarrow> 's \<Rightarrow> 'e + unit \<times> 's" where
  "push_many ps [] s = Inr ((), s)"
| "push_many ps (x # xs) s = res_bind (ps x s) (\<lambda>(_, s). push_many ps xs s)"

locale operand_stack =
  fixes ok :: "'s \<Rightarrow> bool" and content :: "'s \<Rightarrow> 'v list"
    and push :: "'v \<Rightarrow> 's \<Rightarrow> 'e + unit \<times> 's" and pop :: "'s \<Rightarrow> 'e + 'v \<times> 's"
    and good :: "'v \<Rightarrow> bool" and weight :: "'v \<Rightarrow> int" and capacity :: "'s \<Rightarrow> int"
    and rest :: "'s \<Rightarrow> 's \<Rightarrow> bool"
  assumes pop_empty: "ok s \<Longrightarrow> content s = [] \<Longrightarrow> \<exists>e. pop s = Inl e"
    and pop_top: "ok s \<Longrightarrow> content s = xs @ [x] \<Longrightarrow>
      \<exists>s'. pop s = Inr (x, s') \<and> ok s' \<and> content s' = xs \<and> rest s s'"
    and push_fits: "ok s \<Longrightarrow> good x \<Longrightarrow> sum_list (map weight (content s)) + weight x \<le> capacity s \<Longrightarrow>
      \<exists>s'. push x s = Inr ((), s') \<and> ok s' \<and> content s' = content s @ [x] \<and> rest s s'"
    and push_full: "ok s \<Longrightarrow> good x \<Longrightarrow> capacity s < sum_list (map weight (content s)) + weight x \<Longrightarrow>
      \<exists>e. push x s = Inl e"
    and content_good: "ok s \<Longrightarrow> x \<in> set (content s) \<Longrightarrow> good x"
    and content_fits: "ok s \<Longrightarrow> sum_list (map weight (content s)) \<le> capacity s"
    and weight_pos: "0 \<le> weight x"
    and rest_refl: "rest s s"
    and rest_trans: "rest s s' \<Longrightarrow> rest s' s'' \<Longrightarrow> rest s s''"
    and rest_capacity: "rest s s' \<Longrightarrow> capacity s' = capacity s"
begin

lemma pop_many_short: "ok s \<Longrightarrow> length (content s) < n \<Longrightarrow> \<exists>e. pop_many pop n s = Inl e"
proof (induction n arbitrary: s)
  case (Suc n)
  show ?case
  proof (cases "content s" rule: rev_cases)
    case Nil
    then show ?thesis using pop_empty [OF Suc.prems(1)] by auto
  next
    case (snoc xs x)
    from pop_top [OF Suc.prems(1) snoc] obtain s' where
      s': "pop s = Inr (x, s')" "ok s'" "content s' = xs" by blast
    then show ?thesis using Suc.IH [of s'] Suc.prems(2) snoc by auto
  qed
qed simp

lemma pop_many_enough:
  "ok s \<Longrightarrow> content s = xs @ ys \<Longrightarrow> length ys = n \<Longrightarrow>
     \<exists>s'. pop_many pop n s = Inr (ys, s') \<and> ok s' \<and> content s' = xs \<and> rest s s'"
proof (induction n arbitrary: s ys)
  case 0
  then show ?case using rest_refl by simp
next
  case (Suc n)
  then obtain zs y where ys: "ys = zs @ [y]" "length zs = n" by (cases ys rule: rev_cases) auto
  with Suc.prems pop_top [of s "xs @ zs" y] obtain s' where
    s': "pop s = Inr (y, s')" "ok s'" "content s' = xs @ zs" "rest s s'" by auto
  from Suc.IH [OF s'(2,3) ys(2)] s' ys show ?case using rest_trans by fastforce
qed

lemma push_many_fits:
  "ok s \<Longrightarrow> list_all good xs \<Longrightarrow>
     sum_list (map weight (content s)) + sum_list (map weight xs) \<le> capacity s \<Longrightarrow>
     \<exists>s'. push_many push xs s = Inr ((), s') \<and> ok s' \<and> content s' = content s @ xs \<and> rest s s'"
proof (induction xs arbitrary: s)
  case Nil
  then show ?case using rest_refl by simp
next
  case (Cons x xs)
  have "0 \<le> sum_list (map weight xs)" using weight_pos by (intro sum_list_nonneg) auto
  then obtain s' where s': "push x s = Inr ((), s')" "ok s'" "content s' = content s @ [x]" "rest s s'"
    using push_fits [of s x] Cons.prems by auto
  from Cons.IH [OF s'(2)] s' Cons.prems rest_capacity [OF s'(4)] rest_trans show ?case by fastforce
qed

lemma push_many_full:
  "ok s \<Longrightarrow> list_all good xs \<Longrightarrow>
     capacity s < sum_list (map weight (content s)) + sum_list (map weight xs) \<Longrightarrow>
     \<exists>e. push_many push xs s = Inl e"
proof (induction xs arbitrary: s)
  case Nil
  then show ?case using content_fits [of s] by simp
next
  case (Cons x xs)
  show ?case
  proof (cases "sum_list (map weight (content s)) + weight x \<le> capacity s")
    case True
    then obtain s' where s': "push x s = Inr ((), s')" "ok s'" "content s' = content s @ [x]" "rest s s'"
      using push_fits [of s x] Cons.prems by auto
    then show ?thesis using Cons.IH [OF s'(2)] Cons.prems rest_capacity [OF s'(4)] by auto
  next
    case False
    then show ?thesis using push_full [of s x] Cons.prems by auto
  qed
qed

end

interpretation slots: operand_stack frame_ok vals push popValue Computational
    "\<lambda>t. int (TypeWidth t)" stackLimit same_rest
proof
  fix s s' s'' :: frame and x :: ftype and xs :: "ftype list"
  show "frame_ok s \<Longrightarrow> vals s = [] \<Longrightarrow> \<exists>e. popValue s = Inl e"
    using popValue_ok [of s] by simp
  show "\<exists>s'. popValue s = Inr (x, s') \<and> frame_ok s' \<and> vals s' = xs \<and> same_rest s s'"
    if "frame_ok s" "vals s = xs @ [x]" using popValue_ok [OF that(1)] that(2) by simp
  have w: "sum_list (map (\<lambda>t. int (TypeWidth t)) (vals s)) = slen (Stack s)" if "frame_ok s"
    using vals_width [OF that] by (simp add: width_sum_def)
  show "\<exists>s'. push x s = Inr ((), s') \<and> frame_ok s' \<and> vals s' = vals s @ [x] \<and> same_rest s s'"
    if "frame_ok s" "Computational x"
      "sum_list (map (\<lambda>t. int (TypeWidth t)) (vals s)) + int (TypeWidth x) \<le> stackLimit s"
    using push_ok [OF that(1,2)] that(3) w [OF that(1)] by simp
  show "\<exists>e. push x s = Inl e"
    if "frame_ok s" "Computational x"
      "stackLimit s < sum_list (map (\<lambda>t. int (TypeWidth t)) (vals s)) + int (TypeWidth x)"
    using push_ok [OF that(1,2)] that(3) w [OF that(1)] by simp
  show "frame_ok s \<Longrightarrow> x \<in> set (vals s) \<Longrightarrow> Computational x"
    by (simp add: vals_def)
  show "sum_list (map (\<lambda>t. int (TypeWidth t)) (vals s)) \<le> stackLimit s" if "frame_ok s"
    using w [OF that] that by (simp add: frame_ok_iff)
  show "0 \<le> int (TypeWidth x)" by simp
  show "same_rest s s" by simp
  show "same_rest s s' \<Longrightarrow> same_rest s' s'' \<Longrightarrow> same_rest s s''" by (rule same_rest_trans)
  show "same_rest s s' \<Longrightarrow> stackLimit s' = stackLimit s" by (simp add: same_rest_shape)
qed

section \<open>The loop and the pushes, through the interface\<close>

definition mk :: "ftype \<Rightarrow> stackVal" where
  "mk t = \<lparr>v = t, width = TypeWidth t\<rparr>"

lemma mk_sel [simp]: "v (mk t) = t" "width (mk t) = TypeWidth t"
  by (simp_all add: mk_def)

lemma topSlot_width:
  assumes "frame_ok f"
  shows "Stack f = [] \<longleftrightarrow> vals f = []"
    and "vals f \<noteq> [] \<Longrightarrow> IsTail (Kind (topSlot f)) \<longleftrightarrow> TypeWidth (last (vals f)) = 2"
    and "vals f \<noteq> [] \<Longrightarrow> \<not> IsCat2Head (Kind (topSlot f)) \<and> Kind (topSlot f) \<noteq> TopK"
proof -
  have wf: "wf_slots False (Stack f)" using assms by (simp add: frame_ok_iff)
  have "(Stack f = [] \<longleftrightarrow> vals f = []) \<and> (vals f \<noteq> [] \<longrightarrow>
    (IsTail (Kind (topSlot f)) \<longleftrightarrow> TypeWidth (last (vals f)) = 2) \<and>
    \<not> IsCat2Head (Kind (topSlot f)) \<and> Kind (topSlot f) \<noteq> TopK)"
    using wf
  proof (cases rule: wf_stack_cases)
    case 1 then show ?thesis by (simp add: vals_def)
  next
    case (2 ys t)
    then show ?thesis by (auto simp: vals_def topSlot_def TypeWidth_comp Computational_iff)
  next
    case (3 ys t u)
    then show ?thesis using tail_of_head [OF 3(3,4)] cat2_computational [OF 3(3)] cat2_not_tail
      by (auto simp: vals_def topSlot_def TypeWidth_comp)
  qed
  then show "Stack f = [] \<longleftrightarrow> vals f = []"
    and "vals f \<noteq> [] \<Longrightarrow> IsTail (Kind (topSlot f)) \<longleftrightarrow> TypeWidth (last (vals f)) = 2"
    and "vals f \<noteq> [] \<Longrightarrow> \<not> IsCat2Head (Kind (topSlot f)) \<and> Kind (topSlot f) \<noteq> TopK"
    by blast+
qed

lemma TypeWidth_vals: "t \<in> set (vals f) \<Longrightarrow> TypeWidth t = 1 \<or> TypeWidth t = 2"
  by (auto simp: vals_def TypeWidth_comp)

lemma pop_one_popValue:
  assumes "frame_ok f"
  shows "pop_one f = res_bind (popValue f) (\<lambda>(t, f'). Inr (mk t, f'))"
proof (cases "vals f = []")
  case True
  then show ?thesis using topSlot_width [OF assms]
    by (simp add: pop_one_def act_simps popValue_def)
next
  case False
  obtain f' where p: "popValue f = Inr (last (vals f), f')" using popValue_ok [OF assms] False by auto
  have w: "TypeWidth (last (vals f)) = 1 \<or> TypeWidth (last (vals f)) = 2"
    using TypeWidth_vals [OF last_in_set [OF False]] .
  show ?thesis
    using topSlot_width [OF assms] False p w
    by (auto simp: pop_one_def act_simps bind_act_def mk_def)
qed

lemma popN_pop_many:
  "frame_ok f \<Longrightarrow> popNComputational n f =
     res_bind (pop_many popValue n f) (\<lambda>(ts, f'). Inr (map mk ts, f'))"
proof (induction n arbitrary: f)
  case (Suc n)
  show ?case
  proof (cases "popValue f")
    case (Inr r)
    obtain t f' where r: "r = (t, f')" by (cases r)
    have ok: "frame_ok f'" using keepsD [OF keeps_popValue Suc.prems, of t f'] Inr r by simp
    show ?thesis
      using pop_one_popValue [OF Suc.prems] Inr r Suc.IH [OF ok]
      by (cases "pop_many popValue n f'") (auto simp: bind_act_def ret_def)
  qed (use pop_one_popValue [OF Suc.prems] in \<open>simp add: bind_act_def\<close>)
qed (simp add: ret_def)

lemma pushVals_push_many: "pushVals xs f = push_many push (map v xs) f"
  by (induction xs arbitrary: f)
    (auto simp: ret_def then_act_def bind_act_def res_bind_def split: sum.splits)

lemma popN_short:
  assumes "frame_ok f" and "length (vals f) < n"
  shows "\<exists>e. bind_act (popNComputational n) k f = Inl e"
  using slots.pop_many_short [OF assms] popN_pop_many [OF assms(1)] by (auto simp: bind_act_def)

lemma popN_enough:
  assumes "frame_ok f" and "vals f = xs @ ys" and "length ys = n"
  shows "\<exists>f'. frame_ok f' \<and> vals f' = xs \<and> same_rest f f' \<and>
    (\<forall>k. bind_act (popNComputational n) k f = k (map mk ys) f')"
proof -
  obtain f' where "pop_many popValue n f = Inr (ys, f')" "frame_ok f'" "vals f' = xs" "same_rest f f'"
    using slots.pop_many_enough [OF assms] by blast
  then show ?thesis using popN_pop_many [OF assms(1)]
    by (intro exI [of _ f']) (simp add: bind_act_def)
qed

text \<open>The result of a move: the stack \<open>st\<close> (top first) if there is one and it fits.\<close>

definition outcome :: "frame \<Rightarrow> ftype list option \<Rightarrow> ferror + (unit \<times> frame) \<Rightarrow> bool" where
  "outcome f st r =
     (case st of
        None \<Rightarrow> \<exists>e. r = Inl e
      | Some s \<Rightarrow>
          (if width_sum s \<le> stackLimit f
           then \<exists>f'. r = Inr ((), f') \<and> rev (vals f') = s \<and> frame_ok f' \<and> same_rest f f'
           else \<exists>e. r = Inl e))"

lemma width_sum_rev [simp]: "width_sum (rev xs) = width_sum xs"
  by (induction xs) simp_all

lemma outcome_push:
  assumes "frame_ok f'" and "same_rest f f'" and "list_all Computational ts"
  shows "outcome f (Some (rev ts @ rev (vals f'))) (pushVals (map mk ts) f')"
proof -
  have cap: "stackLimit f' = stackLimit f" using same_rest_shape [OF assms(2)] by simp
  have m: "map v (map mk ts) = ts" by (induction ts) simp_all
  show ?thesis
    using slots.push_many_fits [OF assms(1,3)] slots.push_many_full [OF assms(1,3)] cap
      same_rest_trans [OF assms(2)]
    unfolding outcome_def pushVals_push_many m width_sum_def [symmetric]
    by (auto simp: add.commute)
qed

lemma outcome_pop:
  assumes "frame_ok f" and "vals f = xs @ [x]"
  shows "outcome f (Some (rev xs)) (then_act popValue (ret ()) f)"
proof -
  have "width_sum (vals f) \<le> stackLimit f" using assms(1) by (simp add: vals_width frame_ok_iff)
  then have "width_sum xs \<le> stackLimit f" using assms(2) by simp
  then show ?thesis using slots.pop_top [OF assms]
    by (auto simp: outcome_def then_act_def bind_act_def ret_def)
qed

section \<open>The instructions as the JVM specification gives them\<close>

definition c1 :: "ftype \<Rightarrow> bool" where
  "c1 t \<longleftrightarrow> TypeWidth t = 1"

definition c2 :: "ftype \<Rightarrow> bool" where
  "c2 t \<longleftrightarrow> TypeWidth t = 2"

text \<open>JVMS 6.5, on the values with the top first; \<open>None\<close> where no form applies.\<close>

fun jvms_dup2_x1 :: "ftype list \<Rightarrow> ftype list option" where
  "jvms_dup2_x1 (a # b # r) =
     (if c2 a then (if c1 b then Some (a # b # a # r) else None)
      else if c1 b then
        (case r of c # r' \<Rightarrow> if c1 c then Some (a # b # c # a # b # r') else None | _ \<Rightarrow> None)
      else None)"
| "jvms_dup2_x1 _ = None"

fun jvms_dup2_x2 :: "ftype list \<Rightarrow> ftype list option" where
  "jvms_dup2_x2 (a # b # r) =
     (if c2 a then
        (if c2 b then Some (a # b # a # r)
         else (case r of c # r' \<Rightarrow> if c1 c then Some (a # b # c # a # r') else None | _ \<Rightarrow> None))
      else if c1 b then
        (case r of
           c # r' \<Rightarrow>
             if c2 c then Some (a # b # c # a # b # r')
             else (case r' of d # r'' \<Rightarrow> if c1 d then Some (a # b # c # d # a # b # r'') else None
                   | _ \<Rightarrow> None)
         | _ \<Rightarrow> None)
      else None)"
| "jvms_dup2_x2 _ = None"

definition jvms_move :: "int \<Rightarrow> ftype list \<Rightarrow> ftype list option" where
  "jvms_move op st =
     (if op = OP_DUP then (case st of a # r \<Rightarrow> if c1 a then Some (a # a # r) else None | _ \<Rightarrow> None)
      else if op = OP_DUP_X1 then
        (case st of a # b # r \<Rightarrow> if c1 a \<and> c1 b then Some (a # b # a # r) else None | _ \<Rightarrow> None)
      else if op = OP_DUP_X2 then
        (case st of
           a # b # r \<Rightarrow>
             if \<not> c1 a then None
             else if c2 b then Some (a # b # a # r)
             else (case r of c # r' \<Rightarrow> if c1 c then Some (a # b # c # a # r') else None | _ \<Rightarrow> None)
         | _ \<Rightarrow> None)
      else if op = OP_DUP2 then
        (case st of
           a # r \<Rightarrow>
             if c2 a then Some (a # a # r)
             else (case r of b # r' \<Rightarrow> if c1 b then Some (a # b # a # b # r') else None | _ \<Rightarrow> None)
         | _ \<Rightarrow> None)
      else if op = OP_DUP2_X1 then jvms_dup2_x1 st
      else if op = OP_DUP2_X2 then jvms_dup2_x2 st
      else if op = OP_POP then (case st of a # r \<Rightarrow> if c1 a then Some r else None | _ \<Rightarrow> None)
      else if op = OP_POP2 then
        (case st of
           a # r \<Rightarrow>
             if c2 a then Some r
             else (case r of b # r' \<Rightarrow> if c1 b then Some r' else None | _ \<Rightarrow> None)
         | _ \<Rightarrow> None)
      else if op = OP_SWAP then
        (case st of a # b # r \<Rightarrow> if c1 a \<and> c1 b then Some (b # a # r) else None | _ \<Rightarrow> None)
      else None)"

declare popNComputational.simps [simp del] pushVals.simps [simp del]

section \<open>Every form, slot by slot\<close>

lemma vals_split1: "rev (vals f) = a # r \<Longrightarrow> vals f = rev r @ [a]"
  by (simp add: rev_swap)

lemma vals_split2: "rev (vals f) = a # b # r \<Longrightarrow> vals f = rev r @ [b, a]"
  by (simp add: rev_swap)

lemma vals_split3: "rev (vals f) = a # b # c # r \<Longrightarrow> vals f = rev r @ [c, b, a]"
  by (simp add: rev_swap)

lemma vals_widths:
  "rev (vals f) = a # r \<Longrightarrow> (c1 a \<longleftrightarrow> \<not> c2 a) \<and> Computational a \<and> list_all Computational r"
  using TypeWidth_vals [of a f] vals_computational [of _ f]
  by (auto simp: c1_def c2_def list_all_iff dest: vals_split1)

lemma vals_short:
  "rev (vals f) = [] \<Longrightarrow> length (vals f) = 0"
  "rev (vals f) = [a] \<Longrightarrow> length (vals f) = 1"
  "rev (vals f) = [a, b] \<Longrightarrow> length (vals f) = 2"
  by (metis length_rev length_Cons list.size(3) One_nat_def numeral_2_eq_2)+

lemma top_cases:
  assumes "frame_ok f" and "rev (vals f) = a # r"
  shows "Stack f \<noteq> []" and "IsTail (Kind (topSlot f)) \<longleftrightarrow> c2 a" and "\<not> IsCat2Head (Kind (topSlot f))"
  using topSlot_width [OF assms(1)] vals_split1 [OF assms(2)] by (auto simp: c2_def)

lemma outcome_short:
  "frame_ok f \<Longrightarrow> length (vals f) < n \<Longrightarrow> outcome g None (bind_act (popNComputational n) k f)"
  using popN_short by (simp add: outcome_def)

lemma obtain2:
  assumes "\<not> length (vals f) < 2" obtains a b r where "rev (vals f) = a # b # r"
proof -
  have "2 \<le> length (rev (vals f))" using assms by simp
  with that show thesis by (cases "rev (vals f)"; cases "tl (rev (vals f))") auto
qed

lemma move_short:
  assumes "frame_ok f" and "length (vals f) < n" and "jvms_move op (rev (vals f)) = None"
  shows "outcome f (jvms_move op (rev (vals f))) (bind_act (popNComputational n) k f)"
  using outcome_short [OF assms(1,2)] assms(3) by simp

lemma jvms_move_short:
  "length st < 2 \<Longrightarrow> op \<in> {OP_DUP_X1, OP_DUP_X2, OP_SWAP, OP_DUP2_X1, OP_DUP2_X2} \<Longrightarrow> jvms_move op st = None"
  "st = [] \<Longrightarrow> jvms_move op st = None"
  by (cases st; cases "tl st"; auto simp: jvms_move_def)+

lemma popN1:
  assumes "frame_ok f" and "rev (vals f) = a # r"
  obtains f' where "frame_ok f'" "vals f' = rev r" "same_rest f f'"
    "\<And>k :: stackVal list \<Rightarrow> unit action. bind_act (popNComputational 1) k f = k [mk a] f'"
  using popN_enough [OF assms(1) vals_split1 [OF assms(2)], of 1] that by auto

lemma popN2:
  assumes "frame_ok f" and "rev (vals f) = a # b # r"
  obtains f' where "frame_ok f'" "vals f' = rev r" "same_rest f f'"
    "\<And>k :: stackVal list \<Rightarrow> unit action. bind_act (popNComputational 2) k f = k [mk b, mk a] f'"
  using popN_enough [OF assms(1) vals_split2 [OF assms(2)], of 2] that by auto

lemma popN3:
  assumes "frame_ok f" and "rev (vals f) = a # b # c # r"
  obtains f' where "frame_ok f'" "vals f' = rev r" "same_rest f f'"
    "\<And>k :: stackVal list \<Rightarrow> unit action. bind_act (popNComputational 3) k f = k [mk c, mk b, mk a] f'"
  using popN_enough [OF assms(1) vals_split3 [OF assms(2)], of 3] that by auto

text \<open>Pushing values back over the rest \<open>r\<close>, and a refusal.\<close>

lemma outcome_over:
  assumes "frame_ok f'" and "same_rest f f'" and "vals f' = rev r" and "list_all Computational ts"
    and "xs = map mk ts" and "st = Some (rev ts @ r)"
  shows "outcome f st (pushVals xs f')"
  using outcome_push [OF assms(1,2,4)] assms(3,5,6) by simp

lemma outcome_fail [simp]: "outcome f None (fail e f')" "outcome f None (Inl e)"
  by (simp_all add: outcome_def fail_def)

lemma vals_second:
  "rev (vals f) = a # b # r \<Longrightarrow> (c1 b \<longleftrightarrow> \<not> c2 b) \<and> Computational b \<and> list_all Computational r"
  using TypeWidth_vals [of b f] vals_computational [of _ f]
  by (auto simp: c1_def c2_def list_all_iff dest: vals_split2)

lemma outcome_same_rest:
  "same_rest f f' \<Longrightarrow> outcome f' st r \<Longrightarrow> outcome f st r"
  by (auto simp: outcome_def same_rest_shape intro: same_rest_trans split: option.splits if_splits)

text \<open>
  Popping one, two or three values from a frame that earlier pops left: the \<open>r\<close> is what is
  still on the stack, top first.
\<close>

lemma cont1:
  assumes f': "frame_ok f'" "vals f' = rev r" "same_rest f f'"
    and none: "r = [] \<Longrightarrow> st = None"
    and some: "\<And>d r' f2. r = d # r' \<Longrightarrow> frame_ok f2 \<Longrightarrow> vals f2 = rev r' \<Longrightarrow> same_rest f f2 \<Longrightarrow>
      (c1 d \<longleftrightarrow> \<not> c2 d) \<Longrightarrow> Computational d \<Longrightarrow> outcome f st (k [mk d] f2)"
  shows "outcome f st (bind_act (popNComputational 1) k f')"
proof (cases r)
  case Nil
  then show ?thesis using outcome_short [OF f'(1), of 1] f'(2) none by simp
next
  case (Cons d r')
  then have st': "rev (vals f') = d # r'" using f'(2) by simp
  from popN1 [OF f'(1) this] obtain f2 where f2: "frame_ok f2" "vals f2 = rev r'" "same_rest f' f2"
    "\<And>k :: stackVal list \<Rightarrow> unit action. bind_act (popNComputational 1) k f' = k [mk d] f2" by blast
  show ?thesis unfolding f2(4)
    using some [OF Cons f2(1,2) same_rest_trans [OF f'(3) f2(3)]] vals_widths [OF st'] by simp
qed

lemma cont2:
  assumes f': "frame_ok f'" "vals f' = rev r" "same_rest f f'"
    and none: "length r < 2 \<Longrightarrow> st = None"
    and some: "\<And>d e r' f2. r = d # e # r' \<Longrightarrow> frame_ok f2 \<Longrightarrow> vals f2 = rev r' \<Longrightarrow> same_rest f f2 \<Longrightarrow>
      (c1 d \<longleftrightarrow> \<not> c2 d) \<Longrightarrow> (c1 e \<longleftrightarrow> \<not> c2 e) \<Longrightarrow> Computational d \<Longrightarrow> Computational e \<Longrightarrow>
      outcome f st (k [mk e, mk d] f2)"
  shows "outcome f st (bind_act (popNComputational 2) k f')"
proof (cases "length r < 2")
  case True
  then show ?thesis using outcome_short [OF f'(1), of 2] f'(2) none by simp
next
  case False
  then obtain d e r' where r: "r = d # e # r'" by (cases r; cases "tl r") auto
  then have st': "rev (vals f') = d # e # r'" using f'(2) by simp
  from popN2 [OF f'(1) this] obtain f2 where f2: "frame_ok f2" "vals f2 = rev r'" "same_rest f' f2"
    "\<And>k :: stackVal list \<Rightarrow> unit action. bind_act (popNComputational 2) k f' = k [mk e, mk d] f2" by blast
  show ?thesis unfolding f2(4)
    using some [OF r f2(1,2) same_rest_trans [OF f'(3) f2(3)]] vals_widths [OF st'] vals_second [OF st']
    by simp
qed

lemma cont3:
  assumes f': "frame_ok f'" "vals f' = rev r" "same_rest f f'"
    and none: "length r < 3 \<Longrightarrow> st = None"
    and some: "\<And>a b c r' f2. r = a # b # c # r' \<Longrightarrow> frame_ok f2 \<Longrightarrow> vals f2 = rev r' \<Longrightarrow> same_rest f f2 \<Longrightarrow>
      (c1 a \<longleftrightarrow> \<not> c2 a) \<Longrightarrow> (c1 b \<longleftrightarrow> \<not> c2 b) \<Longrightarrow> (c1 c \<longleftrightarrow> \<not> c2 c) \<Longrightarrow>
      Computational a \<Longrightarrow> Computational b \<Longrightarrow> Computational c \<Longrightarrow>
      outcome f st (k [mk c, mk b, mk a] f2)"
  shows "outcome f st (bind_act (popNComputational 3) k f')"
proof (cases "length r < 3")
  case True
  then show ?thesis using outcome_short [OF f'(1), of 3] f'(2) none by simp
next
  case False
  then obtain a b c r' where r: "r = a # b # c # r'"
    by (cases r; cases "tl r"; cases "tl (tl r)") auto
  then have st': "rev (vals f') = a # b # c # r'" using f'(2) by simp
  have c: "(c1 c \<longleftrightarrow> \<not> c2 c) \<and> Computational c"
    using TypeWidth_vals [of c f'] vals_computational [of c f'] vals_split3 [OF st']
    by (auto simp: c1_def c2_def)
  from popN3 [OF f'(1) st'] obtain f2 where f2: "frame_ok f2" "vals f2 = rev r'" "same_rest f' f2"
    "\<And>k :: stackVal list \<Rightarrow> unit action. bind_act (popNComputational 3) k f' = k [mk c, mk b, mk a] f2"
    by blast
  show ?thesis unfolding f2(4)
    using some [OF r f2(1,2) same_rest_trans [OF f'(3) f2(3)]] vals_widths [OF st'] vals_second [OF st'] c
    by simp
qed

lemmas form_simps = jvms_move_def c1_def c2_def

lemma dup_DUP:
  assumes "frame_ok f" shows "outcome f (jvms_move OP_DUP (rev (vals f))) (dup_OP_DUP f)"
  unfolding dup_OP_DUP_def
proof (rule cont1 [OF assms rev_rev_ident [symmetric] same_rest_refl])
  fix a r f2 assume h: "rev (vals f) = a # r" "frame_ok f2" "vals f2 = rev r" "same_rest f f2"
    "c1 a \<longleftrightarrow> \<not> c2 a" "Computational a"
  show "outcome f (jvms_move OP_DUP (rev (vals f)))
    ((if width ([mk a] ! 0) \<noteq> 1 then fail (invalidf ''dup requires category-1'')
      else pushVals [[mk a] ! 0, [mk a] ! 0]) f2)"
    using h by (auto simp: form_simps intro!: outcome_over [OF h(2,4,3), of "[a, a]"])
qed (simp add: jvms_move_short)

lemma dup_DUP_X1:
  assumes "frame_ok f" shows "outcome f (jvms_move OP_DUP_X1 (rev (vals f))) (dup_OP_DUP_X1 f)"
  unfolding dup_OP_DUP_X1_def
proof (rule cont2 [OF assms rev_rev_ident [symmetric] same_rest_refl], goal_cases)
  case 1
  then show ?case by (simp add: jvms_move_short)
next
  case (2 a b r f2)
  then show ?case by (auto simp: form_simps intro!: outcome_over [OF 2(2,4,3), of "[a, b, a]"])
qed

lemma dup_SWAP:
  assumes "frame_ok f" shows "outcome f (jvms_move OP_SWAP (rev (vals f))) (dup_OP_SWAP f)"
  unfolding dup_OP_SWAP_def
proof (rule cont2 [OF assms rev_rev_ident [symmetric] same_rest_refl], goal_cases)
  case 1
  then show ?case by (simp add: jvms_move_short)
next
  case (2 a b r f2)
  then show ?case by (auto simp: form_simps intro!: outcome_over [OF 2(2,4,3), of "[a, b]"])
qed

lemma dup_DUP_X2:
  assumes "frame_ok f" shows "outcome f (jvms_move OP_DUP_X2 (rev (vals f))) (dup_OP_DUP_X2 f)"
  unfolding dup_OP_DUP_X2_def
proof (rule cont2 [OF assms rev_rev_ident [symmetric] same_rest_refl], goal_cases)
  case 1
  then show ?case by (simp add: jvms_move_short)
next
  case (2 a b r f2)
  show ?case
  proof (cases "c1 a \<and> c1 b")
    case True
    have w: "\<not> width ([mk b, mk a] ! 1) \<noteq> 1" "\<not> width ([mk b, mk a] ! 0) = 2"
      using True 2(5,6) by (simp_all add: c1_def c2_def)
    have "outcome f (jvms_move OP_DUP_X2 (rev (vals f)))
      (bind_act (popNComputational 1) (\<lambda>vs3.
         if width (vs3 ! 0) \<noteq> 1 then fail (invalidf ''dup_x2 form1 requires three category-1 values'')
         else pushVals [[mk b, mk a] ! 1, vs3 ! 0, [mk b, mk a] ! 0, [mk b, mk a] ! 1]) f2)"
    proof (rule cont1 [OF 2(2,3,4)], goal_cases)
      case 1
      then show ?case using 2 True by (auto simp: form_simps)
    next
      case (2 c r' f3)
      then show ?case using True \<open>rev (vals f) = a # b # r\<close> \<open>Computational a\<close> \<open>Computational b\<close>
          \<open>c1 b \<longleftrightarrow> \<not> c2 b\<close>
        by (auto simp: form_simps intro!: outcome_over [OF 2(2,4,3), of "[a, c, b, a]"])
    qed
    then show ?thesis using w by simp
  next
    case False
    then show ?thesis using 2
      by (auto simp: form_simps intro!: outcome_over [OF 2(2,4,3), of "[a, b, a]"])
  qed
qed

lemma with_top:
  assumes ok: "frame_ok f'" "vals f' = rev r" 
    and none: "r = [] \<Longrightarrow> st = None"
    and wide: "\<And>a r'. r = a # r' \<Longrightarrow> c2 a \<Longrightarrow> \<not> c1 a \<Longrightarrow> outcome f st (m f')"
    and narrow: "\<And>a r'. r = a # r' \<Longrightarrow> c1 a \<Longrightarrow> \<not> c2 a \<Longrightarrow> outcome f st (k f')"
  shows "outcome f st (with_frame (\<lambda>g. if Stack g = [] then fail e
    else if IsTail (Kind (topSlot g)) then m else k) f')"
proof (cases r)
  case Nil
  then show ?thesis using none topSlot_width(1) [OF ok(1)] ok(2) by (simp add: act_simps outcome_def)
next
  case (Cons a r')
  then have "rev (vals f') = a # r'" using ok(2) by simp
  then show ?thesis
    using top_cases [OF ok(1)] vals_widths wide [OF Cons] narrow [OF Cons] by (auto simp: act_simps)
qed

lemma dup_DUP2:
  assumes "frame_ok f" shows "outcome f (jvms_move OP_DUP2 (rev (vals f))) (dup_OP_DUP2 f)"
  unfolding dup_OP_DUP2_def
proof (rule with_top [OF assms rev_rev_ident [symmetric]], goal_cases)
  case 1
  then show ?case by (simp add: jvms_move_short)
next
  case (2 a r)
  show ?case
  proof (rule cont1 [OF assms rev_rev_ident [symmetric] same_rest_refl], goal_cases)
    case (2 b r' f2)
    then show ?case using \<open>rev (vals f) = a # r\<close> \<open>c2 a\<close>
      by (auto simp: form_simps intro!: outcome_over [OF 2(2,4,3), of "[a, a]"])
  qed (simp add: jvms_move_short)
next
  case (3 a r)
  note top = 3
  show ?case
  proof (rule cont2 [OF assms rev_rev_ident [symmetric] same_rest_refl], goal_cases)
    case 1
    then have "r = []" using top by (cases r) auto
    then show ?case using top by (simp add: jvms_move_def)
  next
    case (2 c d r' f2)
    then show ?case using top
      by (auto simp: form_simps intro!: outcome_over [OF 2(2,4,3), of "[d, c, d, c]"])
  qed
qed

lemma dup_DUP2_X1:
  assumes "frame_ok f" shows "outcome f (jvms_move OP_DUP2_X1 (rev (vals f))) (dup_OP_DUP2_X1 f)"
  unfolding dup_OP_DUP2_X1_def
proof (rule with_top [OF assms rev_rev_ident [symmetric]], goal_cases)
  case 1
  then show ?case by (simp add: jvms_move_short)
next
  case (2 a r)
  note top = 2
  show ?case
  proof (rule cont2 [OF assms rev_rev_ident [symmetric] same_rest_refl], goal_cases)
    case 1
    then show ?case by (simp add: jvms_move_short)
  next
    case (2 c d r' f2)
    then show ?case using top
      by (auto simp: form_simps intro!: outcome_over [OF 2(2,4,3), of "[c, d, c]"])
  qed
next
  case (3 a r)
  note top = 3
  show ?case
  proof (rule cont3 [OF assms rev_rev_ident [symmetric] same_rest_refl], goal_cases)
    case 1
    then show ?case using top by (cases r; cases "tl r") (auto simp: form_simps)
  next
    case (2 c d e r' f2)
    then show ?case using top
      by (auto simp: form_simps intro!: outcome_over [OF 2(2,4,3), of "[d, c, e, d, c]"])
  qed
qed

lemma dup2_x2_wide:
  assumes "frame_ok f" and top: "rev (vals f) = a # r" "c2 a"
  shows "outcome f (jvms_move OP_DUP2_X2 (rev (vals f))) (dup2_x2_cat2 f)"
  unfolding dup2_x2_cat2_def
proof (rule cont1 [OF assms(1) rev_rev_ident [symmetric] same_rest_refl], goal_cases)
  case 1
  then show ?case by (simp add: jvms_move_short)
next
  case (2 a' r' f2)
  then have eq: "a' = a" "r' = r" using top by auto
  note f2 = 2(2) 2(3) 2(4) and ca = 2(6)
  have w: "\<not> width ([mk a'] ! 0) \<noteq> 2" using top eq by (simp add: c2_def)
  show ?case unfolding eq if_not_P [OF w [unfolded eq]]
  proof (rule with_top [OF f2(1,2)], goal_cases)
    case 1
    then show ?case using top eq by (simp add: form_simps)
  next
    case (2 b s)
    note b = 2
    show ?case
    proof (rule cont1 [OF f2], goal_cases)
      case 1 then show ?case using b eq by simp
    next
      case (2 b' s' f3)
      then show ?case using b top eq ca
        by (auto simp: form_simps intro!: outcome_over [OF 2(2,4,3), of "[a, b, a]"])
    qed
  next
    case (3 b s)
    note b = 3
    show ?case
    proof (rule cont2 [OF f2], goal_cases)
      case 1 then show ?case using b top eq by (cases s) (auto simp: form_simps)
    next
      case (2 b' c s' f3)
      then show ?case using b top eq ca
        by (auto simp: form_simps intro!: outcome_over [OF 2(2,4,3), of "[a, c, b, a]"])
    qed
  qed
qed

lemma dup2_x2_narrow:
  assumes "frame_ok f" and top: "rev (vals f) = a # r" "c1 a"
  shows "outcome f (jvms_move OP_DUP2_X2 (rev (vals f))) (dup2_x2_cat1 f)"
  unfolding dup2_x2_cat1_def
proof (rule cont2 [OF assms(1) rev_rev_ident [symmetric] same_rest_refl], goal_cases)
  case 1
  then show ?case by (simp add: jvms_move_short)
next
  case (2 a' b r' f2)
  then have eq: "a' = a" "r = b # r'" using top by auto
  note f2 = 2(2) 2(3) 2(4) and wb = 2(6) and comp = 2(7) 2(8)
  show ?case
  proof (cases "c1 b")
    case False
    then show ?thesis using top eq wb by (auto simp: form_simps)
  next
    case cb: True
    have w: "\<not> (width ([mk b, mk a'] ! 0) \<noteq> 1 \<or> width ([mk b, mk a'] ! 1) \<noteq> 1)"
      using top eq cb by (simp add: c1_def)
    have st: "jvms_move OP_DUP2_X2 (rev (vals f)) =
        (case r' of c # s \<Rightarrow> if c2 c then Some (a # b # c # a # b # s)
          else (case s of d # s' \<Rightarrow> if c1 d then Some (a # b # c # d # a # b # s') else None | _ \<Rightarrow> None)
         | _ \<Rightarrow> None)"
      using top eq cb by (simp add: form_simps)
    show ?thesis unfolding if_not_P [OF w] st
    proof (rule with_top [OF f2(1,2)], goal_cases)
      case 1
      then show ?case by simp
    next
      case (2 c s)
      note c = 2
      show ?case
      proof (rule cont1 [OF f2], goal_cases)
        case 1 then show ?case using c by simp
      next
        case (2 c' s' f3)
        then show ?case using c eq comp
          by (auto simp: form_simps intro!: outcome_over [OF 2(2,4,3), of "[b, a, c, b, a]"])
      qed
    next
      case (3 c s)
      note c = 3
      show ?case
      proof (rule cont2 [OF f2], goal_cases)
        case 1 then show ?case using c by (cases s) auto
      next
        case (2 c' d s' f3)
        then show ?case using c eq comp
          by (auto simp: form_simps intro!: outcome_over [OF 2(2,4,3), of "[b, a, d, c, b, a]"])
      qed
    qed
  qed
qed

lemma dup_DUP2_X2:
  assumes "frame_ok f" shows "outcome f (jvms_move OP_DUP2_X2 (rev (vals f))) (dup_OP_DUP2_X2 f)"
  unfolding dup_OP_DUP2_X2_def
proof (rule with_top [OF assms rev_rev_ident [symmetric]], goal_cases)
  case 1
  then show ?case by (simp add: jvms_move_short)
next
  case (2 a r)
  then show ?case using dup2_x2_wide [OF assms] by simp
next
  case (3 a r)
  then show ?case using dup2_x2_narrow [OF assms] by simp
qed

lemma dup_POP:
  assumes "frame_ok f" shows "outcome f (jvms_move OP_POP (rev (vals f))) (dup_OP_POP f)"
proof (cases "rev (vals f)")
  case Nil
  then show ?thesis using topSlot_width(1) [OF assms]
    by (simp add: dup_OP_POP_def act_simps jvms_move_short)
next
  case (Cons a r)
  then show ?thesis
    using top_cases [OF assms Cons] vals_widths [OF Cons] outcome_pop [OF assms vals_split1 [OF Cons]]
    by (auto simp: dup_OP_POP_def act_simps jvms_move_def)
qed

lemma dup_POP2:
  assumes "frame_ok f" shows "outcome f (jvms_move OP_POP2 (rev (vals f))) (dup_OP_POP2 f)"
proof (cases "rev (vals f)")
  case Nil
  then show ?thesis using topSlot_width(1) [OF assms]
    by (simp add: dup_OP_POP2_def act_simps jvms_move_short)
next
  case (Cons a r)
  note top = top_cases [OF assms Cons] vals_widths [OF Cons]
  show ?thesis
  proof (cases "c2 a")
    case True
    then show ?thesis using top Cons outcome_pop [OF assms vals_split1 [OF Cons]]
      by (simp add: dup_OP_POP2_def act_simps jvms_move_def)
  next
    case False
    from slots.pop_top [OF assms vals_split1 [OF Cons]] obtain f' where
      f': "popValue f = Inr (a, f')" "frame_ok f'" "vals f' = rev r" "same_rest f f'" by blast
    define k where "k = with_frame (\<lambda>f.
       if Stack f = [] then fail (invalidf ''stack underflow'')
       else if IsTail (Kind (topSlot f)) \<or> IsCat2Head (Kind (topSlot f))
       then fail (invalidf ''pop2 form1 requires two category-1 values'')
       else then_act popValue (ret ()))"
    have go: "dup_OP_POP2 f = k f'"
      using top False f' by (simp add: dup_OP_POP2_def act_simps then_act_def bind_act_def k_def)
    show ?thesis
    proof (cases r)
      case Nil
      then show ?thesis using go f' topSlot_width(1) [OF f'(2)] Cons False
        by (simp add: k_def act_simps jvms_move_def)
    next
      case r: (Cons b s)
      then have st': "rev (vals f') = b # s" using f' by simp
      have "outcome f' (if c1 b then Some s else None) (k f')"
        using top_cases [OF f'(2) st'] vals_widths [OF st'] outcome_pop [OF f'(2) vals_split1 [OF st']]
        by (auto simp: k_def act_simps)
      then show ?thesis using outcome_same_rest [OF f'(4)] go Cons r False by (simp add: jvms_move_def)
    qed
  qed
qed

section \<open>Properties of the stack moves\<close>

definition stack_move_ops :: "int list" where
  "stack_move_ops = [OP_DUP, OP_DUP_X1, OP_DUP_X2, OP_DUP2, OP_DUP2_X1, OP_DUP2_X2, OP_POP, OP_POP2, OP_SWAP]"

lemma dup_outcome:
  assumes "frame_ok f" and "op \<in> set stack_move_ops"
  shows "outcome f (jvms_move op (rev (vals f))) (dupFamily op f)"
  using assms(2) dup_DUP [OF assms(1)] dup_DUP_X1 [OF assms(1)] dup_DUP_X2 [OF assms(1)]
    dup_DUP2 [OF assms(1)] dup_DUP2_X1 [OF assms(1)] dup_DUP2_X2 [OF assms(1)]
    dup_POP [OF assms(1)] dup_POP2 [OF assms(1)] dup_SWAP [OF assms(1)]
  by (auto simp: stack_move_ops_def dupFamily_def)

text \<open>C14: every stack-move instruction does what the JVM specification says: on a valid frame, with
  the values read top first, \<open>dupFamily\<close> yields the specified stack in the form that the
  categories of the operands select, when it fits the declared maximum, and otherwise an error;
  it touches nothing but the stack.\<close>

theorem dupFamily_jvms:
  assumes "frame_ok f" and "op \<in> set stack_move_ops"
  shows "case jvms_move op (rev (vals f)) of
      None \<Rightarrow> \<exists>e. dupFamily op f = Inl e
    | Some st \<Rightarrow>
        (if width_sum st \<le> stackLimit f
         then \<exists>f'. dupFamily op f = Inr ((), f') \<and> rev (vals f') = st \<and> frame_ok f' \<and>
           f' = f\<lparr>Stack := Stack f'\<rparr>
         else \<exists>e. dupFamily op f = Inl e)"
  using dup_outcome [OF assms] unfolding outcome_def same_rest_def .

theorem dupFamily_jvms_witness:
  "\<exists>f'. dupFamily OP_DUP2_X1 (pair_frame\<lparr>Stack := [T IntK, T DoubleK, T DoubleTailK]\<rparr>) = Inr ((), f') \<and>
     rev (vals f') = [T DoubleK, T IntK, T DoubleK]"
proof -
  let ?f = "pair_frame\<lparr>Stack := [T IntK, T DoubleK, T DoubleTailK]\<rparr>"
  have ok: "frame_ok ?f" by code_simp
  have op: "OP_DUP2_X1 \<in> set stack_move_ops" by (simp add: stack_move_ops_def)
  have m: "jvms_move OP_DUP2_X1 (rev (vals ?f)) = Some [T DoubleK, T IntK, T DoubleK]" by code_simp
  have "width_sum [T DoubleK, T IntK, T DoubleK] \<le> stackLimit ?f" by code_simp
  with dupFamily_jvms [OF ok op, unfolded m] show ?thesis by auto
qed

lemma keeps_popN [keeps_intros]: "keeps (popNComputational n)"
  by (induction n) (auto simp: popNComputational.simps pop_one_def intro!: keeps_intros)

lemma keeps_pushVals [keeps_intros]: "keeps (pushVals vs)"
  by (induction vs) (auto simp: pushVals.simps intro!: keeps_intros)

lemma dupFamily_move:
  assumes "frame_ok f" and "dupFamily op f = Inr (a, f')"
  shows "op \<in> set stack_move_ops \<and> jvms_move op (rev (vals f)) = Some (rev (vals f')) \<and>
    frame_ok f' \<and> same_rest f f'"
proof -
  have op: "op \<in> set stack_move_ops"
    using assms(2) by (auto simp: dupFamily_def stack_move_ops_def act_simps split: if_splits)
  show ?thesis
    using dup_outcome [OF assms(1) op] assms(2) op
    by (auto simp: outcome_def split: option.splits if_splits)
qed

lemma keeps_dupFamily [keeps_intros]: "keeps (dupFamily op)"
  by (rule keepsI) (use dupFamily_move same_rest_shape in blast)

end
