(* ===== verification/FrameDesc.thy ===== *)
theory FrameDesc
  imports FrameTypes Mutf8Use
begin

text \<open>
  \<open>core/frametransfer/desc.go\<close>: method and field descriptors read into verification types. A
  descriptor is the byte string of the code; an index into it is a \<open>nat\<close>, guarded by the
  length as in the code. A grammar of descriptors (types, their printer, their verification type)
  says what the readers accept and answer, and ties them to the MUTF-8 validators.
\<close>

section \<open>The code\<close>

text \<open>The cases of \<open>parseField\<close> other than the array one.\<close>

definition parse_scalar :: "string \<Rightarrow> ferror + ftype \<times> nat" where
  "parse_scalar s =
     (case s of
        [] \<Rightarrow> Inl (invalidf ''empty field descriptor'')
      | c # _ \<Rightarrow>
          if c \<in> set ''BCISZ'' then Inr (T IntK, 1)
          else if c = CHR ''F'' then Inr (T FloatK, 1)
          else if c = CHR ''J'' then Inr (T LongK, 1)
          else if c = CHR ''D'' then Inr (T DoubleK, 1)
          else if c = CHR ''L'' then
            (let end = scan_while (\<lambda>c. c \<noteq> CHR '';'') s 1 in
             if end \<ge> length s \<or> end = 1 then Inl (invalidf ''invalid class descriptor'')
             else Inr (RefOf (take (end - 1) (drop 1 s)), end + 1))
          else Inl (invalidf ''unknown field type %c''))"

text \<open>
  The array case recurses on the text after the brackets, which starts with no bracket, so the
  recursion is one level deep.
\<close>

definition parseField :: "string \<Rightarrow> ferror + ftype \<times> nat" where
  "parseField s =
     (if s \<noteq> [] \<and> hd s = CHR ''['' then
        (let n = scan_while (\<lambda>c. c = CHR ''['') s 0 in
         if n \<ge> length s then Inl (invalidf ''bad array descriptor'')
         else if n > 255 then Inl (invalidf ''array dimension limit'')
         else res_bind (parse_scalar (drop n s)) (\<lambda>(_, u). Inr (RefOf (take (n + u) s), n + u)))
      else parse_scalar s)"

lemma parse_scalar_pos: "parse_scalar s = Inr (t, n) \<Longrightarrow> 0 < n \<and> n \<le> length s"
  by (auto simp: parse_scalar_def Let_def split: list.splits if_splits)

lemma parseField_pos: "parseField s = Inr (t, n) \<Longrightarrow> 0 < n \<and> n \<le> length s"
  by (auto simp: parseField_def Let_def dest!: parse_scalar_pos split: if_splits)

text \<open>The loop over the parameters: their types and the index it stops at.\<close>

function args_loop :: "string \<Rightarrow> nat \<Rightarrow> ferror + ftype list \<times> nat" where
  "args_loop desc i =
     (if i < length desc \<and> desc ! i \<noteq> CHR '')'' then
        (case parseField (drop i desc) of
           Inl e \<Rightarrow> Inl e
         | Inr (t, n) \<Rightarrow> res_bind (args_loop desc (i + n)) (\<lambda>(ts, j). Inr (t # ts, j)))
      else Inr ([], i))"
  by pat_completeness auto
termination
  by (relation "measure (\<lambda>(desc, i). length desc - i)") (auto dest!: parseField_pos)

declare args_loop.simps [simp del]

text \<open>\<open>None\<close> as the second component is \<open>hasRet = false\<close>.\<close>

definition ParseDescriptor :: "string \<Rightarrow> ferror + ftype list \<times> ftype option" where
  "ParseDescriptor desc =
     (if desc = [] then Inl (invalidf ''empty method descriptor'')
      else if desc ! 0 \<noteq> CHR ''('' then Inl (invalidf ''bad descriptor %q'')
      else
        (case args_loop desc 1 of
           Inl e \<Rightarrow> Inl e
         | Inr (args, i) \<Rightarrow>
             if i \<ge> length desc \<or> desc ! i \<noteq> CHR '')''
             then Inl (invalidf ''unterminated descriptor %q'')
             else
               let i = i + 1 in
               if i \<ge> length desc then Inl (invalidf ''missing return descriptor'')
               else if desc ! i = CHR ''V'' then
                 (if i + 1 \<noteq> length desc then Inl (invalidf ''trailing method descriptor'')
                  else Inr (args, None))
               else
                 (case parseField (drop i desc) of
                    Inl e \<Rightarrow> Inl e
                  | Inr (t, n) \<Rightarrow>
                      if i + n \<noteq> length desc then Inl (invalidf ''trailing method descriptor'')
                      else Inr (args, Some t))))"

definition newArrayClass :: "u8 \<Rightarrow> string" where
  "newArrayClass atype =
     (if atype = 4 then ''[Z'' else if atype = 5 then ''[C'' else if atype = 6 then ''[F''
      else if atype = 7 then ''[D'' else if atype = 8 then ''[B'' else if atype = 9 then ''[S''
      else if atype = 10 then ''[I'' else if atype = 11 then ''[J'' else ''[Ljava/lang/Object;'')"

section \<open>The grammar of descriptors\<close>

text \<open>A type of a descriptor: a number of dimensions over a scalar or a class.\<close>

datatype jbase = JScalar char | JClass string

type_synonym jdesc = "nat \<times> jbase"

fun show_jbase :: "jbase \<Rightarrow> string" where
  "show_jbase (JScalar c) = [c]"
| "show_jbase (JClass n) = CHR ''L'' # n @ '';''"

definition show_jdesc :: "jdesc \<Rightarrow> string" where
  "show_jdesc p = replicate (fst p) CHR ''['' @ show_jbase (snd p)"

fun jbase_ok :: "jbase \<Rightarrow> bool" where
  "jbase_ok (JScalar c) = (c \<in> set ''BCISZFJD'')"
| "jbase_ok (JClass n) = (n \<noteq> [] \<and> CHR '';'' \<notin> set n)"

definition jdesc_ok :: "jdesc \<Rightarrow> bool" where
  "jdesc_ok p \<longleftrightarrow> fst p \<le> 255 \<and> jbase_ok (snd p)"

fun jbase_type :: "jbase \<Rightarrow> ftype" where
  "jbase_type (JScalar c) =
     T (if c = CHR ''F'' then FloatK else if c = CHR ''J'' then LongK
        else if c = CHR ''D'' then DoubleK else IntK)"
| "jbase_type (JClass n) = RefOf n"

text \<open>The verification type: an array is a reference whose class is its own descriptor.\<close>

definition jtype :: "jdesc \<Rightarrow> ftype" where
  "jtype p = (if fst p = 0 then jbase_type (snd p) else RefOf (show_jdesc p))"

definition show_jdescs :: "jdesc list \<Rightarrow> string" where
  "show_jdescs ps = concat (map show_jdesc ps)"

definition show_jmethod :: "jdesc list \<Rightarrow> jdesc option \<Rightarrow> string" where
  "show_jmethod ps r =
     CHR ''('' # show_jdescs ps @ CHR '')'' # (case r of None \<Rightarrow> ''V'' | Some p \<Rightarrow> show_jdesc p)"

section \<open>The readers follow the grammar\<close>

lemma parse_scalar_show:
  assumes "jbase_ok b"
  shows "parse_scalar (show_jbase b @ rest) = Inr (jbase_type b, length (show_jbase b))"
proof (cases b)
  case (JScalar c)
  then show ?thesis using assms by (auto simp: parse_scalar_def)
next
  case (JClass n)
  then have n: "n \<noteq> []" "CHR '';'' \<notin> set n" using assms by simp_all
  have "takeWhile (\<lambda>c. c \<noteq> CHR '';'') (n @ CHR '';'' # rest) = n"
    using n by (intro takeWhile_append_stop) auto
  then show ?thesis using n by (simp add: JClass parse_scalar_def scan_while_takeWhile Let_def)
qed

lemma parse_scalar_sound:
  assumes "parse_scalar s = Inr (t, n)"
  shows "\<exists>b rest. jbase_ok b \<and> s = show_jbase b @ rest \<and> t = jbase_type b \<and> n = length (show_jbase b)"
proof (cases s)
  case Nil
  then show ?thesis using assms by (simp add: parse_scalar_def)
next
  case (Cons c cs)
  show ?thesis
  proof (cases "c = CHR ''L''")
    case False
    then have "c \<in> set ''BCISZFJD'' \<and> t = jbase_type (JScalar c) \<and> n = 1"
      using assms Cons by (auto simp: parse_scalar_def split: if_splits)
    then show ?thesis using Cons by (intro exI [of _ "JScalar c"] exI [of _ cs]) simp
  next
    case True
    let ?p = "\<lambda>c. c \<noteq> CHR '';''"
    let ?w = "takeWhile ?p cs"
    have s: "parse_scalar s = (if length ?w \<ge> length cs \<or> ?w = [] then Inl (invalidf ''invalid class descriptor'')
        else Inr (RefOf (take (length ?w) cs), length ?w + 2))"
      by (simp add: Cons True parse_scalar_def scan_while_takeWhile Let_def)
    then have w: "length ?w < length cs" "?w \<noteq> []" "t = RefOf ?w" "n = length ?w + 2"
      using assms by (auto split: if_splits simp: takeWhile_eq_take [symmetric])
    have "dropWhile ?p cs \<noteq> []"
      using w(1) by (metis append_Nil2 less_irrefl takeWhile_dropWhile_id)
    then obtain d ds where d: "dropWhile ?p cs = d # ds" by (cases "dropWhile ?p cs") auto
    then have "d = CHR '';''" using hd_dropWhile [of ?p cs] by auto
    then have cs: "cs = ?w @ CHR '';'' # ds" using d takeWhile_dropWhile_id [of ?p cs] by simp
    have nin: "CHR '';'' \<notin> set ?w" by (auto dest: set_takeWhileD)
    obtain w' where w': "?w = w'" by blast
    note eqs = w(2-4) [unfolded w'] cs [unfolded w'] nin [unfolded w']
    have "jbase_ok (JClass w')" "s = show_jbase (JClass w') @ ds"
      "t = jbase_type (JClass w')" "n = length (show_jbase (JClass w'))"
      using eqs Cons True by simp_all
    then show ?thesis by blast
  qed
qed

lemma show_jbase_head: "jbase_ok b \<Longrightarrow> \<exists>c cs. show_jbase b = c # cs \<and> c \<noteq> CHR ''['' \<and> c \<noteq> CHR '')'' \<and> c \<noteq> CHR ''V''"
  by (cases b) auto

lemma parseField_show:
  assumes "jdesc_ok p"
  shows "parseField (show_jdesc p @ rest) = Inr (jtype p, length (show_jdesc p))"
proof (cases "fst p")
  case 0
  have "\<exists>c cs. show_jbase (snd p) = c # cs \<and> c \<noteq> CHR ''[''"
    using assms show_jbase_head by (force simp: jdesc_ok_def)
  then have "hd (show_jbase (snd p) @ rest) \<noteq> CHR ''[''" by auto
  then show ?thesis using 0 assms
    by (simp add: parseField_def show_jdesc_def jtype_def jdesc_ok_def parse_scalar_show)
next
  case (Suc k)
  let ?r = "show_jbase (snd p) @ rest" and ?s = "show_jdesc p @ rest"
  have ne: "takeWhile (\<lambda>c. c = CHR ''['') ?r = []" "?r \<noteq> []"
    using assms show_jbase_head by (force simp: jdesc_ok_def)+
  have s: "?s = replicate (Suc k) CHR ''['' @ ?r" by (simp add: show_jdesc_def Suc)
  have "takeWhile (\<lambda>c. c = CHR ''['') ?s = replicate (Suc k) CHR ''['' @ takeWhile (\<lambda>c. c = CHR ''['') ?r"
    unfolding s by (intro takeWhile_append2) auto
  then have n: "scan_while (\<lambda>c. c = CHR ''['') ?s 0 = Suc k" by (simp add: scan_while_takeWhile ne)
  have d: "drop (Suc k) ?s = ?r" unfolding s by (simp del: replicate.simps)
  have l: "Suc k < length ?s" "hd ?s = CHR ''['' \<and> ?s \<noteq> []" unfolding s using ne by simp_all
  have sc: "parse_scalar ?r = Inr (jbase_type (snd p), length (show_jbase (snd p)))"
    using assms by (intro parse_scalar_show) (simp add: jdesc_ok_def)
  have len: "Suc k + length (show_jbase (snd p)) = length (show_jdesc p)" by (simp add: show_jdesc_def Suc)
  have "parseField ?s = Inr (RefOf (take (length (show_jdesc p)) ?s), length (show_jdesc p))"
    using l assms Suc unfolding parseField_def n d sc Let_def
    by (simp add: jdesc_ok_def del: len) (simp add: len [symmetric])
  then show ?thesis using Suc by (simp add: jtype_def)
qed

lemma take_run: "take (length (takeWhile (\<lambda>x. x = c) s)) s = replicate (length (takeWhile (\<lambda>x. x = c) s)) c"
  by (induction s) auto

lemma parseField_sound:
  assumes "parseField s = Inr (t, n)"
  shows "\<exists>p rest. jdesc_ok p \<and> s = show_jdesc p @ rest \<and> t = jtype p \<and> n = length (show_jdesc p)"
proof (cases "s \<noteq> [] \<and> hd s = CHR ''[''")
  case False
  then have "parse_scalar s = Inr (t, n)" using assms by (auto simp: parseField_def)
  from parse_scalar_sound [OF this] obtain b rest where
    "jbase_ok b \<and> s = show_jbase b @ rest \<and> t = jbase_type b \<and> n = length (show_jbase b)" by blast
  then show ?thesis
    by (intro exI [of _ "(0, b)"] exI [of _ rest]) (simp add: jdesc_ok_def show_jdesc_def jtype_def)
next
  case True
  let ?p = "\<lambda>c. c = CHR ''[''"
  let ?k = "length (takeWhile ?p s)"
  have k0: "?k \<noteq> 0" using True by (cases s) auto
  have tk: "take ?k s = replicate ?k CHR ''[''"
    by (rule take_run)
  obtain t' u where u: "parse_scalar (drop ?k s) = Inr (t', u)" and k: "?k \<le> 255"
    and t: "t = RefOf (take (?k + u) s)" "n = ?k + u"
    using assms True by (auto simp: parseField_def Let_def scan_while_takeWhile split: if_splits)
  obtain m where m: "?k = m" by blast
  from parse_scalar_sound [OF u] obtain b rest where
    b: "jbase_ok b" "drop m s = show_jbase b @ rest" "u = length (show_jbase b)" unfolding m by blast
  have "s = take m s @ drop m s" by simp
  then have s: "s = show_jdesc (m, b) @ rest"
    using tk [unfolded m] b(2) by (simp add: show_jdesc_def)
  have n: "n = length (show_jdesc (m, b))" by (simp add: show_jdesc_def t [unfolded m] b)
  have tu: "take (m + u) s = show_jdesc (m, b)" using s n t(2) [unfolded m] by simp
  have "jdesc_ok (m, b)" using b k [unfolded m] by (simp add: jdesc_ok_def)
  moreover have "t = jtype (m, b)" using k0 tu t(1) unfolding m by (simp add: jtype_def)
  ultimately show ?thesis using s n by blast
qed

text \<open>The loop over the parameters, and the whole descriptor.\<close>

lemma show_jdesc_head:
  "jdesc_ok p \<Longrightarrow> \<exists>c cs. show_jdesc p = c # cs \<and> c \<noteq> CHR '')'' \<and> c \<noteq> CHR ''V''"
  using show_jbase_head [of "snd p"] by (cases "fst p") (auto simp: show_jdesc_def jdesc_ok_def)

lemma args_loop_show:
  "list_all jdesc_ok ps \<Longrightarrow> drop i desc = show_jdescs ps @ CHR '')'' # rest \<Longrightarrow>
   args_loop desc i = Inr (map jtype ps, i + length (show_jdescs ps))"
proof (induction ps arbitrary: i)
  case Nil
  then have "i < length desc \<and> desc ! i = CHR '')''"
    by (metis append_Nil concat.simps(1) drop_eq_Nil linorder_not_less list.distinct(1) list.map_disc_iff
        nth_via_drop show_jdescs_def)
  then show ?case by (subst args_loop.simps) (simp add: show_jdescs_def)
next
  case (Cons p ps)
  have d: "drop i desc = show_jdesc p @ (show_jdescs ps @ CHR '')'' # rest)"
    using Cons.prems by (simp add: show_jdescs_def)
  obtain c cs where c: "show_jdesc p = c # cs" "c \<noteq> CHR '')''"
    using Cons.prems show_jdesc_head [of p] by auto
  have i: "i < length desc" "desc ! i \<noteq> CHR '')''"
    using d c by (metis append_Cons drop_eq_Nil linorder_not_less list.distinct(1), metis append_Cons nth_via_drop)
  have pf: "parseField (drop i desc) = Inr (jtype p, length (show_jdesc p))"
    using Cons.prems d parseField_show by simp
  have "drop (i + length (show_jdesc p)) desc = show_jdescs ps @ CHR '')'' # rest"
    using d by (metis add.commute append_eq_conv_conj drop_drop)
  with Cons have "args_loop desc (i + length (show_jdesc p)) =
      Inr (map jtype ps, i + length (show_jdesc p) + length (show_jdescs ps))" by simp
  then show ?case using i pf by (subst args_loop.simps) (simp add: show_jdescs_def)
qed

lemma args_loop_sound:
  "args_loop desc i = Inr (ts, j) \<Longrightarrow> i \<le> length desc \<Longrightarrow>
   \<exists>ps. list_all jdesc_ok ps \<and> drop i desc = show_jdescs ps @ drop j desc \<and> ts = map jtype ps \<and>
     j = i + length (show_jdescs ps) \<and> j \<le> length desc"
proof (induction desc i arbitrary: ts j rule: args_loop.induct)
  case (1 desc i)
  show ?case
  proof (cases "i < length desc \<and> desc ! i \<noteq> CHR '')''")
    case False
    then have "ts = [] \<and> j = i" using "1.prems" by (subst (asm) args_loop.simps) auto
    then show ?thesis using "1.prems" by (intro exI [of _ "[]"]) (simp add: show_jdescs_def)
  next
    case True
    then obtain t n us where t: "parseField (drop i desc) = Inr (t, n)"
      and rec: "args_loop desc (i + n) = Inr (us, j)" and ts: "ts = t # us"
      using "1.prems"(1) by (subst (asm) args_loop.simps) (auto split: sum.splits)
    from parseField_sound [OF t] obtain p rest where
      p: "jdesc_ok p" "drop i desc = show_jdesc p @ rest" "t = jtype p" "n = length (show_jdesc p)" by blast
    have n: "i + n \<le> length desc" using parseField_pos [OF t] True by auto
    have rest: "rest = drop (i + n) desc" using p(2,4) by (metis add.commute append_eq_conv_conj drop_drop)
    obtain ps where ps: "list_all jdesc_ok ps" "drop (i + n) desc = show_jdescs ps @ drop j desc"
      "us = map jtype ps" "j = i + n + length (show_jdescs ps)" "j \<le> length desc"
      using "1.IH" [OF True t refl rec n] by blast
    then show ?thesis using p rest ts
      by (intro exI [of _ "p # ps"]) (simp add: show_jdescs_def)
  qed
qed

definition jmethod_ok :: "jdesc list \<Rightarrow> jdesc option \<Rightarrow> bool" where
  "jmethod_ok ps r \<longleftrightarrow> list_all jdesc_ok ps \<and> (case r of None \<Rightarrow> True | Some p \<Rightarrow> jdesc_ok p)"

lemma ParseDescriptor_show:
  assumes "jmethod_ok ps r"
  shows "ParseDescriptor (show_jmethod ps r) = Inr (map jtype ps, map_option jtype r)"
proof -
  let ?d = "show_jmethod ps r" and ?n = "length (show_jdescs ps)"
  let ?tail = "case r of None \<Rightarrow> ''V'' | Some p \<Rightarrow> show_jdesc p"
  have d: "?d = CHR ''('' # show_jdescs ps @ CHR '')'' # ?tail" by (simp add: show_jmethod_def)
  have al: "args_loop ?d 1 = Inr (map jtype ps, 1 + ?n)"
    using assms by (intro args_loop_show) (simp_all add: jmethod_ok_def d)
  have close: "1 + ?n < length ?d" "?d ! (1 + ?n) = CHR '')''" "drop (1 + ?n + 1) ?d = ?tail"
    "length ?d = ?n + 2 + length ?tail"
    by (simp_all add: d)
  have i: "?d \<noteq> []" "?d ! 0 = CHR ''(''" by (simp_all add: d)
  show ?thesis
  proof (cases r)
    case None
    then have "?d ! (1 + ?n + 1) = CHR ''V''" "1 + ?n + 1 + 1 = length ?d"
      by (simp_all add: show_jmethod_def nth_append)
    then show ?thesis using i al close None unfolding ParseDescriptor_def by (simp add: Let_def)
  next
    case (Some p)
    then have p: "jdesc_ok p" using assms by (simp add: jmethod_ok_def)
    obtain c cs where c: "show_jdesc p = c # cs" "c \<noteq> CHR ''V''" using show_jdesc_head [OF p] by blast
    have v: "?d ! (1 + ?n + 1) \<noteq> CHR ''V''" "1 + ?n + 1 < length ?d"
      using c Some by (simp_all add: show_jmethod_def nth_append)
    have "parseField (drop (1 + ?n + 1) ?d) = Inr (jtype p, length (show_jdesc p))"
      using parseField_show [OF p, of "[]"] close(3) Some by simp
    then show ?thesis using i al close(1,2,4) v Some unfolding ParseDescriptor_def by (simp add: Let_def)
  qed
qed

lemma ParseDescriptor_sound:
  assumes "ParseDescriptor desc = Inr (args, ret)"
  shows "\<exists>ps r. jmethod_ok ps r \<and> desc = show_jmethod ps r \<and> args = map jtype ps \<and>
    ret = map_option jtype r"
proof -
  have o1: "desc \<noteq> []" "desc ! 0 = CHR ''(''"
    using assms by (auto simp: ParseDescriptor_def split: if_splits)
  obtain i where al: "args_loop desc 1 = Inr (args, i)"
    and i: "i < length desc" "desc ! i = CHR '')''" "i + 1 < length desc"
    using assms o1 by (auto simp: ParseDescriptor_def Let_def not_le split: if_splits sum.splits)
  obtain ps where ps: "list_all jdesc_ok ps" "drop 1 desc = show_jdescs ps @ drop i desc"
    "args = map jtype ps"
    using args_loop_sound [OF al] o1(1) by (cases desc) auto
  have desc: "desc = CHR ''('' # show_jdescs ps @ CHR '')'' # drop (i + 1) desc"
    using o1 ps(2) i Cons_nth_drop_Suc [OF i(1)] by (cases desc) auto
  show ?thesis
  proof (cases "desc ! (i + 1) = CHR ''V''")
    case True
    then have "ret = None" "i + 2 = length desc"
      using assms o1 al i by (auto simp: ParseDescriptor_def Let_def split: if_splits)
    moreover have "drop (i + 1) desc = [CHR ''V'']"
      using Cons_nth_drop_Suc [OF i(3)] True \<open>i + 2 = length desc\<close> by simp
    ultimately show ?thesis using ps desc
      by (intro exI [of _ ps] exI [of _ None]) (simp add: jmethod_ok_def show_jmethod_def)
  next
    case False
    then obtain t n where t: "parseField (drop (i + 1) desc) = Inr (t, n)" "ret = Some t"
      "i + 1 + n = length desc"
      using assms o1 al i by (auto simp: ParseDescriptor_def Let_def not_le split: if_splits sum.splits)
    from parseField_sound [OF t(1)] obtain p rest where
      p: "jdesc_ok p" "drop (i + 1) desc = show_jdesc p @ rest" "t = jtype p" "n = length (show_jdesc p)" by blast
    have "length (show_jdesc p @ rest) = n" using t(3) p(2) [symmetric] by simp
    then have "rest = []" using p(4) by simp
    then show ?thesis using ps desc p t(2)
      by (intro exI [of _ ps] exI [of _ "Some p"]) (simp add: jmethod_ok_def show_jmethod_def)
  qed
qed

section \<open>Properties of the descriptor readers\<close>

text \<open>C24: a method descriptor is read exactly when it is printed from parameter types and a return
  type of the grammar (at most 255 dimensions over a scalar or a non-empty class name), and what is
  read are their verification types, in order.\<close>

theorem ParseDescriptor_grammar:
  "ParseDescriptor desc = Inr (args, ret) \<longleftrightarrow>
   (\<exists>ps r. jmethod_ok ps r \<and> show_jmethod ps r = desc \<and> map jtype ps = args \<and> map_option jtype r = ret)"
  using ParseDescriptor_show ParseDescriptor_sound by fast

text \<open>C25: the reader of one type is exact on every prefix: it accepts a text exactly when a type of
  the grammar is printed at its start, and answers the verification type and its length.\<close>

theorem parseField_grammar:
  "parseField s = Inr (t, n) \<longleftrightarrow>
   (\<exists>p. jdesc_ok p \<and> take n s = show_jdesc p \<and> length (show_jdesc p) = n \<and> jtype p = t)"
proof
  assume "parseField s = Inr (t, n)"
  then show "\<exists>p. jdesc_ok p \<and> take n s = show_jdesc p \<and> length (show_jdesc p) = n \<and> jtype p = t"
    using parseField_sound by fastforce
next
  assume "\<exists>p. jdesc_ok p \<and> take n s = show_jdesc p \<and> length (show_jdesc p) = n \<and> jtype p = t"
  then obtain p where p: "jdesc_ok p" "take n s = show_jdesc p" "length (show_jdesc p) = n" "jtype p = t"
    by blast
  show "parseField s = Inr (t, n)"
    using parseField_show [OF p(1), of "drop n s"] p(2-) append_take_drop_id [of n s] by simp
qed

section \<open>The validator and the reader agree\<close>

abbreviation units_of :: "string \<Rightarrow> u16 list" where
  "units_of s \<equiv> map unit_of s"

lemma unit_of_eq [simp]: "(unit_of c = unit_of d) = (c = d)"
proof -
  have u: "unat (unit_of c) = of_char c" for c
  proof -
    have "(of_char c :: nat) < 256"
      by (metis char_of_mod_256 mod_less_divisor of_char_of of_char_mod_256 zero_less_numeral)
    then have "(of_char c :: nat) < 2 ^ LENGTH(16)" by (rule order_less_le_trans) simp
    then have "unat (word_of_nat (of_char c) :: u16) = of_char c"
      by (simp only: unsigned_of_nat take_bit_nat_eq_self of_nat_id)
    then show ?thesis by (simp only: of_nat_of_char)
  qed
  show ?thesis using u [of c] u [of d] by (metis char_of_char)
qed

text \<open>The units of the code's characters, as the simplifier sees them.\<close>

lemmas unit_consts [simp] =
  unit_of_eq [of _ "CHR ''(''", simplified] unit_of_eq [of _ "CHR '')''", simplified]
  unit_of_eq [of _ "CHR ''V''", simplified] unit_of_eq [of _ "CHR ''[''", simplified]
  unit_of_eq [of _ "CHR '';''", simplified] unit_of_eq [of _ "CHR ''L''", simplified]
  unit_of_eq [of _ "CHR ''B''", simplified] unit_of_eq [of _ "CHR ''C''", simplified]
  unit_of_eq [of _ "CHR ''D''", simplified] unit_of_eq [of _ "CHR ''F''", simplified]
  unit_of_eq [of _ "CHR ''I''", simplified] unit_of_eq [of _ "CHR ''J''", simplified]
  unit_of_eq [of _ "CHR ''S''", simplified] unit_of_eq [of _ "CHR ''Z''", simplified]

lemmas split_units = append_eq_map_conv Cons_eq_map_conv map_eq_append_conv map_eq_Cons_conv

lemma units_replicate: "replicate n (unit_of c) = units_of r \<Longrightarrow> r = replicate n c"
  by (induction n arbitrary: r) (auto simp: Cons_eq_map_conv)

lemma type_widths:
  "TypeWidth (T k) = (if IsCat2Head k then 2 else if IsTail k then 0 else 1)"
  "TypeWidth (RefOf c) = 1" "IsCat2Head LongK" "IsCat2Head DoubleK" "\<not> IsCat2Head IntK"
  "\<not> IsCat2Head FloatK" "\<not> IsTail IntK" "\<not> IsTail FloatK"
  by (simp_all add: TypeWidth_def T_def RefOf_def IsCat2Head_def IsTail_def)

lemma field_jdesc:
  assumes ok: "field_ok t" and s: "show_field t = units_of s"
  shows "\<exists>p. jdesc_ok p \<and> show_jdesc p = s \<and> int (TypeWidth (jtype p)) = field_width t"
proof -
  obtain r b where s': "s = r @ b" and r: "replicate (dims t) (unit_of CHR ''['') = units_of r"
    and b: "show_base (base t) = units_of b"
    using s by (auto simp: show_field_def split_units)
  have rr: "r = replicate (dims t) CHR ''[''"
    using r by (rule units_replicate)
  show ?thesis
  proof (cases "base t")
    case (BasePrim c)
    then obtain x where x: "b = [x]" "c = unit_of x" using b by auto
    have c: "x \<in> set ''BCDFIJSZ''"
      using ok BasePrim x(2) by (auto simp: field_ok_def is_prim_unit_def simp del: list.map)
    let ?p = "(dims t, JScalar x)"
    have "jdesc_ok ?p" using ok c by (auto simp: jdesc_ok_def field_ok_def maxArrayDimensions_def)
    moreover have "show_jdesc ?p = s" by (simp add: show_jdesc_def s' rr x(1))
    moreover have "int (TypeWidth (jtype ?p)) = field_width t"
      unfolding field_width_def BasePrim x(2) base_ty.inject unit_of_eq
      by (auto simp: jtype_def type_widths)
    ultimately show ?thesis by blast
  next
    case (BaseClass n)
    then obtain m where m: "b = CHR ''L'' # m @ '';''" "n = units_of m"
      using b by (auto simp: split_units)
    have "binary_name n" using ok BaseClass by (simp add: field_ok_def)
    then have "m \<noteq> []" "CHR '';'' \<notin> set m"
      using binary_name_nonempty binary_name_no_semicolon m(2) by fastforce+
    then have "jdesc_ok (dims t, JClass m)"
      using ok by (auto simp: jdesc_ok_def field_ok_def maxArrayDimensions_def)
    moreover have "show_jdesc (dims t, JClass m) = s" by (simp add: show_jdesc_def s' rr m(1))
    moreover have "int (TypeWidth (jtype (dims t, JClass m))) = field_width t"
      by (simp add: field_width_def BaseClass jtype_def type_widths)
    ultimately show ?thesis by blast
  qed
qed

lemma fields_jdescs:
  "list_all field_ok ts \<Longrightarrow> show_fields ts = units_of s \<Longrightarrow>
   \<exists>ps. list_all jdesc_ok ps \<and> show_jdescs ps = s \<and>
     (\<Sum>p\<leftarrow>ps. int (TypeWidth (jtype p))) = param_width ts"
proof (induction ts arbitrary: s)
  case Nil
  then show ?case by (intro exI [of _ "[]"]) (simp add: show_fields_def show_jdescs_def param_width_def)
next
  case (Cons t ts)
  then obtain a b where ab: "s = a @ b" "show_field t = units_of a" "show_fields ts = units_of b"
    by (auto simp: show_fields_def split_units)
  obtain p where p: "jdesc_ok p" "show_jdesc p = a" "int (TypeWidth (jtype p)) = field_width t"
    using field_jdesc [OF _ ab(2)] Cons.prems by auto
  obtain ps where ps: "list_all jdesc_ok ps" "show_jdescs ps = b"
    "(\<Sum>p\<leftarrow>ps. int (TypeWidth (jtype p))) = param_width ts"
    using Cons.IH [OF _ ab(3)] Cons.prems by auto
  show ?case using p ps ab
    by (intro exI [of _ "p # ps"]) (simp add: show_jdescs_def param_width_Cons)
qed

text \<open>C32: what the MUTF-8 validator accepts as a method descriptor, the frame builder reads, and the
  argument slots that the validator counted are the widths of the types that it reads.\<close>

theorem validated_descriptor_parses:
  assumes "ValidateMethodDescriptor (units_of desc) = Inr ()"
  shows "\<exists>args r. ParseDescriptor desc = Inr (args, r) \<and>
    MethodParamSlots (units_of desc) = Inr (\<Sum>a\<leftarrow>args. int (TypeWidth a))"
proof -
  obtain n where n: "MethodParamSlots (units_of desc) = Inr n"
    using assms by (auto simp: ValidateMethodDescriptor_via_slots)
  then obtain fs fr where f: "method_ok fs fr" "units_of desc = show_method fs fr" "n = param_width fs"
    by (auto simp: MethodParamSlots_iff)
  then obtain s u where d: "desc = CHR ''('' # s @ CHR '')'' # u" "show_fields fs = units_of s"
    "(case fr of None \<Rightarrow> [unit_of CHR ''V''] | Some t \<Rightarrow> show_field t) = units_of u"
    by (cases desc) (auto simp: show_method_def split_units)
  obtain ps where ps: "list_all jdesc_ok ps" "show_jdescs ps = s"
    "(\<Sum>p\<leftarrow>ps. int (TypeWidth (jtype p))) = param_width fs"
    using fields_jdescs [OF _ d(2)] f(1) by (auto simp: method_ok_def)
  obtain r where r: "jmethod_ok ps r" "show_jmethod ps r = desc"
  proof (cases fr)
    case None
    then have "u = ''V''" using d(3) by (cases u) auto
    then show thesis using that [of None] ps d(1) by (simp add: jmethod_ok_def show_jmethod_def)
  next
    case (Some t)
    then obtain p where "jdesc_ok p" "show_jdesc p = u"
      using field_jdesc [of t u] f(1) d(3) by (auto simp: method_ok_def)
    then show thesis using that [of "Some p"] ps d(1) by (simp add: jmethod_ok_def show_jmethod_def)
  qed
  have "ParseDescriptor desc = Inr (map jtype ps, map_option jtype r)"
    using ParseDescriptor_show [OF r(1)] r(2) by simp
  then show ?thesis using n f(3) ps(3) by (simp add: comp_def)
qed

theorem validated_descriptor_parses_witness:
  "\<exists>args r. ParseDescriptor ''(IJ[Ljava/lang/String;)V'' = Inr (args, r) \<and>
    MethodParamSlots (units_of ''(IJ[Ljava/lang/String;)V'') = Inr (\<Sum>a\<leftarrow>args. int (TypeWidth a))"
  by (rule validated_descriptor_parses) code_simp

end
