(* ===== verification/Decimal.thy ===== *)
theory Decimal
  imports Prelude
begin

text \<open>
  The \<open>%d\<close> of \<open>fmt.Sprintf\<close>, which the code uses to make the keys of its identities
  (\<open>EdgeID.String\<close>, \<open>Origin.Key\<close>): decimal digits, a minus sign for a negative number.
  The printed text determines the number, and so do texts joined by a separator that is no part
  of a number.
\<close>

definition digit_char :: "nat \<Rightarrow> char" where
  "digit_char d = char_of (48 + d)"

fun show_nat :: "nat \<Rightarrow> string" where
  "show_nat n = (if n < 10 then [digit_char n] else show_nat (n div 10) @ [digit_char (n mod 10)])"

declare show_nat.simps [simp del]

definition show_int :: "int \<Rightarrow> string" where
  "show_int i = (if i < 0 then CHR ''-'' # show_nat (nat (- i)) else show_nat (nat i))"

definition is_digit :: "char \<Rightarrow> bool" where
  "is_digit c \<longleftrightarrow> 48 \<le> (of_char c :: nat) \<and> (of_char c :: nat) < 58"

definition read_nat :: "string \<Rightarrow> nat" where
  "read_nat s = foldl (\<lambda>a c. 10 * a + (of_char c - 48)) 0 s"

lemma of_digit_char: "d < 10 \<Longrightarrow> of_char (digit_char d) = (48 + d :: nat)"
  by (simp add: digit_char_def)

lemma show_nat_digits: "(\<forall>c\<in>set (show_nat n). is_digit c) \<and> show_nat n \<noteq> []"
proof (induction n rule: show_nat.induct)
  case (1 n)
  then show ?case
    by (subst show_nat.simps) (auto simp: show_nat.simps [of n] is_digit_def of_digit_char)
qed

lemma read_show_nat: "read_nat (show_nat n) = n"
proof (induction n rule: show_nat.induct)
  case (1 n)
  then show ?case
    by (cases "n < 10") (simp_all add: show_nat.simps [of n] read_nat_def of_digit_char)
qed

lemma show_int_inj [simp]: "show_int i = show_int j \<longleftrightarrow> i = j"
proof -
  have m: "show_nat n \<noteq> CHR ''-'' # s" for n s
    using show_nat_digits [of n] by (auto simp: is_digit_def)
  have "show_nat a = show_nat b \<longleftrightarrow> a = b" for a b by (metis read_show_nat)
  then show ?thesis using m m [THEN not_sym] by (auto simp: show_int_def)
qed

definition in_number :: "char \<Rightarrow> bool" where
  "in_number c \<longleftrightarrow> is_digit c \<or> c = CHR ''-''"

lemma show_int_number: "c \<in> set (show_int i) \<Longrightarrow> in_number c"
  using show_nat_digits by (auto simp: show_int_def in_number_def split: if_splits)

text \<open>A separator splits a text uniquely.\<close>

lemma sep_inj:
  assumes "\<And>x. x \<in> set xs \<Longrightarrow> in_number x" "\<And>y. y \<in> set ys \<Longrightarrow> in_number y" "\<not> in_number c"
  shows "xs @ c # r = ys @ c # s \<longleftrightarrow> xs = ys \<and> r = s"
proof
  assume eq: "xs @ c # r = ys @ c # s"
  have "takeWhile in_number (xs @ c # r) = xs" "takeWhile in_number (ys @ c # s) = ys"
    using assms by (auto intro!: takeWhile_append_stop)
  then show "xs = ys \<and> r = s" using eq by simp
qed simp

lemma show_int_sep:
  "\<not> in_number c \<Longrightarrow> show_int i @ c # r = show_int j @ c # s \<longleftrightarrow> i = j \<and> r = s"
  using sep_inj [of "show_int i" "show_int j" c r s] show_int_number by auto

lemma separators: "\<not> in_number CHR '':''" "\<not> in_number CHR ''>''"
  by (simp_all add: in_number_def is_digit_def)

end
