(* ===== verification/MethodIR.thy ===== *)
theory MethodIR
  imports FrameTypes Opcodes Decimal
begin

text \<open>
  The method snapshot of \<open>core/methodir/ir.go\<close>: instructions, blocks, edges and handlers as the
  SSA builder reads them. Identifiers are the machine words of the code (\<open>InstrID\<close> is a
  \<open>uint16\<close>, \<open>BlockID\<close> and \<open>ValueID\<close> are \<open>uint32\<close>); a nil pointer is \<open>None\<close>.
  Field names get the initial of their record where Go reuses a name. The fields that nothing
  modelled here reads (\<open>ID\<close>, \<open>Version\<close>, \<open>Bytecode\<close>, \<open>Values\<close>) are left out.
\<close>

datatype EdgeKind =
  EdgeFallthrough | EdgeTaken | EdgeCase | EdgeDefault | EdgeException | EdgeOther u8

text \<open>\<open>EdgeOther\<close> is any other \<open>uint8\<close>; the number of a kind is what the code prints.\<close>

fun edge_kind_no :: "EdgeKind \<Rightarrow> u8" where
  "edge_kind_no EdgeFallthrough = 0"
| "edge_kind_no EdgeTaken = 1"
| "edge_kind_no EdgeCase = 2"
| "edge_kind_no EdgeDefault = 3"
| "edge_kind_no EdgeException = 4"
| "edge_kind_no (EdgeOther n) = n"

type_synonym InstrID = u16
type_synonym BlockID = u32
type_synonym IRValueID = u32

record EdgeID =
  ID_From :: InstrID
  ID_To :: InstrID
  ID_Kind :: EdgeKind
  ID_CaseValue :: u32
  ID_HandlerOrder :: int

text \<open>\<open>EdgeID.String\<close>: the text by which edges are sorted.\<close>

definition EdgeID_String :: "EdgeID \<Rightarrow> string" where
  "EdgeID_String e =
     show_int (uint (ID_From e)) @ ''>'' @ show_int (uint (ID_To e)) @
     '':k'' @ show_int (uint (edge_kind_no (ID_Kind e))) @
     '':c'' @ show_int (sint (ID_CaseValue e)) @ '':h'' @ show_int (ID_HandlerOrder e)"

definition KindName :: "EdgeKind \<Rightarrow> string" where
  "KindName k =
     (case k of
        EdgeFallthrough \<Rightarrow> ''fallthrough''
      | EdgeTaken \<Rightarrow> ''taken''
      | EdgeCase \<Rightarrow> ''case''
      | EdgeDefault \<Rightarrow> ''default''
      | EdgeException \<Rightarrow> ''exception''
      | EdgeOther n \<Rightarrow> ''kind'' @ show_int (uint n))"

datatype ConstKind = ConstNone | ConstInt | ConstLong | ConstFloat | ConstDouble | ConstString | ConstClass

record Const =
  C_Kind :: ConstKind
  C_Int :: u32
  C_Long :: u64
  C_FloatBits :: u32
  C_DoubleBits :: u64
  C_String :: string
  C_Class :: string

record CodeLimits =
  Present :: bool
  MaxLocals :: int
  MaxStack :: int
  L_DirectSuperClass :: string

record SwitchCase =
  Key :: u32
  TargetPC :: u16

record ir_instr =
  I_ID :: InstrID
  I_PC :: u16
  I_Opcode :: int
  I_Name :: string
  I_Wide :: bool
  I_Data :: "u8 list"
  I_Local :: int
  I_IincConst :: u32
  I_CPIndex :: u16
  I_Class :: string
  I_Member :: string
  I_Desc :: string
  I_Const :: Const
  I_Cases :: "SwitchCase list"
  I_DefaultPC :: u32
  I_MayThrow :: bool
  I_Result :: IRValueID

record ir_edge =
  E_ID :: EdgeID
  E_From :: InstrID
  E_To :: InstrID
  E_Kind :: EdgeKind
  E_CaseValue :: u32
  E_HandlerOrder :: int
  E_CatchType :: u16

record Handler =
  H_Order :: int
  H_StartPC :: u16
  H_EndPC :: u16
  H_HandlerPC :: u16
  H_CatchType :: u16

record ir_block =
  B_ID :: BlockID
  FirstPC :: u16
  InstrIDs :: "InstrID list"

record MethodIR =
  M_Limits :: CodeLimits
  M_ClassName :: string
  M_Name :: string
  M_Descriptor :: string
  M_IsStatic :: bool
  M_Blocks :: "ir_block list"
  M_Instrs :: "ir_instr list"
  M_Edges :: "ir_edge list"
  M_Handlers :: "Handler list"
  M_EntryPC :: u16
  instrIndex :: "(InstrID \<rightharpoonup> int) option"

text \<open>The index is a Go map that may be nil; it maps to a position of \<open>Instrs\<close>.\<close>

definition InstrByID :: "MethodIR option \<Rightarrow> InstrID \<Rightarrow> ir_instr option" where
  "InstrByID mp iid =
     (case mp of
        None \<Rightarrow> None
      | Some m \<Rightarrow>
          (case instrIndex m of
             None \<Rightarrow> None
           | Some idx \<Rightarrow>
               (case idx iid of
                  None \<Rightarrow> None
                | Some i \<Rightarrow>
                    if i < 0 \<or> i \<ge> int (length (M_Instrs m)) then None
                    else Some (M_Instrs m ! nat i))))"

fun block_of :: "InstrID \<Rightarrow> ir_block list \<Rightarrow> ir_block option" where
  "block_of pc [] = None"
| "block_of pc (b # bs) = (if List.member (InstrIDs b) pc then Some b else block_of pc bs)"

definition BlockOf :: "MethodIR option \<Rightarrow> InstrID \<Rightarrow> ir_block option" where
  "BlockOf mp pc = (case mp of None \<Rightarrow> None | Some m \<Rightarrow> block_of pc (M_Blocks m))"


section \<open>The text of an edge identity\<close>

text \<open>
  Two identities whose kinds have the same number print the same text; with kinds of the code
  (\<open>EdgeOther\<close> only for numbers above 4) the text determines the identity.
\<close>

definition proper_kind :: "EdgeKind \<Rightarrow> bool" where
  "proper_kind k \<longleftrightarrow> (case k of EdgeOther n \<Rightarrow> 5 \<le> n | _ \<Rightarrow> True)"

lemma edge_kind_no_inj:
  "proper_kind j \<Longrightarrow> proper_kind k \<Longrightarrow> edge_kind_no j = edge_kind_no k \<longleftrightarrow> j = k"
  by (cases j; cases k) (auto simp: proper_kind_def word_le_nat_alt)

text \<open>Edges are sorted by a text that determines them, so the order of the incoming edges of a
  block does not depend on the sort: two different identities never compare equal.\<close>

theorem EdgeID_String_inj:
  assumes "proper_kind (ID_Kind a)" and "proper_kind (ID_Kind b)"
  shows "EdgeID_String a = EdgeID_String b \<longleftrightarrow> a = b"
proof
  assume "EdgeID_String a = EdgeID_String b"
  then have "ID_From a = ID_From b" "ID_To a = ID_To b" "edge_kind_no (ID_Kind a) = edge_kind_no (ID_Kind b)"
    and c: "sint (ID_CaseValue a) = sint (ID_CaseValue b)" and "ID_HandlerOrder a = ID_HandlerOrder b"
    by (simp_all add: EdgeID_String_def show_int_sep separators word_uint_eq_iff)
  moreover have "ID_CaseValue a = ID_CaseValue b" using arg_cong [OF c, of "word_of_int :: int \<Rightarrow> u32"] by simp
  ultimately show "a = b" using edge_kind_no_inj [OF assms] by (cases a; cases b) simp
qed simp

definition edge_3_9 :: EdgeID where
  "edge_3_9 = \<lparr>ID_From = 3, ID_To = 9, ID_Kind = EdgeCase, ID_CaseValue = -1, ID_HandlerOrder = -1\<rparr>"

theorem EdgeID_String_inj_witness:
  "EdgeID_String edge_3_9 = ''3>9:k2:c-1:h-1'' \<and>
   EdgeID_String edge_3_9 \<noteq> EdgeID_String (edge_3_9\<lparr>ID_CaseValue := 1\<rparr>)"
proof -
  have "edge_3_9 \<noteq> edge_3_9\<lparr>ID_CaseValue := 1\<rparr>" by code_simp
  moreover have "proper_kind (ID_Kind edge_3_9)" by code_simp
  ultimately have "EdgeID_String edge_3_9 \<noteq> EdgeID_String (edge_3_9\<lparr>ID_CaseValue := 1\<rparr>)"
    using EdgeID_String_inj [of edge_3_9 "edge_3_9\<lparr>ID_CaseValue := 1\<rparr>"] by simp
  then show ?thesis by code_simp
qed

end
