(* ===== verification/FrameTransfer.thy ===== *)
theory FrameTransfer
  imports FrameDup FrameDesc MethodIR
begin

text \<open>
  \<open>core/frametransfer/transfer.go\<close> and \<open>instr.go\<close>: the effect of one instruction on a frame,
  and the frame its exception handlers see. The arithmetic on floating-point constants is the
  parameter \<open>fl\<close>: two functions from the bits of the operands to the bits of the result (what
  the Go runtime computes); the negation flips the sign bit. Frames are values, so \<open>Clone\<close> is
  the identity, and no operation panics, so the recovery is not modelled.
\<close>

section \<open>Instructions\<close>

record ft_instr =
  Op :: int
  PC :: u16
  F_Wide :: bool
  Local :: int
  IincConst :: u32
  F_Class :: string
  F_Name :: string
  F_Desc :: string
  F_Const :: Const
  AType :: u8
  Dims :: int

definition FromIR :: "ir_instr \<Rightarrow> ft_instr" where
  "FromIR i =
     (let out = \<lparr>Op = I_Opcode i, PC = I_PC i, F_Wide = I_Wide i, Local = I_Local i,
                 IincConst = I_IincConst i, F_Class = I_Class i, F_Name = I_Member i,
                 F_Desc = I_Desc i, F_Const = I_Const i, AType = 0, Dims = 0\<rparr>;
          out = (if I_Opcode i = 0xbc \<and> I_Data i \<noteq> [] then out\<lparr>AType := I_Data i ! 0\<rparr> else out);
          out = (if I_Opcode i = 0xc5 \<and> length (I_Data i) \<ge> 3
                 then out\<lparr>Dims := int (unat (I_Data i ! 2))\<rparr> else out);
          out = (if F_Class out = [] then out\<lparr>F_Class := I_Class i\<rparr> else out)
      in if C_Kind (I_Const i) = ConstClass \<and> F_Class out = []
         then out\<lparr>F_Class := C_Class (I_Const i)\<rparr> else out)"

record float_ops =
  fbin :: "int \<Rightarrow> u32 \<Rightarrow> u32 \<Rightarrow> u32"
  dbin :: "int \<Rightarrow> u64 \<Rightarrow> u64 \<Rightarrow> u64"

section \<open>The helpers of the switch\<close>

definition bin :: "kind \<Rightarrow> kind \<Rightarrow> unit action" where
  "bin want res = then_act (popKind want) (then_act (popKind want) (push (T res)))"

definition un :: "kind \<Rightarrow> kind \<Rightarrow> unit action" where
  "un want res = then_act (popKind want) (push (T res))"

definition shift :: "kind \<Rightarrow> unit action" where
  "shift val = then_act (popKind IntK) (bind_act (popKind val) (\<lambda>x. push (DropValue x)))"

definition load :: "ft_instr \<Rightarrow> kind \<Rightarrow> unit action" where
  "load ins want = bind_act (loadLocal (Local ins) want) push"

definition store :: "ft_instr \<Rightarrow> kind \<Rightarrow> unit action" where
  "store ins want =
     bind_act
       (if want = RefK
        then bind_act popValue (\<lambda>t. if \<not> referenceLike t True then fail (invalidf ''astore of %s'')
                                    else ret t)
        else popKind want)
       (storeLocal (Local ins))"

definition doIinc :: "ft_instr \<Rightarrow> unit action" where
  "doIinc ins = bind_act (loadLocal (Local ins) IntK) (\<lambda>cur.
     storeLocal (Local ins) (if HasInt cur then IntConst (IntV cur + IincConst ins) else T IntK))"

definition conv :: "kind \<Rightarrow> kind \<Rightarrow> unit action" where
  "conv from to = then_act (popKind from) (push (T to))"

definition aaload_type :: "ftype \<Rightarrow> ferror + ftype" where
  "aaload_type array =
     (if Kind array = RefK \<and> length (Class array) > 0 \<and> Class array ! 0 = CHR ''['' then
        (case parseField (drop 1 (Class array)) of
           Inl e \<Rightarrow> Inl (invalidf ''aaload requires a reference array component'')
         | Inr (component, n) \<Rightarrow>
             if n \<noteq> length (Class array) - 1 \<or> Kind component \<noteq> RefK
             then Inl (invalidf ''aaload requires a reference array component'')
             else Inr component)
      else Inr (RefOf ''java/lang/Object''))"

definition arrayLoad :: "kind \<Rightarrow> unit action" where
  "arrayLoad elem = then_act (popKind IntK) (bind_act (popKind RefK) (\<lambda>array.
     if elem = RefK then bind_act (lift_res (aaload_type array)) push else push (T elem)))"

definition arrayStore :: "kind \<Rightarrow> unit action" where
  "arrayStore elem = then_act (popKind elem) (then_act (popKind IntK) (then_act (popKind RefK) (ret ())))"

definition pushLDC :: "ft_instr \<Rightarrow> bool \<Rightarrow> unit action" where
  "pushLDC ins wide =
     (let c = F_Const ins; categoryTwo = (C_Kind c = ConstLong \<or> C_Kind c = ConstDouble) in
      if C_Kind c = ConstNone
      then fail (unsupportedf ''ldc constant kind is unresolved or unsupported'')
      else if wide \<noteq> categoryTwo
      then fail (invalidf ''ldc opcode width does not match constant category'')
      else
        (case C_Kind c of
           ConstInt \<Rightarrow> push (IntConst (C_Int c))
         | ConstFloat \<Rightarrow> push (FloatBits (C_FloatBits c))
         | ConstString \<Rightarrow> push (RefOf ''java/lang/String'')
         | ConstClass \<Rightarrow> push (RefOf ''java/lang/Class'')
         | ConstLong \<Rightarrow> push (LongConst (C_Long c))
         | ConstDouble \<Rightarrow> push (DoubleBits (C_DoubleBits c))
         | ConstNone \<Rightarrow> fail (unsupportedf ''ldc constant kind is unsupported'')))"

text \<open>The receiver of a \<open>putfield\<close>.\<close>

definition put_receiver :: "ft_instr \<Rightarrow> unit action" where
  "put_receiver ins = bind_act popValue (\<lambda>recv. with_frame (\<lambda>f.
     if Kind recv = UninitThisK then
       (if ThisClass f = [] then fail (unsupportedf ''putfield before init without current class'')
        else if F_Class ins \<noteq> ThisClass f
        then fail (invalidf ''putfield before init outside current class'')
        else ret ())
     else if \<not> referenceLike recv False then fail (invalidf ''putfield receiver is %s'')
     else ret ()))"

definition fieldOp :: "ft_instr \<Rightarrow> bool \<Rightarrow> bool \<Rightarrow> unit action" where
  "fieldOp ins static put =
     (if F_Desc ins = [] then fail (unsupportedf ''field without descriptor'')
      else bind_act (lift_res (parseField (F_Desc ins))) (\<lambda>(t, _).
        if put then
          then_act (if Kind t = RefK then popKind RefK else popKind (Kind t))
            (if \<not> static then put_receiver ins else ret ())
        else
          then_act (if \<not> static then then_act (popKind RefK) (ret ()) else ret ())
            (push t)))"

fun pop_args :: "ftype list \<Rightarrow> unit action" where
  "pop_args [] = ret ()"
| "pop_args (a # as) = then_act (popKind (Kind a)) (pop_args as)"

text \<open>The constructor part of \<open>invoke\<close>: the class that its target gets.\<close>

definition constructor_class :: "ft_instr \<Rightarrow> ftype \<Rightarrow> frame \<Rightarrow> ferror + string" where
  "constructor_class ins recv f =
     (if Kind recv \<noteq> UninitThisK \<and> Kind recv \<noteq> UninitNewK
      then Inl (invalidf ''constructor target is %s'')
      else if F_Class ins = [] then Inl (unsupportedf ''constructor without owner'')
      else if Kind recv = UninitNewK then
        (if Class recv = [] then Inl (unsupportedf ''allocation class unavailable'')
         else if Class recv \<noteq> F_Class ins
         then Inl (invalidf ''constructor owner differs from allocation class'')
         else Inr (Class recv))
      else if ThisClass f = [] then Inl (unsupportedf ''constructor this class unavailable'')
      else if F_Class ins \<noteq> ThisClass f \<and> F_Class ins \<noteq> DirectSuperClass f then
        (if DirectSuperClass f = [] then Inl (unsupportedf ''direct superclass unavailable'')
         else Inl (invalidf ''constructor owner is not current/direct superclass''))
      else Inr (ThisClass f))"

definition construct :: "ft_instr \<Rightarrow> ftype \<Rightarrow> ftype option action" where
  "construct ins recv f =
     (case constructor_class ins recv f of
        Inl e \<Rightarrow> Inl e
      | Inr cls \<Rightarrow>
          (let f = initialize recv (RefOf cls) f;
               f = (if Kind recv = UninitThisK then f\<lparr>ThisUninitialized := False\<rparr> else f)
           in Inr (Some recv, f)))"

definition invoke :: "ft_instr \<Rightarrow> ftype option action" where
  "invoke ins =
     (if F_Desc ins = [] then fail (unsupportedf ''invoke without descriptor'')
      else bind_act (lift_res (ParseDescriptor (F_Desc ins))) (\<lambda>(args, result).
        let constructor = (F_Name ins = ''<init>'');
            isStatic = (Op ins = OP_INVOKESTATIC \<or> Op ins = OP_INVOKEDYNAMIC) in
        if F_Name ins = ''<clinit>'' \<or>
           constructor \<and> (Op ins \<noteq> OP_INVOKESPECIAL \<or> result \<noteq> None)
        then fail (invalidf ''invalid initializer invocation'')
        else then_act (pop_args (rev args))
          (bind_act
             (if \<not> isStatic then
                (if constructor then popValue else popKind RefK)
              else ret (T TopK))
             (\<lambda>recv.
                if constructor then construct ins recv
                else (case result of
                        Some t \<Rightarrow> then_act (push t) (ret None)
                      | None \<Rightarrow> ret None)))))"

text \<open>Folding of floating-point constants.\<close>

definition floatBin :: "float_ops \<Rightarrow> int \<Rightarrow> unit action" where
  "floatBin fl op = bind_act (popKind FloatK) (\<lambda>b. bind_act (popKind FloatK) (\<lambda>a.
     if HasBits a \<and> HasBits b
     then push (FloatBits (fbin fl op (ucast (Bits a)) (ucast (Bits b))))
     else push (T FloatK)))"

definition doubleBin :: "float_ops \<Rightarrow> int \<Rightarrow> unit action" where
  "doubleBin fl op = bind_act (popKind DoubleK) (\<lambda>b. bind_act (popKind DoubleK) (\<lambda>a.
     if HasBits a \<and> HasBits b then push (DoubleBits (dbin fl op (Bits a) (Bits b)))
     else push (T DoubleK)))"

definition floatUn :: "unit action" where
  "floatUn = bind_act (popKind FloatK) (\<lambda>a.
     if HasBits a then push (FloatBits (ucast (Bits a) XOR 0x80000000)) else push (T FloatK))"

definition doubleUn :: "unit action" where
  "doubleUn = bind_act (popKind DoubleK) (\<lambda>a.
     if HasBits a then push (DoubleBits (Bits a XOR 0x8000000000000000)) else push (T DoubleK))"

section \<open>The switch of \<open>Transfer\<close>\<close>

text \<open>
  The cases in the order of the code, in seven groups; a group answers \<open>None\<close> for an opcode of
  another group. The result of an action is the constructor target, which only \<open>invoke\<close> sets.
\<close>

type_synonym case_action = "ftype option action"

definition plain :: "'a action \<Rightarrow> case_action" where
  "plain a = then_act a (ret None)"

definition constant_case :: "int \<Rightarrow> ft_instr \<Rightarrow> case_action option" where
  "constant_case op ins =
     (if op = OP_NOP then Some (ret None)
      else if op = OP_ACONST_NULL then Some (plain (push (T NullK)))
      else if op \<in> {OP_ICONST_M1, OP_ICONST_0, OP_ICONST_1, OP_ICONST_2, OP_ICONST_3, OP_ICONST_4,
                    OP_ICONST_5}
      then Some (plain (push (IntConst (word_of_int (op - OP_ICONST_0)))))
      else if op = OP_LCONST_0 then Some (plain (push (LongConst 0)))
      else if op = OP_LCONST_1 then Some (plain (push (LongConst 1)))
      else if op = OP_FCONST_0 then Some (plain (push (FloatBits 0)))
      else if op = OP_FCONST_1 then Some (plain (push (FloatBits 0x3f800000)))
      else if op = OP_FCONST_2 then Some (plain (push (FloatBits 0x40000000)))
      else if op = OP_DCONST_0 then Some (plain (push (DoubleBits 0)))
      else if op = OP_DCONST_1 then Some (plain (push (DoubleBits 0x3ff0000000000000)))
      else if op \<in> {OP_BIPUSH, OP_SIPUSH} then Some (plain (push (T IntK)))
      else if op \<in> {OP_LDC, OP_LDC_W} then Some (plain (pushLDC ins False))
      else if op = OP_LDC2_W then Some (plain (pushLDC ins True))
      else None)"

definition local_case :: "int \<Rightarrow> ft_instr \<Rightarrow> case_action option" where
  "local_case op ins =
     (if op \<in> {OP_ILOAD, OP_ILOAD_0, OP_ILOAD_1, OP_ILOAD_2, OP_ILOAD_3}
      then Some (plain (load ins IntK))
      else if op \<in> {OP_LLOAD, OP_LLOAD_0, OP_LLOAD_1, OP_LLOAD_2, OP_LLOAD_3}
      then Some (plain (load ins LongK))
      else if op \<in> {OP_FLOAD, OP_FLOAD_0, OP_FLOAD_1, OP_FLOAD_2, OP_FLOAD_3}
      then Some (plain (load ins FloatK))
      else if op \<in> {OP_DLOAD, OP_DLOAD_0, OP_DLOAD_1, OP_DLOAD_2, OP_DLOAD_3}
      then Some (plain (load ins DoubleK))
      else if op \<in> {OP_ALOAD, OP_ALOAD_0, OP_ALOAD_1, OP_ALOAD_2, OP_ALOAD_3}
      then Some (plain (load ins RefK))
      else if op \<in> {OP_ISTORE, OP_ISTORE_0, OP_ISTORE_1, OP_ISTORE_2, OP_ISTORE_3}
      then Some (plain (store ins IntK))
      else if op \<in> {OP_LSTORE, OP_LSTORE_0, OP_LSTORE_1, OP_LSTORE_2, OP_LSTORE_3}
      then Some (plain (store ins LongK))
      else if op \<in> {OP_FSTORE, OP_FSTORE_0, OP_FSTORE_1, OP_FSTORE_2, OP_FSTORE_3}
      then Some (plain (store ins FloatK))
      else if op \<in> {OP_DSTORE, OP_DSTORE_0, OP_DSTORE_1, OP_DSTORE_2, OP_DSTORE_3}
      then Some (plain (store ins DoubleK))
      else if op \<in> {OP_ASTORE, OP_ASTORE_0, OP_ASTORE_1, OP_ASTORE_2, OP_ASTORE_3}
      then Some (plain (store ins RefK))
      else if op = OP_IINC then Some (plain (doIinc ins))
      else None)"

definition arith_case :: "float_ops \<Rightarrow> int \<Rightarrow> ft_instr \<Rightarrow> case_action option" where
  "arith_case fl op ins =
     (if op \<in> {OP_POP, OP_POP2, OP_DUP, OP_DUP_X1, OP_DUP_X2, OP_DUP2, OP_DUP2_X1, OP_DUP2_X2, OP_SWAP}
      then Some (plain (dupFamily op))
      else if op \<in> {OP_IADD, OP_ISUB, OP_IMUL, OP_IDIV, OP_IREM, OP_IAND, OP_IOR, OP_IXOR}
      then Some (plain (bin IntK IntK))
      else if op \<in> {OP_LADD, OP_LSUB, OP_LMUL, OP_LDIV, OP_LREM, OP_LAND, OP_LOR, OP_LXOR}
      then Some (plain (bin LongK LongK))
      else if op \<in> {OP_FADD, OP_FSUB, OP_FMUL, OP_FDIV, OP_FREM} then Some (plain (floatBin fl op))
      else if op \<in> {OP_DADD, OP_DSUB, OP_DMUL, OP_DDIV, OP_DREM} then Some (plain (doubleBin fl op))
      else if op = OP_INEG then Some (plain (un IntK IntK))
      else if op = OP_LNEG then Some (plain (un LongK LongK))
      else if op = OP_FNEG then Some (plain floatUn)
      else if op = OP_DNEG then Some (plain doubleUn)
      else if op \<in> {OP_ISHL, OP_ISHR, OP_IUSHR} then Some (plain (shift IntK))
      else if op \<in> {OP_LSHL, OP_LSHR, OP_LUSHR} then Some (plain (shift LongK))
      else None)"

definition convert_case :: "int \<Rightarrow> case_action option" where
  "convert_case op =
     (if op = OP_I2L then Some (plain (conv IntK LongK))
      else if op = OP_I2F then Some (plain (conv IntK FloatK))
      else if op = OP_I2D then Some (plain (conv IntK DoubleK))
      else if op = OP_L2I then Some (plain (conv LongK IntK))
      else if op = OP_L2F then Some (plain (conv LongK FloatK))
      else if op = OP_L2D then Some (plain (conv LongK DoubleK))
      else if op = OP_F2I then Some (plain (conv FloatK IntK))
      else if op = OP_F2L then Some (plain (conv FloatK LongK))
      else if op = OP_F2D then Some (plain (conv FloatK DoubleK))
      else if op = OP_D2I then Some (plain (conv DoubleK IntK))
      else if op = OP_D2L then Some (plain (conv DoubleK LongK))
      else if op = OP_D2F then Some (plain (conv DoubleK FloatK))
      else if op \<in> {OP_I2B, OP_I2C, OP_I2S} then Some (plain (un IntK IntK))
      else if op = OP_LCMP then Some (plain (bin LongK IntK))
      else if op \<in> {OP_FCMPL, OP_FCMPG} then Some (plain (bin FloatK IntK))
      else if op \<in> {OP_DCMPL, OP_DCMPG} then Some (plain (bin DoubleK IntK))
      else None)"

definition branch_case :: "int \<Rightarrow> case_action option" where
  "branch_case op =
     (if op \<in> {OP_IFEQ, OP_IFNE, OP_IFLT, OP_IFGE, OP_IFGT, OP_IFLE} then Some (plain (popKind IntK))
      else if op \<in> {OP_IF_ICMPEQ, OP_IF_ICMPNE, OP_IF_ICMPLT, OP_IF_ICMPGE, OP_IF_ICMPGT, OP_IF_ICMPLE}
      then Some (plain (then_act (popKind IntK) (popKind IntK)))
      else if op \<in> {OP_IF_ACMPEQ, OP_IF_ACMPNE}
      then Some (plain (then_act (popKind RefK) (popKind RefK)))
      else if op \<in> {OP_IFNULL, OP_IFNONNULL} then Some (plain (popKind RefK))
      else if op \<in> {OP_GOTO, OP_GOTO_W} then Some (ret None)
      else if op \<in> {OP_TABLESWITCH, OP_LOOKUPSWITCH} then Some (plain (popKind IntK))
      else if op = OP_IRETURN then Some (plain (popKind IntK))
      else if op = OP_LRETURN then Some (plain (popKind LongK))
      else if op = OP_FRETURN then Some (plain (popKind FloatK))
      else if op = OP_DRETURN then Some (plain (popKind DoubleK))
      else if op = OP_ARETURN then Some (plain (popKind RefK))
      else if op = OP_RETURN then
        Some (with_frame (\<lambda>f. if ThisUninitialized f
          then fail (invalidf ''constructor return before initialization'') else ret None))
      else None)"

definition do_new :: "ft_instr \<Rightarrow> unit action" where
  "do_new ins =
     (let class = F_Class ins;
          class = (if class = [] \<and> C_Class (F_Const ins) \<noteq> [] then C_Class (F_Const ins) else class)
      in if class = [] then fail (unsupportedf ''new without class'')
         else push ((UninitAt (PC ins))\<lparr>Class := class\<rparr>))"

definition do_anewarray :: "ft_instr \<Rightarrow> unit action" where
  "do_anewarray ins = then_act (popKind IntK)
     (if F_Class ins = [] then fail (unsupportedf ''anewarray without component class'')
      else
        (let cls = (if F_Class ins ! 0 \<noteq> CHR ''['' then ''L'' @ F_Class ins @ '';'' else F_Class ins)
         in case parseField (''['' @ cls) of
              Inl e \<Rightarrow> fail (invalidf ''anewarray component descriptor'')
            | Inr (array, n) \<Rightarrow>
                if n \<noteq> length cls + 1 then fail (invalidf ''anewarray component descriptor'')
                else push array))"

definition set_stack :: "ftype list \<Rightarrow> unit action" where
  "set_stack ts f = Inr ((), f\<lparr>Stack := ts\<rparr>)"

definition do_athrow :: "unit action" where
  "do_athrow = bind_act (popKind RefK) (\<lambda>x. set_stack [x])"

definition do_checkcast :: "ft_instr \<Rightarrow> unit action" where
  "do_checkcast ins = bind_act (popKind RefK) (\<lambda>x.
     let x = (if F_Class ins \<noteq> [] then x\<lparr>Class := F_Class ins\<rparr> else x) in
     if Kind x = NullK then push x
     else if F_Class ins \<noteq> [] then push (RefOf (F_Class ins)) else push x)"

fun pop_ints :: "nat \<Rightarrow> unit action" where
  "pop_ints 0 = ret ()"
| "pop_ints (Suc n) = then_act (popKind IntK) (pop_ints n)"

definition do_multianewarray :: "ft_instr \<Rightarrow> unit action" where
  "do_multianewarray ins =
     then_act (pop_ints (nat (if Dims ins \<le> 0 then 1 else Dims ins)))
       (push (RefOf (if F_Class ins = [] then ''java/lang/Object'' else F_Class ins)))"

definition object_case :: "int \<Rightarrow> ft_instr \<Rightarrow> case_action option" where
  "object_case op ins =
     (if op = OP_GETSTATIC then Some (plain (fieldOp ins True False))
      else if op = OP_PUTSTATIC then Some (plain (fieldOp ins True True))
      else if op = OP_GETFIELD then Some (plain (fieldOp ins False False))
      else if op = OP_PUTFIELD then Some (plain (fieldOp ins False True))
      else if op \<in> {OP_INVOKEVIRTUAL, OP_INVOKESPECIAL, OP_INVOKESTATIC, OP_INVOKEINTERFACE,
                    OP_INVOKEDYNAMIC}
      then Some (invoke ins)
      else if op = OP_NEW then Some (plain (do_new ins))
      else if op = OP_NEWARRAY
      then Some (plain (then_act (popKind IntK) (push (RefOf (newArrayClass (AType ins))))))
      else if op = OP_ANEWARRAY then Some (plain (do_anewarray ins))
      else if op = OP_ARRAYLENGTH then Some (plain (un RefK IntK))
      else if op = OP_ATHROW then Some (plain do_athrow)
      else if op = OP_CHECKCAST then Some (plain (do_checkcast ins))
      else if op = OP_INSTANCEOF then Some (plain (un RefK IntK))
      else if op \<in> {OP_MONITORENTER, OP_MONITOREXIT} then Some (plain (popKind RefK))
      else if op = OP_MULTIANEWARRAY then Some (plain (do_multianewarray ins))
      else None)"

definition array_case :: "int \<Rightarrow> case_action option" where
  "array_case op =
     (if op \<in> {OP_IALOAD, OP_BALOAD, OP_CALOAD, OP_SALOAD} then Some (plain (arrayLoad IntK))
      else if op = OP_LALOAD then Some (plain (arrayLoad LongK))
      else if op = OP_FALOAD then Some (plain (arrayLoad FloatK))
      else if op = OP_DALOAD then Some (plain (arrayLoad DoubleK))
      else if op = OP_AALOAD then Some (plain (arrayLoad RefK))
      else if op \<in> {OP_IASTORE, OP_BASTORE, OP_CASTORE, OP_SASTORE} then Some (plain (arrayStore IntK))
      else if op = OP_LASTORE then Some (plain (arrayStore LongK))
      else if op = OP_FASTORE then Some (plain (arrayStore FloatK))
      else if op = OP_DASTORE then Some (plain (arrayStore DoubleK))
      else if op = OP_AASTORE then Some (plain (arrayStore RefK))
      else None)"

definition orelse :: "'a option \<Rightarrow> 'a option \<Rightarrow> 'a option" where
  "orelse a b = (case a of None \<Rightarrow> b | Some x \<Rightarrow> Some x)"

definition transfer_case :: "float_ops \<Rightarrow> int \<Rightarrow> ft_instr \<Rightarrow> case_action option" where
  "transfer_case fl op ins =
     orelse (constant_case op ins) (orelse (local_case op ins) (orelse (arith_case fl op ins)
       (orelse (convert_case op) (orelse (branch_case op) (orelse (object_case op ins)
         (array_case op))))))"

definition exception_frame :: "frame \<Rightarrow> ftype option \<Rightarrow> frame" where
  "exception_frame f constructorSite =
     (let ls = (case constructorSite of
                  None \<Rightarrow> Locals f
                | Some site \<Rightarrow> map (\<lambda>t. if sameUninitialized t site then T TopK else t) (Locals f))
      in f\<lparr>Locals := ls, Stack := [RefOf ''java/lang/Throwable'']\<rparr>)"

definition Transfer :: "float_ops \<Rightarrow> frame \<Rightarrow> ft_instr \<Rightarrow> ferror + frame \<times> frame option" where
  "Transfer fl f ins =
     res_bind (Validate f) (\<lambda>_.
       let op = Op ins in
       if op = OP_JSR \<or> op = OP_JSR_W \<or> op = OP_RET then Inl (unsupportedf ''jsr/ret not inlined'')
       else
         (case transfer_case fl op ins of
            None \<Rightarrow> Inl (unsupportedf ''opcode %#x'')
          | Some act \<Rightarrow>
              (case act f of
                 Inl terr \<Rightarrow> Inl (terr\<lparr>EPC := PC ins, EOp := op\<rparr>)
               | Inr (constructorSite, out) \<Rightarrow>
                   if MayThrowOpcode op then Inr (out, Some (exception_frame f constructorSite))
                   else Inr (out, None))))"

section \<open>Every instruction keeps frames valid\<close>

lemma keeps_helpers [keeps_intros]:
  "keeps (bin a b)" "keeps (un a b)" "keeps (shift a)" "keeps (load ins a)"
  "keeps (conv a b)" "keeps (arrayLoad a)" "keeps (arrayStore a)" "keeps (doIinc ins)"
  "keeps (floatBin fl op)" "keeps (doubleBin fl op)" "keeps floatUn" "keeps doubleUn"
  unfolding bin_def un_def shift_def load_def conv_def arrayLoad_def arrayStore_def doIinc_def
    floatBin_def doubleBin_def floatUn_def doubleUn_def
  by (intro keeps_intros)+

lemma keeps_store [keeps_intros]: "keeps (store ins a)"
  unfolding store_def by (intro keeps_intros)

lemma keeps_pushLDC [keeps_intros]: "keeps (pushLDC ins w)"
  by (cases "C_Kind (F_Const ins)") (auto simp: pushLDC_def Let_def intro!: keeps_intros)

lemma keeps_fieldOp [keeps_intros]: "keeps (fieldOp ins st put)"
  by (auto simp: fieldOp_def put_receiver_def split: prod.split intro!: keeps_intros)

lemma keeps_pop_args [keeps_intros]: "keeps (pop_args as)"
  by (induction as) (auto intro!: keeps_intros)

lemma keeps_pop_ints [keeps_intros]: "keeps (pop_ints n)"
  by (induction n) (auto intro!: keeps_intros)

lemma frame_ok_this: "frame_ok (f\<lparr>ThisUninitialized := b\<rparr>) = frame_ok f"
  "shape (f\<lparr>ThisUninitialized := b\<rparr>) = shape f"
  by (simp_all add: frame_ok_iff shape_def stackLimit_def)

lemma RefOf_value: "single (RefOf c)" "Computational (RefOf c)"
  by (simp_all add: single_def RefOf_def T_def IsCat2Head_def IsTail_def Computational_iff)

lemma keeps_construct [keeps_intros]: "keeps (construct ins recv)"
  by (rule keepsI) (auto simp: construct_def Let_def frame_ok_this frame_ok_initialize RefOf_value
      split: sum.splits if_splits)

lemma keeps_invoke [keeps_intros]: "keeps (invoke ins)"
  by (auto simp: invoke_def Let_def split: prod.split option.split intro!: keeps_intros)

lemma keeps_objects [keeps_intros]:
  "keeps (do_new ins)" "keeps (do_checkcast ins)" "keeps (do_multianewarray ins)"
  unfolding do_new_def do_checkcast_def do_multianewarray_def Let_def by (intro keeps_intros)+

lemma keeps_do_anewarray [keeps_intros]: "keeps (do_anewarray ins)"
  by (auto simp: do_anewarray_def Let_def split: sum.split prod.split intro!: keeps_intros)

lemma keeps_plain [keeps_intros]: "keeps a \<Longrightarrow> keeps (plain a)"
  unfolding plain_def by (intro keeps_intros)


lemma keeps_athrow [keeps_intros]: "keeps do_athrow"
proof (rule keepsI)
  fix f a f' assume ok: "frame_ok f" and d: "do_athrow f = Inr (a, f')"
  then obtain x g where p: "popKind RefK f = Inr (x, g)" and f': "f' = g\<lparr>Stack := [x]\<rparr>"
    by (auto simp: do_athrow_def bind_act_Inr set_stack_def)
  have g: "frame_ok g" "shape g = shape f" using keepsD [OF keeps_popKind ok p] by simp_all
  have x: "Kind x = RefK \<or> Kind x = NullK" and ne: "Stack f \<noteq> []"
    using p by (auto simp: popKind_def bind_act_Inr popValue_def act_simps split: if_splits)
  have lim: "slen (Stack f) \<ge> 1" using ne by (cases "Stack f") (simp_all add: slen_def)
  have "stackLimit g \<ge> 1"
    using lim ok shape_stackLimit [OF g(2)] by (simp add: frame_ok_iff)
  then show "frame_ok f' \<and> shape f' = shape f"
    using g x by (auto simp: f' frame_ok_iff shape_def stackLimit_def wf_slots_single
        Computational_iff IsCat2Head_def IsTail_def slen_def)
qed

lemma ref_value: "\<not> IsCat2Head (Kind (RefOf c))" "Computational (RefOf c)"
  using RefOf_value by (simp_all add: single_def)

lemma keeps_groups:
  "constant_case op ins = Some a \<Longrightarrow> keeps a" "local_case op ins = Some a \<Longrightarrow> keeps a"
  "arith_case fl op ins = Some a \<Longrightarrow> keeps a" "convert_case op = Some a \<Longrightarrow> keeps a"
  "branch_case op = Some a \<Longrightarrow> keeps a" "object_case op ins = Some a \<Longrightarrow> keeps a"
  "array_case op = Some a \<Longrightarrow> keeps a"
  unfolding constant_case_def local_case_def arith_case_def convert_case_def branch_case_def
    object_case_def array_case_def
  by (auto split: if_split_asm intro!: keeps_intros simp del: insert_iff)

lemma orelse_Some: "orelse a b = Some x \<longleftrightarrow> a = Some x \<or> a = None \<and> b = Some x"
  by (cases a) (auto simp: orelse_def)

lemma keeps_transfer_case: "transfer_case fl op ins = Some a \<Longrightarrow> keeps a"
  unfolding transfer_case_def orelse_Some using keeps_groups by blast

lemma wf_map_dead:
  assumes g: "\<And>t. g t = t \<or> single t \<and> single (g t)" and wf: "wf_slots True ls"
  shows "wf_slots True (map g ls)"
proof -
  have keep: "g t = t" if "\<not> single t" for t using g [of t] that by blast
  have bk: "single t" if "single (g t)" for t by (metis keep that)
  have "pair_ok (map g ls) i" if i: "i < length ls" for i
  proof -
    note p = pair_okD [OF wf i]
    have h: "i + 1 < length ls \<and> TypeEqual (g (ls ! (i + 1))) (TailOf (g (ls ! i)))"
      if c: "IsCat2Head (Kind (g (ls ! i)))"
    proof -
      have "\<not> single (g (ls ! i))" using c by (simp add: single_def)
      then have e: "g (ls ! i) = ls ! i" using g by blast
      have q: "i + 1 < length ls \<and> TypeEqual (ls ! (i + 1)) (TailOf (ls ! i))"
        by (rule p(1)) (use c e in simp)
      have "IsTail (Kind (ls ! (i + 1)))"
        using tail_of_head [of "ls ! i" "ls ! (i + 1)"] c q by (simp only: e)
      then have "g (ls ! (i + 1)) = ls ! (i + 1)" by (intro keep) (simp add: single_def)
      then show ?thesis using q by (simp only: e)
    qed
    have t: "0 < i \<and> IsCat2Head (Kind (g (ls ! (i - 1))))" if "IsTail (Kind (g (ls ! i)))"
    proof -
      have e: "g (ls ! i) = ls ! i" using keep g [of "ls ! i"] that by (auto simp: single_def)
      with p(2) that have "0 < i" "IsCat2Head (Kind (ls ! (i - 1)))" by auto
      then show ?thesis using keep [of "ls ! (i - 1)"] by (auto simp: single_def)
    qed
    show ?thesis using i h t by (auto simp: pair_ok_def)
  qed
  then show ?thesis by (simp add: wf_locals_slots)
qed

lemma wf_exception_locals:
  assumes "frame_ok f" shows "wf_slots True (Locals (exception_frame f s))"
proof -
  have wf: "wf_slots True (Locals f)" using assms by (simp add: frame_ok_iff)
  have "wf_slots True (map (\<lambda>t. if sameUninitialized t site then T TopK else t) (Locals f))" for site
    by (rule wf_map_dead [OF _ wf])
      (auto simp: sameUninitialized_def single_def IsCat2Head_def IsTail_def)
  then show ?thesis using wf by (simp add: exception_frame_def Let_def split: option.split)
qed

text \<open>C10: an instruction takes a valid frame to a valid frame of the same shape (the number of
  locals, the stack limit, the class context); a frame for the handlers is given exactly for the
  instructions that may throw, it has the same shape, its locals are well formed and its stack is
  the one thrown reference, so it is valid unless the method has no stack at all.\<close>

theorem Transfer_valid:
  assumes "Transfer fl f ins = Inr (out, ex)"
  shows "frame_ok f \<and> frame_ok out \<and> shape out = shape f \<and>
    (case ex of
       None \<Rightarrow> \<not> MayThrowOpcode (Op ins)
     | Some e \<Rightarrow> MayThrowOpcode (Op ins) \<and> shape e = shape f \<and> wf_slots True (Locals e) \<and>
         Stack e = [RefOf ''java/lang/Throwable''] \<and> (frame_ok e \<longleftrightarrow> 1 \<le> stackLimit f))"
proof -
  have ok: "frame_ok f"
    using assms by (auto simp: Transfer_def frame_ok_def is_ok_iff split: sum.splits)
  then have v: "Validate f = Inr ()" by (simp add: frame_ok_def is_ok_iff)
  obtain act s where act: "transfer_case fl (Op ins) ins = Some act" and run: "act f = Inr (s, out)"
    and ex: "ex = (if MayThrowOpcode (Op ins) then Some (exception_frame f s) else None)"
    using assms by (auto simp: Transfer_def v Let_def split: if_splits option.splits sum.splits)
  have out: "frame_ok out \<and> shape out = shape f"
    using keepsD [OF keeps_transfer_case [OF act] ok run] .
  have sh: "shape (exception_frame f s) = shape f" "stackLimit (exception_frame f s) = stackLimit f"
    "length (Locals (exception_frame f s)) = length (Locals f)"
    "Stack (exception_frame f s) = [RefOf ''java/lang/Throwable'']"
    by (simp_all add: exception_frame_def shape_def stackLimit_def Let_def split: option.split)
  show ?thesis
    using ok out sh wf_exception_locals [OF ok, of s]
    by (auto simp: ex frame_ok_iff wf_slots_single ref_value slen_def IsCat2Head_def)
qed

text \<open>A concrete run: an integer division, which may throw.\<close>

definition div_ins :: ft_instr where
  "div_ins = \<lparr>Op = OP_IDIV, PC = 7, F_Wide = False, Local = -1, IincConst = 0, F_Class = [],
     F_Name = [], F_Desc = [],
     F_Const = \<lparr>C_Kind = ConstNone, C_Int = 0, C_Long = 0, C_FloatBits = 0, C_DoubleBits = 0,
                C_String = [], C_Class = []\<rparr>,
     AType = 0, Dims = 0\<rparr>"

definition two_ints :: frame where
  "two_ints = (NewFrame 1)\<lparr>Locals := [UninitAt 3], Stack := [T IntK, IntConst 5], maxStack := 2,
     hasLimits := True\<rparr>"

definition no_floats :: float_ops where
  "no_floats = \<lparr>fbin = (\<lambda>_ a _. a), dbin = (\<lambda>_ a _. a)\<rparr>"

lemma run_div: "Transfer no_floats two_ints div_ins =
    Inr (two_ints\<lparr>Stack := [T IntK]\<rparr>, Some (two_ints\<lparr>Stack := [RefOf ''java/lang/Throwable'']\<rparr>))"
  by code_simp

theorem Transfer_valid_witness:
  "\<exists>out ex. Transfer no_floats two_ints div_ins = Inr (out, Some ex) \<and> frame_ok out \<and> frame_ok ex"
  using Transfer_valid [OF run_div] run_div by (auto simp: stackLimit_def two_ints_def)


lemma if_Some_None: "(if c then Some x else y) = None \<longleftrightarrow> \<not> c \<and> y = None"
  by simp

lemma constant_domain: "constant_case op ins = None \<longleftrightarrow> op \<notin> set [0..20]"
  unfolding constant_case_def if_Some_None by (simp add: upto_rec1 del: set_upto; blast)

lemma local_domain: "local_case op ins = None \<longleftrightarrow> op \<notin> set [21..45] \<and> op \<notin> set [54..78] \<and> op \<noteq> 132"
  unfolding local_case_def if_Some_None by (simp add: upto_rec1 del: set_upto; blast)

lemma array_domain: "array_case op = None \<longleftrightarrow> op \<notin> set [46..53] \<and> op \<notin> set [79..86]"
  unfolding array_case_def if_Some_None by (simp add: upto_rec1 del: set_upto; blast)

lemma arith_domain: "arith_case fl op ins = None \<longleftrightarrow> op \<notin> set [87..131]"
  unfolding arith_case_def if_Some_None by (simp add: upto_rec1 del: set_upto; blast)

lemma convert_domain: "convert_case op = None \<longleftrightarrow> op \<notin> set [133..152]"
  unfolding convert_case_def if_Some_None by (simp add: upto_rec1 del: set_upto; blast)

lemma branch_domain: "branch_case op = None \<longleftrightarrow> op \<notin> set [153..167] \<and> op \<notin> set [170..177] \<and> op \<notin> set [198..200]"
  unfolding branch_case_def if_Some_None by (simp add: upto_rec1 del: set_upto; blast)

lemma object_domain: "object_case op ins = None \<longleftrightarrow> op \<notin> set [178..195] \<and> op \<noteq> 197"
  unfolding object_case_def if_Some_None by (simp add: upto_rec1 del: set_upto; blast)

lemma transfer_case_None:
  "transfer_case fl op ins = None \<longleftrightarrow> op \<notin> {0..201} \<or> op \<in> {OP_JSR, OP_RET, OP_JSR_W, OP_WIDE}"
proof -
  have groups: "transfer_case fl op ins = None \<longleftrightarrow>
    constant_case op ins = None \<and> local_case op ins = None \<and> arith_case fl op ins = None \<and>
    convert_case op = None \<and> branch_case op = None \<and> object_case op ins = None \<and> array_case op = None"
    by (auto simp: transfer_case_def orelse_def split: option.splits)
  note domains = groups [unfolded constant_domain local_domain arith_domain convert_domain
      branch_domain object_domain array_domain set_upto atLeastAtMost_iff]
  show ?thesis
  proof
    assume none: "transfer_case fl op ins = None"
    show "op \<notin> {0..201} \<or> op \<in> {OP_JSR, OP_RET, OP_JSR_W, OP_WIDE}"
    proof (rule ccontr)
      assume c: "\<not> ?thesis"
      then have r: "0 \<le> op" "op \<le> 201" "op \<noteq> 168" "op \<noteq> 169" "op \<noteq> 196" "op \<noteq> 201" by auto
      note d = none [unfolded domains]
      have "21 \<le> op" using d r by auto
      then have "46 \<le> op" using d by auto
      then have "54 \<le> op" using d by auto
      then have "79 \<le> op" using d by auto
      then have "87 \<le> op" using d by auto
      then have "132 < op" using d by auto
      then have "153 \<le> op" using d by auto
      then have "167 < op" using d by auto
      then have "170 \<le> op" using r by auto
      then have "178 \<le> op" using d by auto
      then have "195 < op" using d by auto
      then have "197 < op" using d r by auto
      then show False using d r by auto
    qed
  next
    assume "op \<notin> {0..201} \<or> op \<in> {OP_JSR, OP_RET, OP_JSR_W, OP_WIDE}"
    then show "transfer_case fl op ins = None" unfolding domains by auto
  qed
qed


text \<open>C33: \<open>Transfer\<close> fails in three ways only: on an invalid frame with the validation error, on an
  opcode it does not know (outside 0..201, \<open>jsr\<close>, \<open>ret\<close>, \<open>wide\<close>) as unsupported, and otherwise with an
  error of the instruction, which carries its pc and its opcode.\<close>

theorem Transfer_errors:
  "case Transfer fl f ins of
     Inr _ \<Rightarrow> frame_ok f \<and> Op ins \<in> {0..201} - {OP_JSR, OP_RET, OP_JSR_W, OP_WIDE}
   | Inl e \<Rightarrow>
       if \<not> frame_ok f then Validate f = Inl e
       else if Op ins \<notin> {0..201} - {OP_JSR, OP_RET, OP_JSR_W, OP_WIDE} then IsUnsupported e
       else EPC e = PC ins \<and> EOp e = Op ins"
proof (cases "Validate f")
  case (Inl e)
  then show ?thesis by (simp add: Transfer_def frame_ok_def)
next
  case (Inr u)
  then have v: "Validate f = Inr ()" and ok: "frame_ok f" by (simp_all add: frame_ok_def)
  show ?thesis
  proof (cases "transfer_case fl (Op ins) ins")
    case None
    then show ?thesis
      using transfer_case_None [of fl "Op ins" ins] ok
      by (auto simp: Transfer_def v Let_def IsUnsupported_def unsupportedf_def)
  next
    case (Some act)
    then have r: "Op ins \<in> {0..201} - {OP_JSR, OP_RET, OP_JSR_W, OP_WIDE}"
      using transfer_case_None [of fl "Op ins" ins] by auto
    then have "\<not> (Op ins = OP_JSR \<or> Op ins = OP_JSR_W \<or> Op ins = OP_RET)" by auto
    then show ?thesis
      using ok Some r by (simp add: Transfer_def v Let_def split: sum.split prod.split)
  qed
qed

end
