(* ===== verification/SsaTypes.thy ===== *)
theory SsaTypes
  imports FrameTransfer
begin

text \<open>
  The data of \<open>core/ssabuild\<close> (\<open>ssa.go\<close>), and its work counter (\<open>counter.go\<close>). An error is its message. A \<open>WorkCounter\<close> is the \<open>LimitCounter\<close> of the package,
  \<open>None\<close> when nil; a charge returns the counter with the work added.
\<close>

type_synonym ssa_error = string

section \<open>The work counter\<close>

record LimitCounter =
  CMax :: u64
  CUsed :: u64

definition LimitCharge :: "LimitCounter option \<Rightarrow> u64 \<Rightarrow> ssa_error + LimitCounter option" where
  "LimitCharge c units =
     (case c of
        None \<Rightarrow> Inr None
      | Some c \<Rightarrow>
          if units > - 1 - CUsed c \<or> CMax c > 0 \<and> (CUsed c > CMax c \<or> units > CMax c - CUsed c)
          then Inl ''analysis_budget_exceeded: after %d updates''
          else Inr (Some (c\<lparr>CUsed := CUsed c + units\<rparr>)))"

definition charge :: "LimitCounter option \<Rightarrow> u64 \<Rightarrow> ssa_error + LimitCounter option" where
  "charge c n = (if c = None then Inr None else LimitCharge c n)"

lemma half_up_less: "(1 :: u64) < sz \<Longrightarrow> unat ((sz + 1) div 2) < unat sz"
proof (cases "sz = - 1")
  case False
  assume s: "1 < sz"
  have "unat (sz + 1) = unat sz + 1"
    using unatSuc [of sz] False by (simp add: add.commute eq_neg_iff_add_eq_0)
  moreover have "1 < unat sz" using s by (simp add: word_less_nat_alt)
  ultimately show ?thesis by (simp add: unat_div)
qed (simp add: word_less_nat_alt unat_div)

text \<open>The loop \<open>size = (size + 1) / 2\<close>: how often until one is left.\<close>

function log_rounds :: "u64 \<Rightarrow> u64 \<Rightarrow> u64" where
  "log_rounds sz log = (if sz > 1 then log_rounds ((sz + 1) div 2) (log + 1) else log)"
  by pat_completeness auto

termination
  by (relation "measure (\<lambda>(sz, log). unat sz)") (auto simp: half_up_less)

declare log_rounds.simps [simp del]

definition sortWorkEstimate :: "int \<Rightarrow> u64" where
  "sortWorkEstimate n =
     (if n < 2 then 0
      else let log = log_rounds (word_of_int n) 0 in
        if word_of_int n > (- 1 :: u64) div log then - 1 else word_of_int n * log)"

section \<open>Origins, phis, blocks\<close>

type_synonym ValueID = u32

record SlotKey =
  S_Local :: bool
  S_Index :: int

definition SlotKey_String :: "SlotKey \<Rightarrow> string" where
  "SlotKey_String s = (if S_Local s then ''l'' @ show_int (S_Index s) else ''s'' @ show_int (S_Index s))"

datatype OriginKind = OriginTop | OriginParam | OriginInstr | OriginPhi | OriginConst

fun origin_kind_no :: "OriginKind \<Rightarrow> int" where
  "origin_kind_no OriginTop = 0"
| "origin_kind_no OriginParam = 1"
| "origin_kind_no OriginInstr = 2"
| "origin_kind_no OriginPhi = 3"
| "origin_kind_no OriginConst = 4"

record Origin =
  O_Kind :: OriginKind
  O_PC :: u16
  O_Slot :: int
  O_Aux :: int

definition OriginKey :: "Origin \<Rightarrow> string" where
  "OriginKey o' =
     show_int (origin_kind_no (O_Kind o')) @ '':'' @ show_int (uint (O_PC o')) @ '':'' @
     show_int (O_Slot o') @ '':'' @ show_int (O_Aux o')"

record PhiOperand =
  PO_Edge :: EdgeID
  PO_Origin :: Origin
  PO_Val :: ValueID

record Phi =
  P_ID :: ValueID
  P_Block :: BlockID
  P_Slot :: SlotKey
  P_Type :: ftype
  Operands :: "PhiOperand list"

record BlockFrame =
  Reachable :: bool
  BF_ID :: BlockID
  First :: u16
  BF_In :: frame
  BF_Out :: frame
  InOrig :: "Origin list"
  OutOrig :: "Origin list"

definition EntryEdgeKind :: EdgeKind where
  "EntryEdgeKind = EdgeOther 255"

record EdgeState =
  ES_Frame :: frame
  ES_Origins :: "Origin list"

record ValueDefinition =
  VD_ID :: ValueID
  VD_Origin :: Origin

record InstructionValues =
  IV_PC :: u16
  Before :: frame
  BeforeOrigins :: "Origin list"
  Uses :: "Origin list"
  Results :: "Origin list"
  UseIDs :: "ValueID list"
  ResultIDs :: "ValueID list"

text \<open>The edge states are a Go map; \<open>incoming\<close> is nil until the solver has set it.\<close>

record ssa_fun =
  Values :: "ValueDefinition list"
  EdgeStates :: "EdgeID \<rightharpoonup> EdgeState"
  Instructions :: "InstructionValues list"
  entryEdge :: "ir_edge option"
  incoming :: "(u16 \<Rightarrow> ir_edge list) option"
  F_IR :: "MethodIR option"
  F_Blocks :: "BlockFrame list"
  Phis :: "Phi list"
  Params :: "ValueID list"
  Work :: u64

end
