(* ===== verification/SsaOrigins.thy ===== *)
theory SsaOrigins
  imports SsaTypes
begin

text \<open>
  \<open>core/ssabuild/origins.go\<close> and the frame part of \<open>solver.go\<close>: the origin of every slot of a
  frame, the entry frame of a method, and how one instruction moves origins. The functions that
  write into a slice return the new one.
\<close>

section \<open>Origins of a frame\<close>

definition top_origin :: "nat \<Rightarrow> Origin" where
  "top_origin i = \<lparr>O_Kind = OriginTop, O_PC = 0, O_Slot = int i, O_Aux = 0\<rparr>"

definition param_origin :: "nat \<Rightarrow> Origin" where
  "param_origin i = \<lparr>O_Kind = OriginParam, O_PC = 0, O_Slot = int i, O_Aux = 0\<rparr>"

definition frame_slots :: "frame \<Rightarrow> ftype list" where
  "frame_slots f = Locals f @ Stack f"

text \<open>One part of \<open>normalizeOrigins\<close>, from left to right; \<open>prev\<close> is the origin one slot below.\<close>

fun normalize_part :: "nat \<Rightarrow> Origin option \<Rightarrow> ftype list \<Rightarrow> Origin list \<Rightarrow> Origin list" where
  "normalize_part at prev (t # ts) (x # xs) =
     (let y = (if Kind t = TopK then top_origin at
               else case prev of
                      Some p \<Rightarrow> if IsTail (Kind t) then p else x
                    | None \<Rightarrow> x)
      in y # normalize_part (at + 1) (Some y) ts xs)"
| "normalize_part at prev ts xs = xs"

definition normalizeOrigins :: "frame \<Rightarrow> Origin list \<Rightarrow> Origin list" where
  "normalizeOrigins f origins =
     (let n = length (Locals f) in
      normalize_part 0 None (Locals f) (take n origins) @
      normalize_part n None (Stack f) (drop n origins))"

fun params_from :: "nat \<Rightarrow> Origin option \<Rightarrow> ftype list \<Rightarrow> Origin list" where
  "params_from i prev [] = []"
| "params_from i prev (t # ts) =
     (let y = (case prev of
                 Some p \<Rightarrow> if IsTail (Kind t) then p
                           else if Kind t = TopK then top_origin i else param_origin i
               | None \<Rightarrow> if Kind t = TopK then top_origin i else param_origin i)
      in y # params_from (i + 1) (Some y) ts)"

definition paramOrigins :: "frame \<Rightarrow> Origin list" where
  "paramOrigins f = params_from 0 None (frame_slots f)"

definition originsEqual :: "Origin list \<Rightarrow> Origin list \<Rightarrow> bool" where
  "originsEqual a b \<longleftrightarrow> length a = length b \<and> list_all2 (\<lambda>x y. OriginKey x = OriginKey y) a b"

definition originsFromFrame :: "frame \<Rightarrow> Origin \<Rightarrow> Origin list" where
  "originsFromFrame f def =
     map (\<lambda>(i, t).
            if Kind t = TopK then top_origin i
            else if O_Kind def = OriginTop \<and> i < length (Locals f) then param_origin i
            else def)
         (List.enumerate 0 (frame_slots f))"

section \<open>The entry of a method\<close>

definition effectiveLocal :: "ir_instr \<Rightarrow> int" where
  "effectiveLocal ins =
     (let acc = LocalAccessOf (I_Opcode ins) in
      if \<not> Read acc \<and> \<not> Write acc then -1
      else if I_Local ins \<ge> 0 then I_Local ins
      else if Slot acc \<ge> 0 then Slot acc
      else (case I_Data ins of
              hi # lo # _ \<Rightarrow> if I_Wide ins then int (unat hi) * 256 + int (unat lo) else int (unat hi)
            | [b] \<Rightarrow> int (unat b)
            | [] \<Rightarrow> -1))"

text \<open>The loop that raises the number of locals to what the instructions access.\<close>

fun access_max :: "int \<Rightarrow> ir_instr list \<Rightarrow> int" where
  "access_max m [] = m"
| "access_max m (ins # is) =
     (let loc = effectiveLocal ins in
      if loc < 0 then access_max m is
      else
        let width = Width (LocalAccessOf (I_Opcode ins));
            width = (if width < 1 then 1 else width)
        in access_max (if loc + width > m then loc + width else m) is)"

fun store_params :: "int \<Rightarrow> ftype list \<Rightarrow> unit action" where
  "store_params slot [] = ret ()"
| "store_params slot (a # as) =
     then_act (StoreLocal slot a) (store_params (slot + int (TypeWidth a)) as)"

text \<open>The error of the frame package becomes its message here.\<close>

definition frame_err :: "ferror + 'a \<Rightarrow> ssa_error + 'a" where
  "frame_err r = (case r of Inl e \<Rightarrow> Inl (EMsg e) | Inr a \<Rightarrow> Inr a)"

definition entry_context :: "MethodIR \<Rightarrow> frame \<Rightarrow> frame" where
  "entry_context ir f = f\<lparr>DirectSuperClass := L_DirectSuperClass (M_Limits ir), ThisClass := M_ClassName ir\<rparr>"

definition initialFrame :: "MethodIR \<Rightarrow> ssa_error + frame" where
  "initialFrame ir =
     res_bind (frame_err (ParseDescriptor (M_Descriptor ir))) (\<lambda>(args, _).
       let slots = (if \<not> M_IsStatic ir then 1 else 0) + (\<Sum>a\<leftarrow>args. int (TypeWidth a));
           mx = access_max slots (M_Instrs ir)
       in if mx > 65535 then Inl ''invalid_input: method locals exceed JVM limit''
          else
            res_bind
              (if Present (M_Limits ir) then
                 (if mx > MaxLocals (M_Limits ir)
                  then Inl ''invalid_input: local access/parameters exceed declared max_locals''
                  else frame_err (NewFrameWithLimits (MaxLocals (M_Limits ir)) (MaxStack (M_Limits ir))))
               else Inr (NewFrame mx))
              (\<lambda>f. let f = entry_context ir f in
                 frame_err (map_sum (\<lambda>e. e) snd
                   ((if \<not> M_IsStatic ir
                     then then_act
                            (StoreLocal 0 (if M_Name ir = ''<init>'' then T UninitThisK
                                           else RefOf (M_ClassName ir)))
                            (store_params 1 args)
                     else store_params 0 args) f))))"

section \<open>The origins of one instruction\<close>

record originValue =
  ov_origin :: Origin
  ov_width :: nat

fun decodeOrigins :: "ftype list \<Rightarrow> Origin list \<Rightarrow> ssa_error + originValue list" where
  "decodeOrigins [] [] = Inr []"
| "decodeOrigins (t # ts) (x # xs) =
     (if length ts \<noteq> length xs then Inl ''invalid_input: origin/frame length mismatch''
      else if \<not> Computational t \<or> O_Kind x = OriginTop
      then Inl ''invalid_input: unavailable stack origin at %d''
      else if TypeWidth t = 2 then
        (case (ts, xs) of
           (u # us, y # ys) \<Rightarrow>
             if Kind u \<noteq> Kind (TailOf t) \<or> y \<noteq> x
             then Inl ''invalid_input: mismatched wide origin at %d''
             else res_bind (decodeOrigins us ys)
                    (\<lambda>vs. Inr (\<lparr>ov_origin = x, ov_width = TypeWidth t\<rparr> # vs))
         | _ \<Rightarrow> Inl ''invalid_input: mismatched wide origin at %d'')
      else res_bind (decodeOrigins ts xs)
             (\<lambda>vs. Inr (\<lparr>ov_origin = x, ov_width = TypeWidth t\<rparr> # vs)))"
| "decodeOrigins _ _ = Inl ''invalid_input: origin/frame length mismatch''"

text \<open>The loop of \<open>originGroup\<close> walks down from the top; \<open>rev\<close> gives the values from there.\<close>

fun group_loop :: "originValue list \<Rightarrow> int \<Rightarrow> nat \<times> int" where
  "group_loop [] slots = (0, slots)"
| "group_loop (x # xs) slots =
     (if slots > 0 then group_loop xs (slots - int (ov_width x)) else (length (x # xs), slots))"

definition originGroup :: "originValue list \<Rightarrow> int \<Rightarrow> ssa_error + nat" where
  "originGroup vs slots =
     (let (i, left) = group_loop (rev vs) slots in
      if left \<noteq> 0 then Inl ''invalid_input: origin stack category boundary/underflow'' else Inr i)"

definition originEffect :: "ir_instr \<Rightarrow> ssa_error + nat \<times> bool" where
  "originEffect ins =
     (let op = I_Opcode ins in
      if op = OP_NOP \<or> op = OP_GOTO \<or> op = OP_GOTO_W \<or> op = OP_RETURN then Inr (0, False)
      else if op \<ge> OP_ACONST_NULL \<and> op \<le> OP_LDC2_W then Inr (0, True)
      else if op \<ge> OP_IALOAD \<and> op \<le> OP_SALOAD then Inr (2, True)
      else if op \<ge> OP_IASTORE \<and> op \<le> OP_SASTORE then Inr (3, False)
      else if op \<ge> OP_IADD \<and> op \<le> OP_DREM then Inr (2, True)
      else if op \<ge> OP_INEG \<and> op \<le> OP_DNEG then Inr (1, True)
      else if op \<ge> OP_ISHL \<and> op \<le> OP_LXOR then Inr (2, True)
      else if op \<ge> OP_I2L \<and> op \<le> OP_I2S then Inr (1, True)
      else if op \<ge> OP_LCMP \<and> op \<le> OP_DCMPG then Inr (2, True)
      else if op \<ge> OP_IFEQ \<and> op \<le> OP_IFLE then Inr (1, False)
      else if op \<ge> OP_IF_ICMPEQ \<and> op \<le> OP_IF_ACMPNE then Inr (2, False)
      else if op = OP_IFNULL \<or> op = OP_IFNONNULL \<or> op = OP_TABLESWITCH \<or> op = OP_LOOKUPSWITCH
      then Inr (1, False)
      else if op \<ge> OP_IRETURN \<and> op \<le> OP_ARETURN then Inr (1, False)
      else if op = OP_GETSTATIC \<or> op = OP_NEW then Inr (0, True)
      else if op = OP_PUTSTATIC then Inr (1, False)
      else if op = OP_GETFIELD \<or> op = OP_NEWARRAY \<or> op = OP_ANEWARRAY \<or> op = OP_ARRAYLENGTH \<or>
        op = OP_CHECKCAST \<or> op = OP_INSTANCEOF then Inr (1, True)
      else if op = OP_PUTFIELD then Inr (2, False)
      else if op = OP_MONITORENTER \<or> op = OP_MONITOREXIT then Inr (1, False)
      else if op \<ge> OP_INVOKEVIRTUAL \<and> op \<le> OP_INVOKEDYNAMIC then
        (if I_Desc ins = [] then Inl ''unsupported_feature: invocation without descriptor at pc %d''
         else
           (case ParseDescriptor (I_Desc ins) of
              Inl e \<Rightarrow> Inl (EMsg e)
            | Inr (args, result) \<Rightarrow>
                Inr (length args + (if op \<noteq> OP_INVOKESTATIC \<and> op \<noteq> OP_INVOKEDYNAMIC then 1 else 0),
                     result \<noteq> None)))
      else if op = OP_MULTIANEWARRAY then
        (let d = Dims (FromIR ins) in
         if d \<le> 0 then Inl ''invalid_input: missing array dimensions'' else Inr (nat d, True))
      else Inl ''unsupported_feature: origin opcode %#x at pc %d'')"

definition instr_origin :: "u16 \<Rightarrow> int \<Rightarrow> Origin" where
  "instr_origin pc slot = \<lparr>O_Kind = OriginInstr, O_PC = pc, O_Slot = slot, O_Aux = 0\<rparr>"

text \<open>The slots a stack move takes from the top and from under it.\<close>

definition move_slots :: "int \<Rightarrow> int \<times> int" where
  "move_slots op =
     (if op = OP_POP2 \<or> op = OP_DUP2 then (2, 0)
      else if op = OP_DUP_X1 \<or> op = OP_SWAP then (1, 1)
      else if op = OP_DUP_X2 then (1, 2)
      else if op = OP_DUP2_X1 then (2, 1)
      else if op = OP_DUP2_X2 then (2, 2)
      else (1, 0))"

text \<open>The switch: the new origins of the slots, the new stack, what was used and defined.\<close>

type_synonym origin_case = "Origin list \<times> originValue list \<times> Origin list \<times> Origin list"

definition iinc_origins ::
    "Origin list \<Rightarrow> frame \<Rightarrow> frame \<Rightarrow> ir_instr \<Rightarrow> originValue list \<Rightarrow> Origin list \<Rightarrow> ssa_error + origin_case" where
  "iinc_origins before beforeF afterF ins stack out =
     (let loc = effectiveLocal ins in
      if loc < 0 \<or> loc \<ge> slen (Locals beforeF) \<or> loc \<ge> slen (Locals afterF)
      then Inl ''invalid_input: iinc origin local''
      else let def = instr_origin (I_PC ins) loc in
        Inr (out[nat loc := def], stack, [before ! nat loc], [def]))"

definition load_origins ::
    "Origin list \<Rightarrow> frame \<Rightarrow> ir_instr \<Rightarrow> originValue list \<Rightarrow> Origin list \<Rightarrow> ssa_error + origin_case" where
  "load_origins before beforeF ins stack out =
     (let loc = effectiveLocal ins in
      if loc < 0 \<or> loc \<ge> slen (Locals beforeF) \<or> O_Kind (before ! nat loc) = OriginTop
      then Inl ''invalid_input: load origin local''
      else let v = \<lparr>ov_origin = before ! nat loc, ov_width = TypeWidth (Locals beforeF ! nat loc)\<rparr> in
        Inr (out, stack @ [v], [ov_origin v], []))"

definition store_origins ::
    "frame \<Rightarrow> ir_instr \<Rightarrow> originValue list \<Rightarrow> Origin list \<Rightarrow> ssa_error + origin_case" where
  "store_origins afterF ins stack out =
     (let loc = effectiveLocal ins in
      if loc < 0 \<or> loc \<ge> slen (Locals afterF) \<or> stack = []
      then Inl ''invalid_input: store origin local/stack''
      else
        let v = last stack; stack = butlast stack; out = out[nat loc := ov_origin v] in
        if ov_width v = 2 then
          (if loc + 1 \<ge> slen out then Inl ''invalid_input: wide store origin''
           else Inr (out[nat loc + 1 := ov_origin v], stack, [ov_origin v], []))
        else Inr (out, stack, [ov_origin v], []))"

definition move_origins :: "int \<Rightarrow> originValue list \<Rightarrow> Origin list \<Rightarrow> ssa_error + origin_case" where
  "move_origins op stack out =
     (let (top, under) = move_slots op in
      res_bind (originGroup stack top) (\<lambda>a.
        res_bind (originGroup (take a stack) under) (\<lambda>b.
          let hi = drop a stack; lo = drop b (take a stack); low = take b stack in
          Inr (out,
               if op \<noteq> OP_POP \<and> op \<noteq> OP_POP2
               then low @ hi @ lo @ (if op \<noteq> OP_SWAP then hi else [])
               else low,
               map ov_origin (drop b stack), []))))"

definition athrow_origins :: "originValue list \<Rightarrow> Origin list \<Rightarrow> ssa_error + origin_case" where
  "athrow_origins stack out =
     (if stack = [] then Inl ''invalid_input: athrow origin stack''
      else Inr (out, [last stack], [ov_origin (last stack)], []))"

definition default_origins ::
    "frame \<Rightarrow> ir_instr \<Rightarrow> originValue list \<Rightarrow> Origin list \<Rightarrow> ssa_error + origin_case" where
  "default_origins afterF ins stack out =
     res_bind (originEffect ins) (\<lambda>(pop, psh).
       if pop > length stack then Inl ''invalid_input: origin operand underflow at pc %d''
       else
         let base = length stack - pop; used = map ov_origin (drop base stack); stack = take base stack in
         if psh then
           (let prefixSlots = sum_list (map ov_width stack); def = instr_origin (I_PC ins) 0 in
            if prefixSlots \<ge> length (Stack afterF) then Inl ''invalid_input: missing result at pc %d''
            else Inr (out,
                      stack @ [\<lparr>ov_origin = def, ov_width = TypeWidth (Stack afterF ! prefixSlots)\<rparr>],
                      used, [def]))
         else Inr (out, stack, used, []))"

definition origin_switch ::
    "Origin list \<Rightarrow> frame \<Rightarrow> frame \<Rightarrow> ir_instr \<Rightarrow> originValue list \<Rightarrow> Origin list \<Rightarrow> ssa_error + origin_case" where
  "origin_switch before beforeF afterF ins stack out =
     (let op = I_Opcode ins; acc = LocalAccessOf op in
      if op = OP_IINC then iinc_origins before beforeF afterF ins stack out
      else if Read acc \<and> \<not> Write acc then load_origins before beforeF ins stack out
      else if Write acc then store_origins afterF ins stack out
      else if op \<ge> OP_POP \<and> op \<le> OP_SWAP then move_origins op stack out
      else if op = OP_ATHROW then athrow_origins stack out
      else default_origins afterF ins stack out)"

text \<open>Aliases encoded back: both halves of a wide value share one identity.\<close>

definition encode_origins :: "originValue list \<Rightarrow> Origin list" where
  "encode_origins vs = concat (map (\<lambda>v. replicate (ov_width v) (ov_origin v)) vs)"

text \<open>The loop over the locals of \<open>transferOrigins\<close>: a slot that is not dead keeps its origin.\<close>

definition carry_locals :: "Origin list \<Rightarrow> frame \<Rightarrow> frame \<Rightarrow> Origin list \<Rightarrow> Origin list" where
  "carry_locals before beforeF afterF out =
     map (\<lambda>(i, x). if i < length (Locals afterF) \<and> Kind (Locals afterF ! i) \<noteq> TopK \<and> i < length (Locals beforeF)
                   then before ! i else x)
         (List.enumerate 0 out)"

definition unavailable :: Origin where
  "unavailable = \<lparr>O_Kind = OriginTop, O_PC = 0, O_Slot = 0, O_Aux = 0\<rparr>"

definition transferOrigins ::
    "Origin list \<Rightarrow> frame \<Rightarrow> frame \<Rightarrow> ir_instr \<Rightarrow> ssa_error + Origin list \<times> Origin list \<times> Origin list" where
  "transferOrigins before beforeF afterF ins =
     (if length before \<noteq> length (Locals beforeF) + length (Stack beforeF)
      then Inl ''invalid_input: missing origins at pc %d''
      else
        res_bind (decodeOrigins (Stack beforeF) (drop (length (Locals beforeF)) before)) (\<lambda>stack.
          let out = carry_locals before beforeF afterF (originsFromFrame afterF unavailable) in
          res_bind (origin_switch before beforeF afterF ins stack out) (\<lambda>(out, stack, used, defs).
            let encoded = encode_origins stack in
            if length encoded \<noteq> length (Stack afterF)
            then Inl ''invalid_input: origin stack effect mismatch at pc %d''
            else
              res_bind (decodeOrigins (Stack afterF) encoded) (\<lambda>_.
                Inr (take (length (Locals afterF)) out @ encoded, used, defs)))))"

end
