(* ===== verification/FrameEffect.thy ===== *)
theory FrameEffect
  imports FrameTransfer
begin

text \<open>
  The stack effect of every instruction of \<open>FrameTransfer\<close>: how many values it pops and pushes.
  An effect is a property of an action; the rules compose it along the code of the action, and
  the facts at the end give it for each group of the switch.
\<close>

section \<open>The effect of an action on the shape of a frame\<close>

text \<open>What matters of a slot for its origin: dead, a tail, a head; and the widths on the stack.\<close>

definition slot_class :: "ftype \<Rightarrow> bool \<times> bool \<times> bool" where
  "slot_class t = (Kind t = TopK, IsTail (Kind t), IsCat2Head (Kind t))"

definition widths :: "frame \<Rightarrow> nat list" where
  "widths f = map TypeWidth (vals f)"

text \<open>The action pops \<open>p\<close> values and pushes \<open>q\<close>; the locals keep their classes.\<close>

definition effect :: "nat \<Rightarrow> nat \<Rightarrow> 'a action \<Rightarrow> bool" where
  "effect p q m \<longleftrightarrow> (\<forall>f a f'. frame_ok f \<longrightarrow> m f = Inr (a, f') \<longrightarrow>
     frame_ok f' \<and> map slot_class (Locals f') = map slot_class (Locals f) \<and> p \<le> length (widths f) \<and>
     (\<exists>new. length new = q \<and> widths f' = take (length (widths f) - p) (widths f) @ new))"

named_theorems effects \<open>the stack effects of the actions\<close>

lemma effectI:
  "(\<And>f a f'. frame_ok f \<Longrightarrow> m f = Inr (a, f') \<Longrightarrow>
     frame_ok f' \<and> map slot_class (Locals f') = map slot_class (Locals f) \<and> p \<le> length (widths f) \<and>
     (\<exists>new. length new = q \<and> widths f' = take (length (widths f) - p) (widths f) @ new)) \<Longrightarrow> effect p q m"
  unfolding effect_def by blast

lemma effectD:
  "effect p q m \<Longrightarrow> frame_ok f \<Longrightarrow> m f = Inr (a, f') \<Longrightarrow>
     frame_ok f' \<and> map slot_class (Locals f') = map slot_class (Locals f) \<and> p \<le> length (widths f) \<and>
     (\<exists>new. length new = q \<and> widths f' = take (length (widths f) - p) (widths f) @ new)"
  unfolding effect_def by blast

lemma effect_fail [effects]: "effect p q (fail e)"
  by (simp add: effect_def act_simps)

lemma effect_ret [effects]: "effect 0 0 (ret a)"
  by (simp add: effect_def act_simps)

lemma effect_if [effects]: "(c \<Longrightarrow> effect p q m) \<Longrightarrow> (\<not> c \<Longrightarrow> effect p q k) \<Longrightarrow> effect p q (if c then m else k)"
  by simp

lemma effect_with_frame [effects]: "(\<And>f. effect p q (g f)) \<Longrightarrow> effect p q (with_frame g)"
  by (simp add: effect_def with_frame_def)

lemma effect_lift [effects]: "(\<And>a. r = Inr a \<Longrightarrow> effect p q (k a)) \<Longrightarrow> effect p q (bind_act (lift_res r) k)"
  unfolding effect_def bind_act_Inr lift_res_Inr by blast

lemma effect_seq:
  assumes "effect p 0 m" and "\<And>a. effect p' q (k a)"
  shows "effect (p + p') q (bind_act m k)"
proof (rule effectI)
  fix f b f2 assume ok: "frame_ok f" and run: "bind_act m k f = Inr (b, f2)"
  then obtain a f1 where m: "m f = Inr (a, f1)" and k: "k a f1 = Inr (b, f2)"
    by (auto simp: bind_act_Inr)
  note one = effectD [OF assms(1) ok m]
  then have ok1: "frame_ok f1" by blast
  note two = effectD [OF assms(2) ok1 k]
  have w1: "widths f1 = take (length (widths f) - p) (widths f)" using one by auto
  obtain new where new: "length new = q" "widths f2 = take (length (widths f1) - p') (widths f1) @ new"
    using two by blast
  have len: "length (widths f1) = length (widths f) - p" using w1 by simp
  have le: "p \<le> length (widths f)" "p' \<le> length (widths f) - p" using one two len by auto
  then have "p + p' \<le> length (widths f)" by linarith
  moreover have "widths f2 = take (length (widths f) - (p + p')) (widths f) @ new"
    unfolding new(2) len w1 by (simp add: min.absorb1)
  ultimately show "frame_ok f2 \<and> map slot_class (Locals f2) = map slot_class (Locals f) \<and>
    p + p' \<le> length (widths f) \<and>
    (\<exists>new. length new = q \<and> widths f2 = take (length (widths f) - (p + p')) (widths f) @ new)"
    using one two new(1) by auto
qed

lemma effect_last:
  assumes "effect p q m" and "\<And>a. effect 0 0 (k a)"
  shows "effect p q (bind_act m k)"
proof (rule effectI)
  fix f b f2 assume ok: "frame_ok f" and run: "bind_act m k f = Inr (b, f2)"
  then obtain a f1 where m: "m f = Inr (a, f1)" and k: "k a f1 = Inr (b, f2)"
    by (auto simp: bind_act_Inr)
  note one = effectD [OF assms(1) ok m]
  then have ok1: "frame_ok f1" by blast
  show "frame_ok f2 \<and> map slot_class (Locals f2) = map slot_class (Locals f) \<and> p \<le> length (widths f) \<and>
    (\<exists>new. length new = q \<and> widths f2 = take (length (widths f) - p) (widths f) @ new)"
    using one effectD [OF assms(2) ok1 k] by auto
qed

lemma same_rest_classes: "same_rest f f' \<Longrightarrow> map slot_class (Locals f') = map slot_class (Locals f)"
  by (drule same_rest_shape) simp

lemma effect_push [effects]: "effect 0 (Suc 0) (push t)"
proof (rule effectI)
  fix f a f' assume ok: "frame_ok f" and p: "push t f = Inr (a, f')"
  have t: "Computational t" using p by (auto simp: push_def split: if_splits)
  show "frame_ok f' \<and> map slot_class (Locals f') = map slot_class (Locals f) \<and> 0 \<le> length (widths f) \<and>
    (\<exists>new. length new = Suc 0 \<and> widths f' = take (length (widths f) - 0) (widths f) @ new)"
    using push_ok [OF ok t] p
    by (auto simp: widths_def split: if_splits dest: same_rest_classes intro!: exI [of _ "[TypeWidth t]"])
qed

lemma effect_popValue [effects]: "effect (Suc 0) 0 popValue"
proof (rule effectI)
  fix f a f' assume ok: "frame_ok f" and p: "popValue f = Inr (a, f')"
  then have q: "vals f \<noteq> []" "frame_ok f'" "vals f' = butlast (vals f)" "same_rest f f'"
    using popValue_ok [OF ok] by (auto split: if_splits)
  then have "Suc 0 \<le> length (vals f)" by (cases "vals f") simp_all
  then show "frame_ok f' \<and> map slot_class (Locals f') = map slot_class (Locals f) \<and> Suc 0 \<le> length (widths f) \<and>
    (\<exists>new. length new = 0 \<and> widths f' = take (length (widths f) - Suc 0) (widths f) @ new)"
    using q same_rest_classes by (simp add: widths_def butlast_conv_take take_map)
qed

lemma effect_popKind [effects]: "effect (Suc 0) 0 (popKind k)"
  unfolding popKind_def by (intro effect_last effects)

lemma effect_pop_bind [effects]:
  "(\<And>a. effect p q (k a)) \<Longrightarrow> effect (Suc p) q (bind_act (popKind x) k)"
  "(\<And>a. effect p q (k a)) \<Longrightarrow> effect (Suc p) q (bind_act popValue k)"
  using effect_seq [OF effect_popKind] effect_seq [OF effect_popValue] by (metis plus_1_eq_Suc One_nat_def)+

lemma effect_then [effects]:
  "effect p q k \<Longrightarrow> effect (Suc p) q (then_act (popKind x) k)"
  "effect p q k \<Longrightarrow> effect (Suc p) q (then_act popValue k)"
  unfolding then_act_def by (auto intro: effects)

lemma effect_plain [effects]: "effect p q m \<Longrightarrow> effect p q (plain m)"
  unfolding plain_def then_act_def by (intro effect_last effects)

section \<open>The effects of the instructions\<close>

text \<open>The numbers of the rules above are in unary, those of the operations in decimal.\<close>

lemmas in_unary = numeral_2_eq_2 numeral_3_eq_3 One_nat_def

lemma effect_helpers [effects]:
  "effect 2 1 (bin a b)" "effect 1 1 (un a b)" "effect 2 1 (shift a)" "effect 1 1 (conv a b)"
  "effect 2 1 (arrayLoad a)" "effect 3 0 (arrayStore a)" "effect 2 1 (floatBin fl op)"
  "effect 2 1 (doubleBin fl op)" "effect 1 1 floatUn" "effect 1 1 doubleUn"
  unfolding bin_def un_def shift_def conv_def arrayLoad_def arrayStore_def floatBin_def
    doubleBin_def floatUn_def doubleUn_def in_unary
  by (intro effects)+

lemma effect_pushLDC [effects]: "effect 0 1 (pushLDC ins w)"
  by (cases "C_Kind (F_Const ins)") (auto simp: pushLDC_def Let_def intro!: effects)

lemma effect_put_receiver [effects]: "effect 1 0 (put_receiver ins)"
  unfolding put_receiver_def One_nat_def by (intro effects)

lemma then_ret [simp]: "then_act (ret ()) m = m"
  by (simp add: fun_eq_iff then_act_def bind_act_def act_simps)

lemma then_assoc [simp]: "then_act (then_act a b) c = then_act a (then_act b c)"
  by (auto simp: fun_eq_iff then_act_def bind_act_def split: sum.split)

lemma same_kind [simp]: "(if k = RefK then popKind RefK else popKind k) = popKind k"
  by simp

lemma effect_fieldOp [effects]:
  "effect 0 1 (fieldOp ins True False)" "effect 1 0 (fieldOp ins True True)"
  "effect 1 1 (fieldOp ins False False)" "effect 2 0 (fieldOp ins False True)"
  unfolding in_unary fieldOp_def split_beta
  by (auto intro!: effects effects [unfolded One_nat_def])

lemma effect_pop_ints: "effect p q k \<Longrightarrow> effect (n + p) q (then_act (pop_ints n) k)"
proof (induction n)
  case (Suc n)
  have "then_act (pop_ints (Suc n)) k = then_act (popKind IntK) (then_act (pop_ints n) k)"
    by (auto simp: fun_eq_iff then_act_def bind_act_def split: sum.split)
  then show ?case using Suc by (auto intro: effects)
qed simp

lemma effect_pop_args:
  "(\<And>a. effect p q (k a)) \<Longrightarrow> effect (length as + p) q (bind_act (pop_args as) k)"
proof (induction as)
  case Nil
  then show ?case by (simp add: bind_act_def act_simps effect_def)
next
  case (Cons a as)
  have "bind_act (pop_args (a # as)) k = then_act (popKind (Kind a)) (bind_act (pop_args as) k)"
    by (auto simp: fun_eq_iff then_act_def bind_act_def split: sum.split)
  then show ?case using Cons by (auto intro: effects)
qed

lemma effect_objects [effects]:
  "effect 0 1 (do_new ins)" "effect 1 1 (do_checkcast ins)"
  unfolding do_new_def do_checkcast_def Let_def in_unary by (intro effects)+

lemma effect_do_anewarray [effects]: "effect 1 1 (do_anewarray ins)"
  unfolding do_anewarray_def Let_def in_unary
  by (intro effects) (auto split: sum.split prod.split intro!: effects)

lemma effect_do_multianewarray [effects]:
  "effect (nat (if Dims ins \<le> 0 then 1 else Dims ins)) 1 (do_multianewarray ins)"
  using effect_pop_ints [OF effect_push] by (simp add: do_multianewarray_def)

text \<open>The constructor call: its target and every alias of it become initialised in place.\<close>

lemma widths_initialize:
  assumes "single to" and "Computational to"
  shows "widths (initialize site to f) = widths f" and
    "map slot_class (Locals (initialize site to f)) = map slot_class (Locals f)"
proof -
  let ?g = "\<lambda>t. if sameUninitialized t site then to else t"
  have g: "Computational (?g t) = Computational t \<and> TypeWidth (?g t) = TypeWidth t \<and>
      slot_class (?g t) = slot_class t" for t
    using assms by (auto simp: sameUninitialized_def single_def slot_class_def TypeWidth_def
        Computational_iff IsCat2Head_def IsTail_def)
  show "map slot_class (Locals (initialize site to f)) = map slot_class (Locals f)"
    using g by (simp add: initialize_def Let_def)
  have "map TypeWidth (filter Computational (map ?g ts)) = map TypeWidth (filter Computational ts)" for ts
    by (induction ts) (use g in auto)
  then show "widths (initialize site to f) = widths f"
    by (simp add: widths_def vals_def initialize_def Let_def)
qed

lemma widths_this [simp]: "widths (f\<lparr>ThisUninitialized := b\<rparr>) = widths f"
  by (simp add: widths_def vals_def)

lemma effect_construct [effects]: "effect 0 0 (construct ins recv)"
  by (rule effectI)
    (auto simp: construct_def Let_def frame_ok_this frame_ok_initialize RefOf_value widths_initialize
      split: sum.splits if_splits)

definition call_pops :: "ft_instr \<Rightarrow> ftype list \<Rightarrow> nat" where
  "call_pops ins args = length args + (if Op ins \<noteq> OP_INVOKESTATIC \<and> Op ins \<noteq> OP_INVOKEDYNAMIC then 1 else 0)"

lemma lift_Inr: "bind_act (lift_res (Inr a)) k = k a"
  by (simp add: fun_eq_iff bind_act_def lift_res_def)

lemma if_static:
  "effect 0 q (bind_act m k) \<Longrightarrow> effect 1 q (bind_act n k) \<Longrightarrow>
   effect (if x \<noteq> (c :: int) \<and> x \<noteq> d then 1 else 0) q (bind_act (if \<not> (x = c \<or> x = d) then n else m) k)"
  by (cases "x = c \<or> x = d") auto

lemma effect_invoke:
  assumes "ParseDescriptor (F_Desc ins) = Inr (args, result)"
  shows "effect (call_pops ins args) (if result \<noteq> None then 1 else 0) (invoke ins)"
proof -
  have push: "effect 0 1 (then_act (push t) (ret (None :: ftype option)))" for t
    unfolding then_act_def One_nat_def by (intro effect_last effects)
  let ?body = "bind_act
             (if \<not> (Op ins = OP_INVOKESTATIC \<or> Op ins = OP_INVOKEDYNAMIC) then
                (if F_Name ins = ''<init>'' then popValue else popKind RefK)
              else ret (T TopK))
             (\<lambda>recv.
                if F_Name ins = ''<init>'' then construct ins recv
                else (case result of
                        Some t \<Rightarrow> then_act (push t) (ret None)
                      | None \<Rightarrow> ret None))"
  have recv: "effect (if Op ins \<noteq> OP_INVOKESTATIC \<and> Op ins \<noteq> OP_INVOKEDYNAMIC then 1 else 0)
      (if result \<noteq> None then 1 else 0) ?body"
    if "\<not> (F_Name ins = ''<init>'' \<and> (Op ins \<noteq> OP_INVOKESPECIAL \<or> result \<noteq> None))"
  proof -
    let ?k = "\<lambda>recv. if F_Name ins = ''<init>'' then construct ins recv
                else (case result of Some t \<Rightarrow> then_act (push t) (ret None) | None \<Rightarrow> ret None)"
    have k: "effect 0 (if result \<noteq> None then 1 else 0) (?k r)" for r
      using that push by (cases result) (auto intro: effects)
    have "effect 0 (if result \<noteq> None then 1 else 0) (bind_act (ret (T TopK)) ?k)"
      using k by (simp add: bind_act_def act_simps effect_def)
    moreover have "effect 1 (if result \<noteq> None then 1 else 0)
        (bind_act (if F_Name ins = ''<init>'' then popValue else popKind RefK) ?k)"
      using effect_pop_bind [OF k] unfolding One_nat_def by (cases "F_Name ins = ''<init>''") simp_all
    ultimately show ?thesis by (rule if_static)
  qed
  have body: "effect (call_pops ins args) (if result \<noteq> None then 1 else 0)
      (then_act (pop_args (rev args)) ?body)"
    if "\<not> (F_Name ins = ''<clinit>'' \<or>
           F_Name ins = ''<init>'' \<and> (Op ins \<noteq> OP_INVOKESPECIAL \<or> result \<noteq> None))"
    using effect_pop_args [OF recv, of "rev args"] that
    unfolding then_act_def call_pops_def length_rev by blast
  show ?thesis
    unfolding invoke_def Let_def assms lift_Inr prod.case
    by (intro effect_if effect_fail body)
qed

text \<open>One fact per group of the switch, in the numbers of \<open>originEffect\<close>.\<close>

lemma effect_two [effects]:
  "effect 2 0 (then_act (popKind a) (popKind b))" "effect 1 0 (popKind a)" "effect 0 1 (push t)"
  "effect 1 1 (then_act (popKind a) (push t))"
  unfolding in_unary by (intro effects)+

lemma constant_effect:
  "constant_case op i = Some a \<Longrightarrow> effect 0 (if op = OP_NOP then 0 else 1) a"
  unfolding constant_case_def by (auto split: if_split_asm intro!: effects simp del: One_nat_def)

lemma array_effect:
  "array_case op = Some a \<Longrightarrow> effect (if op \<le> OP_SALOAD then 2 else 3) (if op \<le> OP_SALOAD then 1 else 0) a"
  unfolding array_case_def by (auto split: if_split_asm intro!: effects simp del: One_nat_def)

lemma arith_effect:
  "arith_case fl op i = Some a \<Longrightarrow> op > OP_SWAP \<Longrightarrow>
   effect (if OP_INEG \<le> op \<and> op \<le> OP_DNEG then 1 else 2) 1 a"
  unfolding arith_case_def by (auto split: if_split_asm intro!: effects simp del: One_nat_def)

lemma convert_effect:
  "convert_case op = Some a \<Longrightarrow> effect (if op \<le> OP_I2S then 1 else 2) 1 a"
  unfolding convert_case_def by (auto split: if_split_asm intro!: effects simp del: One_nat_def)

definition branch_pops :: "int \<Rightarrow> nat" where
  "branch_pops op =
     (if op \<in> {OP_GOTO, OP_GOTO_W, OP_RETURN} then 0
      else if OP_IF_ICMPEQ \<le> op \<and> op \<le> OP_IF_ACMPNE then 2 else 1)"

lemma branch_effect: "branch_case op = Some a \<Longrightarrow> effect (branch_pops op) 0 a"
  unfolding branch_case_def
  by (auto simp: branch_pops_def split: if_split_asm intro!: effects simp del: One_nat_def)

definition object_effect :: "int \<Rightarrow> ft_instr \<Rightarrow> nat \<times> nat" where
  "object_effect op i =
     (if op \<in> {OP_GETSTATIC, OP_NEW} then (0, 1) else if op = OP_PUTSTATIC then (1, 0)
      else if op = OP_PUTFIELD then (2, 0)
      else if op \<in> {OP_MONITORENTER, OP_MONITOREXIT} then (1, 0)
      else if op = OP_MULTIANEWARRAY then (nat (if Dims i \<le> 0 then 1 else Dims i), 1)
      else (1, 1))"

lemma object_effect:
  "object_case op i = Some a \<Longrightarrow> \<not> (OP_INVOKEVIRTUAL \<le> op \<and> op \<le> OP_INVOKEDYNAMIC) \<Longrightarrow> op \<noteq> OP_ATHROW \<Longrightarrow>
   effect (fst (object_effect op i)) (snd (object_effect op i)) a"
  unfolding object_case_def
  using effect_do_multianewarray [of i]
  by (auto simp: object_effect_def split: if_split_asm intro!: effects simp del: One_nat_def)

end
