(* ===== verification/OriginFlow.thy ===== *)
theory OriginFlow
  imports SsaOrigins FrameEffect
begin

text \<open>
  How origins follow a frame: origins that fit a frame are read and written back without loss, and
  whatever instruction the frame transfer accepts, the origin transfer accepts too and its result
  fits the new frame. The stack effect that \<open>originEffect\<close> lists per opcode is the one that the
  transfer has; stack moves and stores are followed slot by slot.
\<close>

section \<open>Origins that fit a frame\<close>

text \<open>
  The origins of a row of slots: a slot has an unavailable origin exactly when it is dead, and the
  two halves of a wide value have the same origin.
\<close>

fun origins_match :: "ftype list \<Rightarrow> Origin list \<Rightarrow> bool" where
  "origins_match [] [] = True"
| "origins_match (t # ts) (x # xs) =
     ((O_Kind x = OriginTop \<longleftrightarrow> Kind t = TopK) \<and>
      (IsCat2Head (Kind t) \<longrightarrow> (case xs of [] \<Rightarrow> False | y # _ \<Rightarrow> y = x)) \<and>
      origins_match ts xs)"
| "origins_match _ _ = False"

definition origins_ok :: "frame \<Rightarrow> Origin list \<Rightarrow> bool" where
  "origins_ok f og \<longleftrightarrow>
     length og = length (Locals f) + length (Stack f) \<and>
     origins_match (Locals f) (take (length (Locals f)) og) \<and>
     origins_match (Stack f) (drop (length (Locals f)) og)"

lemma origins_match_length: "origins_match ts xs \<Longrightarrow> length xs = length ts"
  by (induction ts xs rule: origins_match.induct) auto

lemma origins_match_nth:
  "origins_match ts xs \<longleftrightarrow> length xs = length ts \<and>
     (\<forall>i<length ts. (O_Kind (xs ! i) = OriginTop \<longleftrightarrow> Kind (ts ! i) = TopK) \<and>
        (IsCat2Head (Kind (ts ! i)) \<longrightarrow> i + 1 < length ts \<and> xs ! (i + 1) = xs ! i))"
proof (induction ts xs rule: origins_match.induct)
  case (2 t ts x xs)
  show ?case
    unfolding origins_match.simps 2 length_Cons All_less_Suc2
    by (cases xs; cases ts) auto
qed auto

definition available :: "originValue list \<Rightarrow> bool" where
  "available vs \<longleftrightarrow> (\<forall>v\<in>set vs. O_Kind (ov_origin v) \<noteq> OriginTop)"

lemma available_simps [simp]:
  "available []" "available (x # vs) \<longleftrightarrow> O_Kind (ov_origin x) \<noteq> OriginTop \<and> available vs"
  "available (vs @ ws) \<longleftrightarrow> available vs \<and> available ws"
  by (auto simp: available_def)

lemma value_width: "Computational t \<Longrightarrow> TypeWidth t = (if IsCat2Head (Kind t) then 2 else 1)"
  by (simp add: TypeWidth_comp)

text \<open>Reading the origins of a stack, and writing them back.\<close>

lemma decode_match:
  "wf_slots False ts \<Longrightarrow> origins_match ts xs \<Longrightarrow>
   \<exists>vs. decodeOrigins ts xs = Inr vs \<and> map ov_width vs = map TypeWidth (filter Computational ts) \<and>
     available vs"
proof (induction "length ts" arbitrary: ts xs rule: less_induct)
  case less
  show ?case
  proof (cases ts)
    case Nil
    then show ?thesis using less.prems(2) by (cases xs) auto
  next
    case (Cons t us)
    then obtain x ys where xs: "xs = x # ys" using less.prems(2) by (cases xs) auto
    note m = less.prems(2) [unfolded Cons xs]
    have len: "length us = length ys" using origins_match_length [OF m] by simp
    consider (one) "Computational t" "\<not> IsCat2Head (Kind t)" "wf_slots False us"
      | (two) u vs where "IsCat2Head (Kind t)" "us = u # vs" "TypeEqual u (TailOf t)" "wf_slots False vs"
      using less.prems(1) [unfolded Cons wf_slots_Cons [of False t us]] by auto
    then show ?thesis
    proof cases
      case one
      then have top: "Kind t \<noteq> TopK" by (simp add: Computational_iff)
      obtain vs where vs: "decodeOrigins us ys = Inr vs"
        "map ov_width vs = map TypeWidth (filter Computational us)" "available vs"
        using less.hyps [of us ys] Cons one(3) m by auto
      then show ?thesis using one top m len by (simp add: Cons xs value_width)
    next
      case two
      have t: "Computational t" "Kind t \<noteq> TopK" using two(1) cat2_computational Computational_iff by blast+
      have u: "Kind u = Kind (TailOf t)" "\<not> Computational u"
        using two(3) tail_of_head [OF two(1,3)] TypeEqual_Kind by auto
      obtain ys' where ys: "ys = x # ys'" using m two by (cases ys) auto
      obtain ws where ws: "decodeOrigins vs ys' = Inr ws"
        "map ov_width ws = map TypeWidth (filter Computational vs)" "available ws"
        using less.hyps [of vs ys'] Cons two(2,4) m ys by auto
      then show ?thesis using two t u m len ys by (simp add: Cons xs value_width)
    qed
  qed
qed

lemma encode_match:
  "wf_slots False ts \<Longrightarrow> map ov_width vs = map TypeWidth (filter Computational ts) \<Longrightarrow> available vs \<Longrightarrow>
   origins_match ts (encode_origins vs)"
proof (induction "length ts" arbitrary: ts vs rule: less_induct)
  case less
  show ?case
  proof (cases ts)
    case Nil
    then show ?thesis using less.prems(2) by (simp add: encode_origins_def)
  next
    case (Cons t us)
    consider (one) "Computational t" "\<not> IsCat2Head (Kind t)" "wf_slots False us"
      | (two) u ws where "IsCat2Head (Kind t)" "us = u # ws" "TypeEqual u (TailOf t)" "wf_slots False ws"
      using less.prems(1) [unfolded Cons wf_slots_Cons [of False t us]] by auto
    then show ?thesis
    proof cases
      case one
      then obtain x rest where vs: "vs = x # rest" "ov_width x = 1"
        "map ov_width rest = map TypeWidth (filter Computational us)"
        using less.prems(2) by (auto simp: Cons value_width)
      have "origins_match us (encode_origins rest)"
        using less.hyps [of us rest] Cons one(3) vs less.prems(3) by simp
      then show ?thesis using one vs less.prems(3)
        by (simp add: Cons encode_origins_def Computational_iff)
    next
      case two
      have t: "Computational t" using two(1) by (rule cat2_computational)
      have u: "\<not> Computational u" "\<not> IsCat2Head (Kind u)" "Kind u \<noteq> TopK"
        using tail_of_head [OF two(1,3)] by (auto simp: IsTail_def IsCat2Head_def)
      from t obtain x rest where vs: "vs = x # rest" "ov_width x = 2"
        "map ov_width rest = map TypeWidth (filter Computational ws)"
        using less.prems(2) two(1,2) u(1) by (auto simp: Cons value_width)
      have "origins_match ws (encode_origins rest)"
        using less.hyps [of ws rest] Cons two(2,4) vs less.prems(3) by simp
      then show ?thesis using two t u vs less.prems(3)
        by (simp add: Cons encode_origins_def Computational_iff numeral_2_eq_2)
    qed
  qed
qed

lemma decode_encode: "decodeOrigins ts xs = Inr vs \<Longrightarrow> encode_origins vs = xs"
proof (induction ts xs arbitrary: vs rule: decodeOrigins.induct)
  case (2 t ts x xs)
  then have ok: "length ts = length xs" "Computational t"
    by (auto split: if_splits)
  show ?case
  proof (cases "TypeWidth t = 2")
    case True
    obtain u us y ys where e: "ts = u # us" "xs = y # ys" "y = x"
      using "2.prems" ok True by (auto split: if_splits list.splits)
    obtain ws where ws: "decodeOrigins us ys = Inr ws" "vs = \<lparr>ov_origin = x, ov_width = 2\<rparr> # ws"
      using "2.prems" ok True e by (auto split: if_splits)
    have "encode_origins ws = ys" using "2.IH"(1) ok "2.prems" True e ws(1) by (auto split: if_splits)
    then show ?thesis using ws(2) e by (simp add: encode_origins_def numeral_2_eq_2)
  next
    case False
    then have one: "TypeWidth t = 1" using ok(2) by (simp add: value_width split: if_splits)
    obtain ws where ws: "decodeOrigins ts xs = Inr ws" "vs = \<lparr>ov_origin = x, ov_width = 1\<rparr> # ws"
      using "2.prems" ok one by (auto split: if_splits)
    have "encode_origins ws = xs" using "2.IH"(2) ok "2.prems" one ws(1) by (auto split: if_splits)
    then show ?thesis using ws(2) by (simp add: encode_origins_def)
  qed
qed (simp_all add: encode_origins_def)

section \<open>The stack moves act on groups of slots\<close>

definition slot_sum :: "ftype list \<Rightarrow> int" where
  "slot_sum ts = (\<Sum>t\<leftarrow>ts. int (TypeWidth t))"

text \<open>
  The stack after a move, top first: the values of the top group \<open>h\<close>, those \<open>l\<close> under it and the
  rest \<open>r\<close>.
\<close>

definition moved :: "int \<Rightarrow> 'a list \<Rightarrow> 'a list \<Rightarrow> 'a list \<Rightarrow> 'a list" where
  "moved op h l r =
     (if op = OP_POP \<or> op = OP_POP2 then r else if op = OP_SWAP then l @ h @ r else h @ l @ h @ r)"

lemma move_group:
  assumes "jvms_move op s = Some st" and "\<forall>t\<in>set s. TypeWidth t = 1 \<or> TypeWidth t = 2"
    and "op \<in> set stack_move_ops"
  shows "\<exists>i\<in>{1,2}. \<exists>j\<in>{0,1,2}. i + j \<le> length s \<and>
    move_slots op = (slot_sum (take i s), slot_sum (take j (drop i s))) \<and>
    st = moved op (take i s) (take j (drop i s)) (drop (i + j) s)"
proof -
  have w: "c1 t \<or> c2 t" if "t \<in> set s" for t using assms(2) that by (auto simp: c1_def c2_def)
  have v: "TypeWidth t = (if c2 t then 2 else 1)" if "t \<in> set s" for t
    using assms(2) that by (auto simp: c2_def)
  have x: "c1 t \<longleftrightarrow> \<not> c2 t" if "t \<in> set s" for t using assms(2) that by (auto simp: c1_def c2_def)
  consider "s = []" | a where "s = [a]" | a b where "s = [a, b]" | a b c where "s = [a, b, c]"
    | a b c d r where "s = a # b # c # d # r"
    by (cases s rule: remdups_adj.cases) (auto, metis list.exhaust)
  then show ?thesis
    using assms(1,3) v x
    by cases (auto simp: stack_move_ops_def jvms_move_def move_slots_def slot_sum_def moved_def
        split: if_splits)
qed

lemma group_loop_exact:
  "\<forall>x\<in>set xs. 1 \<le> ov_width x \<Longrightarrow>
   group_loop (xs @ rest) (int (sum_list (map ov_width xs))) = (length rest, 0)"
proof (induction xs)
  case Nil
  show ?case by (cases rest) auto
qed auto

lemma originGroup_exact:
  "\<forall>x\<in>set hi. 1 \<le> ov_width x \<Longrightarrow> n = int (sum_list (map ov_width hi)) \<Longrightarrow>
   originGroup (lo @ hi) n = Inr (length lo)"
  using group_loop_exact [of "rev hi" "rev lo"]
  by (simp add: originGroup_def rev_map [symmetric] sum_list_rev)

lemma vals_width_12: "t \<in> set (vals f) \<Longrightarrow> TypeWidth t = 1 \<or> TypeWidth t = 2"
  by (auto simp: vals_def value_width)

lemma int_sum: "int (sum_list (map g xs)) = (\<Sum>x\<leftarrow>xs. int (g x))"
  by (induction xs) auto

lemma move_origins_ok:
  assumes mv: "jvms_move op (rev (vals f)) = Some (rev (vals f'))" and op: "op \<in> set stack_move_ops"
    and w: "map ov_width stk = widths f" and av: "available stk"
  shows "\<exists>stk' used. move_origins op stk out = Inr (out, stk', used, []) \<and>
    map ov_width stk' = widths f' \<and> available stk'"
proof -
  let ?s = "rev (vals f)"
  define ws where "ws = rev stk"
  have "\<forall>t\<in>set ?s. TypeWidth t = 1 \<or> TypeWidth t = 2" using vals_width_12 by simp
  from move_group [OF mv this op] obtain i j where ij: "i + j \<le> length ?s"
    and sums: "move_slots op = (slot_sum (take i ?s), slot_sum (take j (drop i ?s)))"
    and st: "rev (vals f') = moved op (take i ?s) (take j (drop i ?s)) (drop (i + j) ?s)"
    by blast
  have wws: "map ov_width ws = map TypeWidth ?s"
    using w by (simp add: ws_def widths_def rev_map [symmetric])
  define h l r where "h = take i ws" and "l = take j (drop i ws)" and "r = drop (i + j) ws"
  have hlr: "map ov_width h = map TypeWidth (take i ?s)"
    "map ov_width l = map TypeWidth (take j (drop i ?s))" "map ov_width r = map TypeWidth (drop (i + j) ?s)"
    using wws by (simp_all only: h_def l_def r_def take_map [symmetric] drop_map [symmetric])
  have "ws = h @ l @ r"
    by (simp add: h_def l_def r_def) (metis append_take_drop_id drop_drop add.commute)
  then have stk: "stk = (rev r @ rev l) @ rev h" using ws_def by (metis rev_append rev_rev_ident append_assoc)
  have pos: "1 \<le> ov_width x" if "x \<in> set stk" for x
  proof -
    have "ov_width x \<in> set (map TypeWidth (vals f))" using that w by (metis widths_def image_eqI list.set_map)
    then show ?thesis using vals_width_12 by force
  qed
  have sum: "slot_sum (take i ?s) = int (sum_list (map ov_width h))"
    "slot_sum (take j (drop i ?s)) = int (sum_list (map ov_width l))"
    unfolding hlr slot_sum_def by (simp_all only: int_sum)
  have a: "originGroup stk (slot_sum (take i ?s)) = Inr (length (rev r @ rev l))"
    unfolding stk by (rule originGroup_exact) (use pos stk sum in \<open>auto simp: rev_map [symmetric] sum_list_rev\<close>)
  have b: "originGroup (rev r @ rev l) (slot_sum (take j (drop i ?s))) = Inr (length (rev r))"
    by (rule originGroup_exact) (use pos stk sum in \<open>auto simp: rev_map [symmetric] sum_list_rev\<close>)
  define stk' where "stk' = (if op = OP_POP \<or> op = OP_POP2 then rev r
    else rev r @ rev h @ rev l @ (if op = OP_SWAP then [] else rev h))"
  have run: "move_origins op stk out = Inr (out, stk', map ov_origin (rev l @ rev h), [])"
    using a b by (simp add: move_origins_def sums stk stk'_def Let_def)
  have "rev stk' = moved op h l r" by (simp add: stk'_def moved_def)
  moreover have "map ov_width (moved op h l r) = map TypeWidth (rev (vals f'))"
    unfolding st by (simp add: moved_def hlr)
  ultimately have "map ov_width (rev stk') = map TypeWidth (rev (vals f'))" by simp
  then have "map ov_width stk' = widths f'" by (simp add: widths_def rev_map [symmetric])
  moreover have "available stk'" using av by (auto simp: stk stk'_def available_def)
  ultimately show ?thesis using run by blast
qed

section \<open>The origins of the locals\<close>

lemma length_carry [simp]: "length (carry_locals before f g out) = length out"
  by (simp add: carry_locals_def)

lemma length_originsFromFrame [simp]: "length (originsFromFrame f d) = length (Locals f) + length (Stack f)"
  by (simp add: originsFromFrame_def frame_slots_def)

abbreviation carried :: "Origin list \<Rightarrow> frame \<Rightarrow> frame \<Rightarrow> Origin list" where
  "carried og f g \<equiv> carry_locals og f g (originsFromFrame g unavailable)"

lemma carried_nth:
  assumes "length (Locals g) = length (Locals f)" and "i < length (Locals g)"
  shows "carried og f g ! i = (if Kind (Locals g ! i) = TopK then top_origin i else og ! i)"
  using assms
  by (auto simp: carry_locals_def originsFromFrame_def frame_slots_def nth_enumerate_eq nth_append)

lemma top_origin_Top [simp]: "O_Kind (top_origin i) = OriginTop"
  by (simp add: top_origin_def)

lemma class_nth:
  assumes "map slot_class (Locals g) = map slot_class (Locals f)" and "i < length (Locals f)"
  shows "Kind (Locals g ! i) = TopK \<longleftrightarrow> Kind (Locals f ! i) = TopK"
    and "IsCat2Head (Kind (Locals g ! i)) \<longleftrightarrow> IsCat2Head (Kind (Locals f ! i))"
proof -
  have "slot_class (Locals g ! i) = slot_class (Locals f ! i)"
    using assms by (metis length_map nth_map)
  then show "Kind (Locals g ! i) = TopK \<longleftrightarrow> Kind (Locals f ! i) = TopK"
    and "IsCat2Head (Kind (Locals g ! i)) \<longleftrightarrow> IsCat2Head (Kind (Locals f ! i))"
    by (simp_all add: slot_class_def)
qed

lemma match_prefix:
  assumes "origins_match ts (take (length ts) og)" and "i < length ts"
  shows "O_Kind (og ! i) = OriginTop \<longleftrightarrow> Kind (ts ! i) = TopK"
    and "IsCat2Head (Kind (ts ! i)) \<Longrightarrow> og ! (i + 1) = og ! i"
proof -
  note n = assms(1) [unfolded origins_match_nth, THEN conjunct2, rule_format, OF assms(2)]
  show "O_Kind (og ! i) = OriginTop \<longleftrightarrow> Kind (ts ! i) = TopK"
    using n assms(2) by simp
  show "og ! (i + 1) = og ! i" if "IsCat2Head (Kind (ts ! i))"
    using n [THEN conjunct2, rule_format, OF that] assms(2) by auto
qed

text \<open>The locals of a frame and of what an instruction made of it.\<close>

lemma carried_match:
  assumes ok: "frame_ok g" and m: "origins_match (Locals f) (take (length (Locals f)) og)"
    and c: "map slot_class (Locals g) = map slot_class (Locals f)"
  shows "origins_match (Locals g) (take (length (Locals g)) (carried og f g))"
proof -
  have len: "length (Locals g) = length (Locals f)" using c by (metis length_map)
  have og: "length (Locals f) \<le> length og" using origins_match_length [OF m] by simp
  have wf: "wf_slots True (Locals g)" using ok by (simp add: frame_ok_iff)
  show ?thesis
    unfolding origins_match_nth
  proof (intro conjI allI impI)
    show "length (take (length (Locals g)) (carried og f g)) = length (Locals g)" by simp
  next
    fix i assume i: "i < length (Locals g)"
    then have "O_Kind (og ! i) = OriginTop \<longleftrightarrow> Kind (Locals f ! i) = TopK"
      using match_prefix(1) [OF m] len by simp
    then show "(O_Kind (take (length (Locals g)) (carried og f g) ! i) = OriginTop) =
        (Kind (Locals g ! i) = TopK)"
      using carried_nth [OF len i] class_nth(1) [OF c] i len by auto
  next
    fix i assume i: "i < length (Locals g)" and h: "IsCat2Head (Kind (Locals g ! i))"
    then have n: "i + 1 < length (Locals g)" "IsTail (Kind (Locals g ! (i + 1)))"
      using pair_okD(1) [OF wf i h] tail_of_head [OF h] by blast+
    show "i + 1 < length (Locals g)" by (rule n(1))
    have "og ! (i + 1) = og ! i"
      using match_prefix(2) [OF m] class_nth(2) [OF c] i h len by simp
    moreover have "Kind (Locals g ! i) \<noteq> TopK" "Kind (Locals g ! (i + 1)) \<noteq> TopK"
      using h n(2) by (auto simp: IsCat2Head_def IsTail_def)
    ultimately show "take (length (Locals g)) (carried og f g) ! (i + 1) =
        take (length (Locals g)) (carried og f g) ! i"
      using carried_nth [OF len] n(1) by simp
  qed
qed

text \<open>A store: the written slots get the origin of the value.\<close>

definition written :: "int \<Rightarrow> ftype \<Rightarrow> Origin \<Rightarrow> Origin list \<Rightarrow> Origin list" where
  "written idx t x out =
     (if IsCat2Head (Kind t) then out[nat idx := x, nat idx + 1 := x] else out[nat idx := x])"

lemma stored_match:
  assumes okf: "frame_ok f" and m: "origins_match (Locals f) (take (length (Locals f)) og)"
    and ls: "Locals f1 = Locals f" and g: "g = write_local idx t f1" and okg: "frame_ok g"
    and t: "Computational t" and i: "0 \<le> idx"
    and room: "idx + (if IsCat2Head (Kind t) then 2 else 1) \<le> slen (Locals f)"
    and x: "O_Kind x \<noteq> OriginTop"
  shows "origins_match (Locals g) (take (length (Locals g)) (written idx t x (carried og f g)))"
proof -
  let ?i = "nat idx"
  have w: "length (Locals g) = length (Locals f)" "Locals g ! ?i = t"
    "IsCat2Head (Kind t) \<Longrightarrow> Locals g ! (?i + 1) = TailOf t"
    "\<And>j. j < length (Locals f) \<Longrightarrow> j \<noteq> ?i \<Longrightarrow> (IsCat2Head (Kind t) \<Longrightarrow> j \<noteq> ?i + 1) \<Longrightarrow>
       spared (Locals f) (Locals g) j"
    using write_local_ok [of f1 t idx] okf t i room unfolding g frame_ok_iff ls by auto
  have wf: "wf_slots True (Locals g)" using okg by (simp add: frame_ok_iff)
  have og: "length (Locals f) \<le> length og" using origins_match_length [OF m] by simp
  have len: "?i < length (Locals g)" "IsCat2Head (Kind t) \<Longrightarrow> ?i + 1 < length (Locals g)"
    using i room w(1) by (auto simp: slen_def split: if_splits)
  let ?out = "written idx t x (carried og f g)"
  have at: "?out ! j = (if j = ?i \<or> IsCat2Head (Kind t) \<and> j = ?i + 1 then x
      else if Kind (Locals g ! j) = TopK then top_origin j else og ! j)" if "j < length (Locals g)" for j
    using that len carried_nth [OF w(1) that] by (auto simp: written_def nth_list_update)
  have tl: "Kind (TailOf t) \<noteq> TopK" if "IsCat2Head (Kind t)" using TailOf_cat2 [of t] that
    by (auto simp: IsTail_def)
  show ?thesis
    unfolding origins_match_nth
  proof (intro conjI allI impI)
    show "length (take (length (Locals g)) ?out) = length (Locals g)" by (simp add: written_def)
  next
    fix j assume j: "j < length (Locals g)"
    have o: "O_Kind (og ! j) = OriginTop \<longleftrightarrow> Kind (Locals f ! j) = TopK"
      using match_prefix(1) [OF m] w(1) j by simp
    have tt: "Kind t \<noteq> TopK" using t by (simp add: Computational_iff)
    have "(O_Kind (?out ! j) = OriginTop) = (Kind (Locals g ! j) = TopK)"
    proof (cases "j = ?i \<or> IsCat2Head (Kind t) \<and> j = ?i + 1")
      case True
      then have "Kind (Locals g ! j) \<noteq> TopK" using w(2,3) tt tl by auto
      then show ?thesis using at [OF j] True x by simp
    next
      case False
      then have "spared (Locals f) (Locals g) j" using j w(1) by (intro w(4)) auto
      then have "Locals g ! j = Locals f ! j" if "Kind (Locals g ! j) \<noteq> TopK"
        using that by (auto simp: spared_def)
      then show ?thesis using at [OF j] False o by (cases "Kind (Locals g ! j) = TopK") auto
    qed
    then show "(O_Kind (take (length (Locals g)) ?out ! j) = OriginTop) = (Kind (Locals g ! j) = TopK)"
      using j by simp
  next
    fix j assume j: "j < length (Locals g)" and h: "IsCat2Head (Kind (Locals g ! j))"
    have n: "j + 1 < length (Locals g)" "IsTail (Kind (Locals g ! (j + 1)))"
      using pair_okD(1) [OF wf j h] tail_of_head [OF h] by blast+
    show "j + 1 < length (Locals g)" by (rule n(1))
    show "take (length (Locals g)) ?out ! (j + 1) = take (length (Locals g)) ?out ! j"
    proof (cases "j = ?i")
      case True
      then show ?thesis using h w(2) at [OF j] at [OF n(1)] n(1) by simp
    next
      case False
      have nt: "\<not> IsTail (Kind t)" using t by (simp add: Computational_iff)
      have nh: "\<not> IsCat2Head (Kind (TailOf t))" if "IsCat2Head (Kind t)"
        using TailOf_cat2 [of t] that by (auto simp: IsTail_def IsCat2Head_def)
      have j1: "j + 1 \<noteq> ?i" using n(2) w(2) nt by auto
      have j2: "IsCat2Head (Kind t) \<Longrightarrow> j \<noteq> ?i + 1" using h w(3) nh by auto
      have "spared (Locals f) (Locals g) j" using w(4) [OF _ False j2] j w(1) by simp
      then have "Locals g ! j = Locals f ! j" using h by (auto simp: spared_def)
      then have "og ! (j + 1) = og ! j"
        using match_prefix(2) [OF m] h w(1) j by simp
      moreover have "Kind (Locals g ! j) \<noteq> TopK" "Kind (Locals g ! (j + 1)) \<noteq> TopK"
        using h n(2) by (auto simp: IsCat2Head_def IsTail_def)
      ultimately show ?thesis using at [OF j] at [OF n(1)] False j1 j2 n(1) by auto
    qed
  qed
qed

section \<open>Every instruction that the frame accepts, the origins accept\<close>

lemma stack_at:
  assumes "wf_slots False ts" and "map TypeWidth (filter Computational ts) = ws @ [n]"
  shows "sum_list ws < length ts \<and> TypeWidth (ts ! sum_list ws) = n"
proof -
  have sum: "sum_list (map TypeWidth (filter Computational ys)) = length ys" if "wf_slots False ys" for ys
    using width_of_stack [OF that] by (simp add: width_sum_def slen_def int_sum [symmetric])
  from assms(1) show ?thesis
  proof (cases rule: wf_stack_cases)
    case 1
    then show ?thesis using assms(2) by simp
  next
    case (2 ys t)
    then have "map TypeWidth (filter Computational ys) = ws" "TypeWidth t = n" using assms(2) by simp_all
    then show ?thesis using sum [OF 2(2)] 2 by (simp add: nth_append)
  next
    case (3 ys t u)
    then have "\<not> Computational u" "Computational t" using tail_of_head cat2_computational by blast+
    then have "map TypeWidth (filter Computational ys) = ws" "TypeWidth t = n" using assms(2) 3(1) by simp_all
    then show ?thesis using sum [OF 3(2)] 3 by (simp add: nth_append)
  qed
qed

text \<open>What the switch has to answer for an instruction that takes \<open>f\<close> to \<open>g\<close>.\<close>

definition switch_ok :: "Origin list \<Rightarrow> frame \<Rightarrow> frame \<Rightarrow> ir_instr \<Rightarrow> originValue list \<Rightarrow> (ssa_error + origin_case) \<Rightarrow> bool" where
  "switch_ok og f g ins stk r \<longleftrightarrow>
     (\<exists>out' stk' used defs. r = Inr (out', stk', used, defs) \<and> map ov_width stk' = widths g \<and>
        available stk' \<and> length out' = length (Locals g) + length (Stack g) \<and>
        origins_match (Locals g) (take (length (Locals g)) out'))"

lemma transferOrigins_finish:
  assumes og: "origins_ok f og" and okf: "frame_ok f" and okg: "frame_ok g"
    and sw: "\<And>stk. map ov_width stk = widths f \<Longrightarrow> available stk \<Longrightarrow>
      switch_ok og f g ins stk (origin_switch og f g ins stk (carried og f g))"
  shows "\<exists>og' used defs. transferOrigins og f g ins = Inr (og', used, defs) \<and> origins_ok g og'"
proof -
  have wf: "wf_slots False (Stack f)" "wf_slots False (Stack g)" using okf okg by (simp_all add: frame_ok_iff)
  obtain stk where stk: "decodeOrigins (Stack f) (drop (length (Locals f)) og) = Inr stk"
    "map ov_width stk = widths f" "available stk"
    using decode_match [OF wf(1)] og by (auto simp: origins_ok_def widths_def vals_def)
  obtain out' stk' used defs where
    r: "origin_switch og f g ins stk (carried og f g) = Inr (out', stk', used, defs)"
    "map ov_width stk' = widths g" "available stk'" "length out' = length (Locals g) + length (Stack g)"
    "origins_match (Locals g) (take (length (Locals g)) out')"
    using sw [OF stk(2,3)] by (auto simp: switch_ok_def)
  have m: "origins_match (Stack g) (encode_origins stk')"
    using encode_match [OF wf(2) _ r(3)] r(2) by (simp add: widths_def vals_def)
  then obtain vs where d: "decodeOrigins (Stack g) (encode_origins stk') = Inr vs"
    using decode_match [OF wf(2)] by blast
  have len: "length (encode_origins stk') = length (Stack g)" using origins_match_length [OF m] .
  have run: "transferOrigins og f g ins =
      Inr (take (length (Locals g)) out' @ encode_origins stk', used, defs)"
    using og stk(1) r(1) len d by (simp add: transferOrigins_def origins_ok_def Let_def)
  moreover have "origins_ok g (take (length (Locals g)) out' @ encode_origins stk')"
    using r(4,5) m len by (simp add: origins_ok_def)
  ultimately show ?thesis by blast
qed

text \<open>The default case: an action with the effect that \<open>originEffect\<close> states.\<close>

lemma default_ok:
  assumes og: "origins_ok f og" and okf: "frame_ok f" and run: "act f = Inr (s, g)"
    and eff: "effect p (if psh then 1 else 0) act" and oe: "originEffect ins = Inr (p, psh)"
    and w: "map ov_width stk = widths f" and av: "available stk"
  shows "switch_ok og f g ins stk (default_origins g ins stk (carried og f g))"
proof -
  note e = effectD [OF eff okf run]
  then have okg: "frame_ok g" by blast
  obtain new where new: "length new = (if psh then 1 else 0)"
    "widths g = take (length (widths f) - p) (widths f) @ new" and p: "p \<le> length (widths f)"
    using e by auto
  have len: "length stk = length (widths f)" using w by (metis length_map)
  let ?low = "take (length stk - p) stk"
  have low: "map ov_width ?low = take (length (widths f) - p) (widths f)" using w len by (metis take_map)
  have avl: "available ?low" using av by (auto simp: available_def dest: in_set_takeD)
  have m: "origins_match (Locals g) (take (length (Locals g)) (carried og f g))"
    using carried_match [OF okg] og e by (simp add: origins_ok_def)
  show ?thesis
  proof (cases psh)
    case False
    then show ?thesis using oe p len low new m avl
      by (simp add: default_origins_def switch_ok_def Let_def)
  next
    case True
    then obtain n where n: "new = [n]" using new(1) by (cases new) auto
    have wf: "wf_slots False (Stack g)" using okg by (simp add: frame_ok_iff)
    have "map TypeWidth (filter Computational (Stack g)) = map ov_width ?low @ [n]"
      using new(2) n low by (simp add: widths_def vals_def)
    from stack_at [OF wf this] have s: "sum_list (map ov_width ?low) < length (Stack g)"
      "TypeWidth (Stack g ! sum_list (map ov_width ?low)) = n" by simp_all
    then show ?thesis using oe p len low new n m avl True
      by (simp add: default_origins_def switch_ok_def Let_def instr_origin_def)
  qed
qed

lemma default_switch:
  assumes "op = I_Opcode ins" and "\<not> Read (LocalAccessOf op)" "\<not> Write (LocalAccessOf op)"
    and "op < OP_POP \<or> OP_SWAP < op" and "op \<noteq> OP_ATHROW"
  shows "origin_switch og f g ins stk out = default_origins g ins stk out"
  using assms by (auto simp: origin_switch_def Let_def access_flags)

end
