(* ===== verification/OriginStep.thy ===== *)
theory OriginStep
  imports OriginFlow
begin

text \<open>
  One instruction, frame and origins together: for every opcode that the frame transfer accepts,
  the case of the origin switch succeeds and its result fits the new frame.
\<close>

section \<open>The numbers of \<open>originEffect\<close>\<close>

text \<open>What \<open>originEffect\<close> says of each group of the switch.\<close>

lemma effect_ranges:
  "0 \<le> op \<Longrightarrow> op \<le> 20 \<Longrightarrow> I_Opcode ins = op \<Longrightarrow> originEffect ins = Inr (0, op \<noteq> OP_NOP)"
  "46 \<le> op \<Longrightarrow> op \<le> 53 \<Longrightarrow> I_Opcode ins = op \<Longrightarrow> originEffect ins = Inr (2, True)"
  "79 \<le> op \<Longrightarrow> op \<le> 86 \<Longrightarrow> I_Opcode ins = op \<Longrightarrow> originEffect ins = Inr (3, False)"
  "96 \<le> op \<Longrightarrow> op \<le> 131 \<Longrightarrow> I_Opcode ins = op \<Longrightarrow>
     originEffect ins = Inr (if OP_INEG \<le> op \<and> op \<le> OP_DNEG then 1 else 2, True)"
  "133 \<le> op \<Longrightarrow> op \<le> 152 \<Longrightarrow> I_Opcode ins = op \<Longrightarrow>
     originEffect ins = Inr (if op \<le> OP_I2S then 1 else 2, True)"
  by (auto simp: originEffect_def Let_def)

lemma branch_range:
  assumes "branch_case op \<noteq> None" and "I_Opcode ins = op"
  shows "originEffect ins = Inr (branch_pops op, False)"
proof -
  have "op \<in> set ([153..167] @ [170..177] @ [198..200])"
    using assms(1) unfolding branch_domain set_append Un_iff by blast
  then have "op \<in> set [153,154,155,156,157,158,159,160,161,162,163,164,165,166,167,
      170,171,172,173,174,175,176,177,198,199,200]"
    by (simp add: upto_rec1 del: set_upto)
  then show ?thesis
    using assms(2) unfolding list.set insert_iff empty_iff
    by (elim disjE FalseE) (simp_all add: originEffect_def Let_def branch_pops_def)
qed

lemma object_range:
  assumes "178 \<le> op" "op \<le> 195 \<or> op = 197" "I_Opcode ins = op"
    and "\<not> (OP_INVOKEVIRTUAL \<le> op \<and> op \<le> OP_INVOKEDYNAMIC)" "op \<noteq> OP_ATHROW"
    and "Dims i = Dims (FromIR ins)" "op = OP_MULTIANEWARRAY \<Longrightarrow> 0 < Dims i"
  shows "originEffect ins = Inr (fst (object_effect op i), snd (object_effect op i) = 1)"
proof -
  have "op \<in> set [178,179,180,181,187,188,189,190,192,193,194,195,197]"
    using assms(1,2,4,5) by auto
  then show ?thesis
    using assms(3,6,7) by (auto simp: originEffect_def Let_def object_effect_def)
qed

lemma snd_object_effect: "snd (object_effect op i) = (if snd (object_effect op i) = 1 then 1 else 0)"
  by (auto simp: object_effect_def)

text \<open>The instruction as the solver hands it to \<open>Transfer\<close>.\<close>

definition solver_instr :: "ir_instr \<Rightarrow> ft_instr" where
  "solver_instr ins =
     (let ft = FromIR ins; loc = effectiveLocal ins in if loc \<ge> 0 then ft\<lparr>Local := loc\<rparr> else ft)"

lemma FromIR_simps [simp]:
  "Op (FromIR ins) = I_Opcode ins" "F_Desc (FromIR ins) = I_Desc ins" "Local (FromIR ins) = I_Local ins"
  by (simp_all add: FromIR_def Let_def)

lemma solver_instr_simps [simp]:
  "Op (solver_instr ins) = I_Opcode ins" "F_Desc (solver_instr ins) = I_Desc ins"
  "Dims (solver_instr ins) = Dims (FromIR ins)"
  by (simp_all add: solver_instr_def Let_def)

lemma solver_local:
  assumes "Read (LocalAccessOf (I_Opcode ins)) \<or> Write (LocalAccessOf (I_Opcode ins))"
    and "0 \<le> Local (solver_instr ins)"
  shows "effectiveLocal ins = Local (solver_instr ins)"
proof (cases "effectiveLocal ins < 0")
  case True
  then have "I_Local ins < 0" using assms(1) by (auto simp: effectiveLocal_def Let_def split: if_splits)
  then show ?thesis using True assms(2) by (simp add: solver_instr_def Let_def)
qed (simp add: solver_instr_def Let_def)

section \<open>Loads, stores and increments\<close>

definition is_load :: "ft_instr \<Rightarrow> case_action \<Rightarrow> bool" where
  "is_load i a \<longleftrightarrow> (\<exists>k. a = plain (load i k))"

definition is_store :: "ft_instr \<Rightarrow> case_action \<Rightarrow> bool" where
  "is_store i a \<longleftrightarrow> (\<exists>k. a = plain (store i k))"

lemma is_load_store: "is_load i (plain (load i k))" "is_store i (plain (store i k))"
  by (auto simp: is_load_def is_store_def)

lemma if_SomeE:
  "(if c then Some x else y) = Some a \<Longrightarrow> (c \<Longrightarrow> a = x \<Longrightarrow> P) \<Longrightarrow> (y = Some a \<Longrightarrow> P) \<Longrightarrow> P"
  by (cases c) simp_all

lemma local_forms:
  assumes "local_case op i = Some a"
  shows "(21 \<le> op \<and> op \<le> 45 \<and> is_load i a) \<or> (54 \<le> op \<and> op \<le> 78 \<and> is_store i a) \<or>
    (op = OP_IINC \<and> a = plain (doIinc i))"
  using assms unfolding local_case_def by (elim if_SomeE) (auto simp: is_load_store)

lemma plain_Inr: "plain m f = Inr (s, g) \<longleftrightarrow> s = None \<and> (\<exists>a. m f = Inr (a, g))"
  by (auto simp: plain_def then_act_Inr act_simps)

lemma loadLocal_Inr:
  "loadLocal idx k f = Inr (t, g) \<Longrightarrow> g = f \<and> 0 \<le> idx \<and> idx < slen (Locals f) \<and>
     t = Locals f ! nat idx \<and> Computational t \<and> (k \<noteq> RefK \<longrightarrow> Kind t = k)"
  by (auto simp: loadLocal_def ensureLocal_def Let_def split: if_splits)

lemma storeLocal_Inr:
  "storeLocal idx t f = Inr (a, g) \<Longrightarrow> g = write_local idx t f \<and> Computational t \<and> 0 \<le> idx \<and>
     idx + (if IsCat2Head (Kind t) then 2 else 1) \<le> slen (Locals f)"
  by (auto simp: storeLocal_def ensureLocal_def Let_def split: if_splits)

lemma popKind_popValue: "popKind k f = Inr (t, g) \<Longrightarrow> popValue f = Inr (t, g)"
  by (auto simp: popKind_def bind_act_Inr act_simps split: if_splits)

lemma load_ok:
  assumes og: "origins_ok f og" and okf: "frame_ok f" and run: "load i k f = Inr (a, g)"
    and loc: "effectiveLocal ins = Local i"
    and w: "map ov_width stk = widths f" and av: "available stk"
  shows "switch_ok og f g ins stk (load_origins og f ins stk (carried og f g))"
proof -
  obtain t where l: "loadLocal (Local i) k f = Inr (t, f)" and p: "push t f = Inr (a, g)"
    using run by (auto simp: load_def bind_act_Inr dest: loadLocal_Inr)
  note L = loadLocal_Inr [OF l]
  then have i: "nat (Local i) < length (Locals f)" by (auto simp: slen_def)
  have g: "frame_ok g" "vals g = vals f @ [t]" "same_rest f g"
    using push_ok [OF okf, of t] L p by (auto split: if_splits)
  have "origins_match (Locals f) (take (length (Locals f)) og)" using og by (simp add: origins_ok_def)
  from match_prefix(1) [OF this i] have "O_Kind (og ! nat (Local i)) \<noteq> OriginTop"
    using L by (auto simp: Computational_iff)
  moreover have "origins_match (Locals g) (take (length (Locals g)) (carried og f g))"
    using carried_match [OF g(1)] og same_rest_classes [OF g(3)] by (simp add: origins_ok_def)
  ultimately show ?thesis
    using L w av g(2) loc by (simp add: load_origins_def switch_ok_def Let_def widths_def)
qed

lemma storeLocal_rest: "storeLocal idx t f = Inr (a, g) \<Longrightarrow> Stack g = Stack f"
  by (drule storeLocal_Inr) (simp add: write_local_def Let_def)

lemma iinc_ok:
  assumes og: "origins_ok f og" and okf: "frame_ok f" and run: "doIinc i f = Inr (a, g)"
    and loc: "effectiveLocal ins = Local i"
    and w: "map ov_width stk = widths f" and av: "available stk"
  shows "switch_ok og f g ins stk (iinc_origins og f g ins stk (carried og f g))"
proof -
  obtain t f' where l: "loadLocal (Local i) IntK f = Inr (t, f')"
    and st': "storeLocal (Local i) (if HasInt t then IntConst (IntV t + IincConst i) else T IntK) f' = Inr (a, g)"
    using run by (auto simp only: doIinc_def bind_act_Inr)
  obtain u where u: "(if HasInt t then IntConst (IntV t + IincConst i) else T IntK) = u" by blast
  have st: "storeLocal (Local i) u f = Inr (a, g)" using st' loadLocal_Inr [OF l] u by simp
  have ku: "Kind u = IntK" using u by (auto simp: T_def IntConst_def split: if_splits)
  note S = storeLocal_Inr [OF st]
  have okg: "frame_ok g" using keepsD [OF keeps_storeLocal okf st] by simp
  have g: "length (Locals g) = length (Locals f)" "widths g = widths f"
    using keepsD [OF keeps_storeLocal okf st] storeLocal_rest [OF st] by (simp_all add: shape_def widths_def vals_def)
  have "origins_match (Locals g) (take (length (Locals g))
      (written (Local i) u (instr_origin (I_PC ins) (Local i)) (carried og f g)))"
    using S og by (intro stored_match [OF okf _ refl _ okg]) (simp_all add: origins_ok_def instr_origin_def)
  moreover have "\<not> (Local i < 0 \<or> slen (Locals f) \<le> Local i \<or> slen (Locals g) \<le> Local i)"
    using S g(1) by (auto simp: slen_def split: if_splits)
  ultimately show ?thesis
    using g w av loc ku
    by (simp add: iinc_origins_def switch_ok_def Let_def slen_def written_def IsCat2Head_def)
qed

lemma store_ok:
  assumes og: "origins_ok f og" and okf: "frame_ok f" and run: "store i k f = Inr (a, g)"
    and loc: "effectiveLocal ins = Local i"
    and w: "map ov_width stk = widths f" and av: "available stk"
  shows "switch_ok og f g ins stk (store_origins g ins stk (carried og f g))"
proof -
  obtain t f1 where p: "popValue f = Inr (t, f1)" and st: "storeLocal (Local i) t f1 = Inr (a, g)"
    using run by (auto simp: store_def bind_act_Inr act_simps dest: popKind_popValue split: if_splits)
  have v: "vals f \<noteq> []" "t = last (vals f)" "frame_ok f1" "vals f1 = butlast (vals f)" "same_rest f f1"
    using popValue_ok [OF okf] p by (auto split: if_splits)
  note S = storeLocal_Inr [OF st]
  have ls: "Locals f1 = Locals f" using same_rest_shape [OF v(5)] by simp
  have okg: "frame_ok g" using keepsD [OF keeps_storeLocal v(3) st] by simp
  have g: "length (Locals g) = length (Locals f)" "widths g = widths f1"
    using keepsD [OF keeps_storeLocal v(3) st] storeLocal_rest [OF st] ls
    by (simp_all add: shape_def widths_def vals_def)
  have ne: "stk \<noteq> []" using w v(1) by (auto simp: widths_def)
  have wt: "ov_width (last stk) = TypeWidth t"
    using arg_cong [OF w, of last] ne v by (simp add: widths_def last_map)
  have "widths g = butlast (widths f)" unfolding g(2) by (simp add: widths_def v(4) map_butlast)
  then have wb: "map ov_width (butlast stk) = widths g" by (simp add: map_butlast w)
  have avl: "available (butlast stk)" "O_Kind (ov_origin (last stk)) \<noteq> OriginTop"
    using av ne by (auto simp: available_def dest: in_set_butlastD)
  have m: "origins_match (Locals g) (take (length (Locals g))
      (written (Local i) t (ov_origin (last stk)) (carried og f g)))"
    using S og avl(2) by (intro stored_match [OF okf _ ls _ okg]) (simp_all add: origins_ok_def ls)
  have t2: "TypeWidth t = 2 \<longleftrightarrow> IsCat2Head (Kind t)" using S by (simp add: value_width)
  have i: "0 \<le> Local i" "Local i < slen (Locals g)" "IsCat2Head (Kind t) \<Longrightarrow> Local i + 1 < slen (Locals g)"
    using S g(1) ls by (auto simp: slen_def split: if_splits)
  show ?thesis
  proof (cases "IsCat2Head (Kind t)")
    case True
    then have "\<not> (slen (carried og f g) \<le> Local i + 1)" using i(3) by (simp add: slen_def)
    then show ?thesis using i(1,2) ne wt wb avl m loc True
      by (simp add: store_origins_def switch_ok_def Let_def written_def t2 slen_def)
  next
    case False
    then show ?thesis using i(1,2) ne wt wb avl m loc
      by (simp add: store_origins_def switch_ok_def Let_def written_def t2)
  qed
qed

section \<open>The composition with the frame transfer\<close>

lemma dup_ok:
  assumes og: "origins_ok f og" and okf: "frame_ok f" and run: "dupFamily op f = Inr (a, g)"
    and w: "map ov_width stk = widths f" and av: "available stk"
  shows "switch_ok og f g ins stk (move_origins op stk (carried og f g))"
proof -
  note d = dupFamily_move [OF okf run]
  have "origins_match (Locals g) (take (length (Locals g)) (carried og f g))"
    using carried_match d same_rest_classes og by (simp add: origins_ok_def)
  then show ?thesis
    using move_origins_ok [OF _ _ w av, of op g "carried og f g"] d by (auto simp: switch_ok_def)
qed

lemma athrow_ok:
  assumes og: "origins_ok f og" and okf: "frame_ok f" and run: "do_athrow f = Inr (a, g)"
    and w: "map ov_width stk = widths f" and av: "available stk"
  shows "switch_ok og f g ins stk (athrow_origins stk (carried og f g))"
proof -
  obtain x f1 where p: "popKind RefK f = Inr (x, f1)" and g: "g = f1\<lparr>Stack := [x]\<rparr>"
    using run by (auto simp: do_athrow_def bind_act_Inr set_stack_def)
  have okg: "frame_ok g" using keepsD [OF keeps_athrow okf run] by simp
  have v: "vals f \<noteq> []" "x = last (vals f)" "same_rest f f1"
    using popValue_ok [OF okf] popKind_popValue [OF p] by (auto split: if_splits)
  have k: "Kind x = RefK \<or> Kind x = NullK"
    using p by (auto simp: popKind_def bind_act_Inr act_simps split: if_splits)
  have ne: "stk \<noteq> []" using w v(1) by (auto simp: widths_def)
  have wt: "ov_width (last stk) = TypeWidth x"
    using arg_cong [OF w, of last] ne v by (simp add: widths_def last_map)
  have "O_Kind (ov_origin (last stk)) \<noteq> OriginTop" using av ne by (simp add: available_def)
  moreover have "widths g = [TypeWidth x]"
    using k by (auto simp: g widths_def vals_def Computational_iff IsTail_def)
  moreover have "Locals g = Locals f" using same_rest_shape [OF v(3)] by (simp add: g)
  then have "origins_match (Locals g) (take (length (Locals g)) (carried og f g))"
    using carried_match [OF okg] og by (simp add: origins_ok_def)
  ultimately show ?thesis using ne wt by (simp add: athrow_origins_def switch_ok_def)
qed

lemma invoke_effect:
  assumes run: "invoke (solver_instr ins) f = Inr (s, g)"
    and op: "OP_INVOKEVIRTUAL \<le> I_Opcode ins" "I_Opcode ins \<le> OP_INVOKEDYNAMIC"
  shows "\<exists>p psh. effect p (if psh then 1 else 0) (invoke (solver_instr ins)) \<and> originEffect ins = Inr (p, psh)"
proof -
  obtain args result where d: "I_Desc ins \<noteq> []" "ParseDescriptor (I_Desc ins) = Inr (args, result)"
    using run by (auto simp: invoke_def bind_act_Inr lift_res_Inr act_simps split: if_splits)
  have "originEffect ins = Inr (call_pops (solver_instr ins) args, result \<noteq> None)"
    using op d by (auto simp: originEffect_def Let_def call_pops_def)
  then show ?thesis using effect_invoke [of "solver_instr ins"] d by auto
qed

text \<open>An instruction that neither moves values nor touches a local has the effect that
  \<open>originEffect\<close> lists.\<close>

lemma default_effect:
  assumes tc: "transfer_case fl (I_Opcode ins) (solver_instr ins) = Some act" and run: "act f = Inr (s, g)"
    and dims: "I_Opcode ins = OP_MULTIANEWARRAY \<Longrightarrow> 0 < Dims (FromIR ins)"
    and plain: "\<not> Read (LocalAccessOf (I_Opcode ins))" "\<not> Write (LocalAccessOf (I_Opcode ins))"
      "I_Opcode ins < OP_POP \<or> OP_SWAP < I_Opcode ins" "I_Opcode ins \<noteq> OP_ATHROW"
  shows "\<exists>p psh. effect p (if psh then 1 else 0) act \<and> originEffect ins = Inr (p, psh)"
proof -
  let ?op = "I_Opcode ins" and ?i = "solver_instr ins"
  from tc consider
      (cst) "constant_case ?op ?i = Some act" | (lcl) "local_case ?op ?i = Some act"
    | (arith) "arith_case fl ?op ?i = Some act" | (convert) "convert_case ?op = Some act"
    | (branch) "branch_case ?op = Some act" | (object) "object_case ?op ?i = Some act"
    | (array) "array_case ?op = Some act"
    unfolding transfer_case_def orelse_Some by blast
  then show ?thesis
  proof cases
    case cst
    then have r: "0 \<le> ?op" "?op \<le> 20" using constant_domain [of ?op ?i] by auto
    have "effect 0 (if ?op \<noteq> OP_NOP then 1 else 0) act" using constant_effect [OF cst] by auto
    then show ?thesis using effect_ranges(1) [OF r refl] by blast
  next
    case lcl
    then show ?thesis using local_forms [OF lcl] plain(1,2) by (auto simp: access_flags)
  next
    case arith
    then have r: "87 \<le> ?op" "?op \<le> 131" using arith_domain [of fl ?op ?i] by auto
    then have f: "96 \<le> ?op" "?op > OP_SWAP" using plain(3) by auto
    have "effect (if OP_INEG \<le> ?op \<and> ?op \<le> OP_DNEG then 1 else 2) (if True then 1 else 0) act"
      unfolding if_True by (rule arith_effect [OF arith f(2)])
    then show ?thesis using effect_ranges(4) [OF f(1) r(2) refl] by blast
  next
    case convert
    then have r: "133 \<le> ?op" "?op \<le> 152" using convert_domain [of ?op] by auto
    have "effect (if ?op \<le> OP_I2S then 1 else 2) (if True then 1 else 0) act"
      unfolding if_True by (rule convert_effect [OF convert])
    then show ?thesis using effect_ranges(5) [OF r refl] by blast
  next
    case branch
    have "effect (branch_pops ?op) (if False then 1 else 0) act"
      unfolding if_False by (rule branch_effect [OF branch])
    then show ?thesis using branch_range [OF _ refl, of ins] branch by blast
  next
    case object
    then have r: "178 \<le> ?op" "?op \<le> 195 \<or> ?op = 197" using object_domain [of ?op ?i] by auto
    show ?thesis
    proof (cases "OP_INVOKEVIRTUAL \<le> ?op \<and> ?op \<le> OP_INVOKEDYNAMIC")
      case True
      then have "?op \<in> set [182, 183, 184, 185, 186]" by auto
      then have "act = invoke ?i" using object unfolding list.set insert_iff empty_iff
        by (elim disjE FalseE) (simp_all add: object_case_def)
      then show ?thesis using invoke_effect [of ins f s g] run True by blast
    next
      case False
      have "effect (fst (object_effect ?op ?i)) (if snd (object_effect ?op ?i) = 1 then 1 else 0) act"
        using object_effect [OF object False plain(4)] snd_object_effect [of ?op ?i] by simp
      moreover have "originEffect ins = Inr (fst (object_effect ?op ?i), snd (object_effect ?op ?i) = 1)"
        by (rule object_range [OF r refl False plain(4)]) (use dims in simp_all)
      ultimately show ?thesis by blast
    qed
  next
    case array
    then have r: "46 \<le> ?op \<and> ?op \<le> 53 \<or> 79 \<le> ?op \<and> ?op \<le> 86" using array_domain [of ?op] by auto
    show ?thesis
    proof (cases "?op \<le> 53")
      case True
      then have "effect 2 (if True then 1 else 0) act" using array_effect [OF array] by simp
      then show ?thesis using effect_ranges(2) [OF _ True refl] r True by auto
    next
      case False
      then have "effect 3 (if False then 1 else 0) act" using array_effect [OF array] by simp
      then show ?thesis using effect_ranges(3) [OF _ _ refl] r False by auto
    qed
  qed
qed

text \<open>The cases that move values or touch a local.\<close>

lemma case_of_opcode:
  assumes tc: "transfer_case fl op i = Some act"
  shows "\<lbrakk>21 \<le> op; op \<le> 45\<rbrakk> \<Longrightarrow> is_load i act" "\<lbrakk>54 \<le> op; op \<le> 78\<rbrakk> \<Longrightarrow> is_store i act"
    "op = OP_IINC \<Longrightarrow> act = plain (doIinc i)" "op = OP_ATHROW \<Longrightarrow> act = plain do_athrow"
    "\<lbrakk>OP_POP \<le> op; op \<le> OP_SWAP\<rbrakk> \<Longrightarrow> act = plain (dupFamily op)"
proof -
  have none: "constant_case op i = None \<and> convert_case op = None \<and> branch_case op = None \<and> array_case op = None"
    if "21 \<le> op \<and> op \<le> 45 \<or> 54 \<le> op \<and> op \<le> 78 \<or> op = OP_IINC \<or> op = OP_ATHROW \<or> OP_POP \<le> op \<and> op \<le> OP_SWAP"
    using that unfolding constant_domain convert_domain branch_domain array_domain by auto
  have lcl: "local_case op i = Some act"
    if "21 \<le> op \<and> op \<le> 45 \<or> 54 \<le> op \<and> op \<le> 78 \<or> op = OP_IINC"
  proof -
    have "arith_case fl op i = None \<and> object_case op i = None"
      using that unfolding arith_domain object_domain by auto
    moreover have "constant_case op i = None \<and> convert_case op = None \<and> branch_case op = None \<and> array_case op = None"
      using that by (intro none) blast
    ultimately show ?thesis using tc unfolding transfer_case_def orelse_Some by simp
  qed
  show "\<lbrakk>21 \<le> op; op \<le> 45\<rbrakk> \<Longrightarrow> is_load i act" "\<lbrakk>54 \<le> op; op \<le> 78\<rbrakk> \<Longrightarrow> is_store i act"
    "op = OP_IINC \<Longrightarrow> act = plain (doIinc i)"
    using local_forms [OF lcl] by auto
  show "op = OP_ATHROW \<Longrightarrow> act = plain do_athrow"
    using tc by (simp add: transfer_case_def orelse_def constant_case_def local_case_def arith_case_def
        convert_case_def branch_case_def object_case_def)
  show "act = plain (dupFamily op)" if "OP_POP \<le> op" "op \<le> OP_SWAP"
  proof -
    have "local_case op i = None \<and> object_case op i = None"
      using that unfolding local_domain object_domain by auto
    moreover have "constant_case op i = None \<and> convert_case op = None \<and> branch_case op = None \<and> array_case op = None"
      using that by (intro none) blast
    ultimately have "arith_case fl op i = Some act"
      using tc unfolding transfer_case_def orelse_Some by simp
    then show ?thesis using that by (auto simp: arith_case_def split: if_split_asm)
  qed
qed

lemma switch_of_transfer:
  assumes og: "origins_ok f og" and okf: "frame_ok f"
    and tc: "transfer_case fl (I_Opcode ins) (solver_instr ins) = Some act" and run: "act f = Inr (s, g)"
    and dims: "I_Opcode ins = OP_MULTIANEWARRAY \<Longrightarrow> 0 < Dims (FromIR ins)"
    and w: "map ov_width stk = widths f" and av: "available stk"
  shows "switch_ok og f g ins stk (origin_switch og f g ins stk (carried og f g))"
proof -
  let ?op = "I_Opcode ins" and ?i = "solver_instr ins"
  note form = case_of_opcode [OF tc]
  consider (ld) "21 \<le> ?op" "?op \<le> 45" | (st) "54 \<le> ?op" "?op \<le> 78" | (inc) "?op = OP_IINC"
    | (move) "OP_POP \<le> ?op" "?op \<le> OP_SWAP" | (throw) "?op = OP_ATHROW" | (rt) "?op = OP_RET"
    | (other) "\<not> (21 \<le> ?op \<and> ?op \<le> 45)" "\<not> (54 \<le> ?op \<and> ?op \<le> 78)" "?op \<noteq> OP_IINC"
        "\<not> (OP_POP \<le> ?op \<and> ?op \<le> OP_SWAP)" "?op \<noteq> OP_ATHROW" "?op \<noteq> OP_RET"
    by blast
  then show ?thesis
  proof cases
    case ld
    then obtain k a where l: "load ?i k f = Inr (a, g)"
      using run form(1) by (auto simp: is_load_def plain_Inr)
    then have "0 \<le> Local ?i" by (auto simp: load_def bind_act_Inr dest: loadLocal_Inr)
    then have "effectiveLocal ins = Local ?i" using ld by (intro solver_local) (simp_all add: access_flags)
    from load_ok [OF og okf l this w av] show ?thesis
      using ld by (simp add: origin_switch_def Let_def access_flags)
  next
    case st
    then obtain k a where l: "store ?i k f = Inr (a, g)"
      using run form(2) by (auto simp: is_store_def plain_Inr)
    then have "0 \<le> Local ?i" by (auto simp: store_def bind_act_Inr dest: storeLocal_Inr)
    then have "effectiveLocal ins = Local ?i" using st by (intro solver_local) (simp_all add: access_flags)
    from store_ok [OF og okf l this w av] show ?thesis
      using st by (simp add: origin_switch_def Let_def access_flags)
  next
    case inc
    then obtain a where l: "doIinc ?i f = Inr (a, g)" using run form(3) by (auto simp: plain_Inr)
    then have "0 \<le> Local ?i" by (auto simp: doIinc_def bind_act_Inr dest: loadLocal_Inr)
    then have "effectiveLocal ins = Local ?i" using inc by (intro solver_local) (simp_all add: access_flags)
    from iinc_ok [OF og okf l this w av] show ?thesis
      using inc by (simp add: origin_switch_def Let_def)
  next
    case move
    then obtain a where "dupFamily ?op f = Inr (a, g)" using run form(5) by (auto simp: plain_Inr)
    from dup_ok [OF og okf this w av] show ?thesis
      using move by (simp add: origin_switch_def Let_def access_flags)
  next
    case throw
    then obtain a where "do_athrow f = Inr (a, g)" using run form(4) by (auto simp: plain_Inr)
    from athrow_ok [OF og okf this w av] show ?thesis
      using throw by (simp add: origin_switch_def Let_def access_flags)
  next
    case rt
    then show ?thesis using tc transfer_case_None [of fl ?op ?i] by simp
  next
    case other
    then have other: "\<not> Read (LocalAccessOf ?op)" "\<not> Write (LocalAccessOf ?op)"
      "?op < OP_POP \<or> OP_SWAP < ?op" "?op \<noteq> OP_ATHROW" by (auto simp: access_flags)
    obtain p psh where e: "effect p (if psh then 1 else 0) act" "originEffect ins = Inr (p, psh)"
      using default_effect [OF tc run dims other] by blast
    show ?thesis
      using default_ok [OF og okf, of act s g p psh ins stk] default_switch [OF refl other] run e w av
      by simp
  qed
qed

section \<open>Properties of the origin transfer\<close>

text \<open>C11: on origins that fit its frame, the origin transfer never fails where the frame transfer
  succeeds, and what it answers fits the new frame: a slot has no origin exactly when it is dead,
  and both halves of a long or double have the same one. The one exception is a
  \<open>multianewarray\<close> without dimensions, which the frame transfer counts as one.\<close>

theorem transferOrigins_follows:
  assumes "Transfer fl f (solver_instr ins) = Inr (g, ex)" and "origins_ok f og"
    and "I_Opcode ins = OP_MULTIANEWARRAY \<Longrightarrow> 0 < Dims (FromIR ins)"
  shows "\<exists>og' used defs. transferOrigins og f g ins = Inr (og', used, defs) \<and> origins_ok g og'"
proof -
  have v: "Validate f = Inr ()"
    using assms(1) by (cases "Validate f") (auto simp: Transfer_def)
  then have okf: "frame_ok f" by (simp add: frame_ok_def)
  obtain act s where act: "transfer_case fl (I_Opcode ins) (solver_instr ins) = Some act"
    and run: "act f = Inr (s, g)"
    using assms(1) by (auto simp: Transfer_def v Let_def split: if_splits option.splits sum.splits)
  have "frame_ok g" using keepsD [OF keeps_transfer_case [OF act] okf run] by simp
  then show ?thesis
    using transferOrigins_finish [OF assms(2) okf] switch_of_transfer [OF assms(2) okf act run assms(3)]
    by blast
qed

definition div_ir :: ir_instr where
  "div_ir = \<lparr>I_ID = 7, I_PC = 7, I_Opcode = OP_IDIV, I_Name = ''idiv'', I_Wide = False, I_Data = [],
     I_Local = -1, I_IincConst = 0, I_CPIndex = 0, I_Class = [], I_Member = [], I_Desc = [],
     I_Const = F_Const div_ins, I_Cases = [], I_DefaultPC = 0, I_MayThrow = True, I_Result = 0\<rparr>"

definition two_int_origins :: "Origin list" where
  "two_int_origins = [param_origin 0, instr_origin 2 0, instr_origin 4 0]"

lemma solver_div: "solver_instr div_ir = div_ins"
  by code_simp

theorem transferOrigins_follows_witness:
  "\<exists>og' used defs. transferOrigins two_int_origins two_ints (two_ints\<lparr>Stack := [T IntK]\<rparr>) div_ir =
     Inr (og', used, defs) \<and> origins_ok (two_ints\<lparr>Stack := [T IntK]\<rparr>) og'"
proof (rule transferOrigins_follows)
  show "Transfer no_floats two_ints (solver_instr div_ir) =
      Inr (two_ints\<lparr>Stack := [T IntK]\<rparr>, Some (two_ints\<lparr>Stack := [RefOf ''java/lang/Throwable'']\<rparr>))"
    unfolding solver_div by (rule run_div)
  show "origins_ok two_ints two_int_origins" by code_simp
qed (simp add: div_ir_def)

lemma decode_length: "length ts \<noteq> length xs \<Longrightarrow> \<exists>e. decodeOrigins ts xs = Inl e"
  by (cases ts; cases xs) auto

text \<open>Reading the stack origins and writing them back is the identity: no origin is lost or
  moved, a wide value has both of its slots.\<close>

theorem origins_roundtrip:
  assumes "decodeOrigins ts xs = Inr vs"
  shows "encode_origins vs = xs \<and> sum_list (map ov_width vs) = length ts"
proof -
  have e: "encode_origins vs = xs" using decode_encode [OF assms] .
  have "length ts = length xs" using decode_length [of ts xs] assms by fastforce
  moreover have "length (encode_origins vs) = sum_list (map ov_width vs)"
    by (induction vs) (auto simp: encode_origins_def)
  ultimately show ?thesis using e by simp
qed

theorem origins_roundtrip_witness:
  "\<exists>vs. decodeOrigins [T LongK, T LongTailK, T IntK] [param_origin 1, param_origin 1, instr_origin 2 0] = Inr vs \<and>
     encode_origins vs = [param_origin 1, param_origin 1, instr_origin 2 0]"
proof -
  have "decodeOrigins [T LongK, T LongTailK, T IntK] [param_origin 1, param_origin 1, instr_origin 2 0] =
      Inr [\<lparr>ov_origin = param_origin 1, ov_width = 2\<rparr>, \<lparr>ov_origin = instr_origin 2 0, ov_width = 1\<rparr>]"
    by code_simp
  with origins_roundtrip [OF this] show ?thesis by blast
qed



end
