(* ===== verification/SsaEntry.thy ===== *)
theory SsaEntry
  imports OriginStep
begin

text \<open>
  Where the solver's frames and origins start: the entry frame of a method holds its receiver and
  its parameters, their origins are parameters, and normalising the origins of a joined frame makes
  them fit it.
\<close>

section \<open>Origins that fit by construction\<close>

lemma params_match:
  "wf_slots lcl ts \<Longrightarrow> origins_match ts (params_from n prev ts)"
proof (induction "length ts" arbitrary: ts n prev rule: less_induct)
  case less
  show ?case
  proof (cases ts)
    case (Cons t us)
    consider (one) "\<not> IsTail (Kind t)" "\<not> IsCat2Head (Kind t)" "wf_slots lcl us"
      | (two) u ws where "IsCat2Head (Kind t)" "us = u # ws" "TypeEqual u (TailOf t)" "wf_slots lcl ws"
      using less.prems [unfolded Cons wf_slots_Cons [of lcl t us]] by (auto simp: Computational_iff IsTail_def)
    then show ?thesis
    proof cases
      case one
      then show ?thesis using less.hyps [of us] Cons
        by (auto simp: Let_def param_origin_def split: option.split)
    next
      case two
      have t: "\<not> IsTail (Kind t)" "Kind t \<noteq> TopK" using two(1) by (auto simp: IsTail_def IsCat2Head_def)
      have u: "IsTail (Kind u)" "\<not> IsCat2Head (Kind u)" "Kind u \<noteq> TopK"
        using tail_of_head [OF two(1,3)] by (auto simp: IsTail_def IsCat2Head_def)
      have "origins_match ws (params_from (Suc (Suc n)) (Some (param_origin n)) ws)"
        using less.hyps [of ws] Cons two by simp
      then show ?thesis using t u two Cons
        by (auto simp: Let_def param_origin_def split: option.split)
    qed
  qed simp
qed

lemma params_append:
  "\<exists>prev'. params_from n prev (xs @ ys) = params_from n prev xs @ params_from (n + length xs) prev' ys"
proof (induction xs arbitrary: n prev)
  case Nil
  then show ?case by auto
next
  case (Cons x xs)
  then show ?case by (simp add: Let_def) (metis add_Suc)
qed

lemma length_params [simp]: "length (params_from n prev ts) = length ts"
  by (induction ts arbitrary: n prev) (simp_all add: Let_def)

lemma length_normalize [simp]: "length (normalize_part n prev ts xs) = length xs"
  by (induction n prev ts xs rule: normalize_part.induct) (simp_all add: Let_def)

lemma normalize_match:
  "wf_slots lcl ts \<Longrightarrow> length xs = length ts \<Longrightarrow>
   (\<And>i. i < length ts \<Longrightarrow> Kind (ts ! i) \<noteq> TopK \<Longrightarrow> O_Kind (xs ! i) \<noteq> OriginTop) \<Longrightarrow>
   origins_match ts (normalize_part n prev ts xs)"
proof (induction "length ts" arbitrary: ts xs n prev rule: less_induct)
  case less
  show ?case
  proof (cases ts)
    case Nil
    then show ?thesis using less.prems(2) by simp
  next
    case (Cons t us)
    then obtain x ys where xs: "xs = x # ys" "length ys = length us" using less.prems(2) by (cases xs) auto
    have tops: "Kind t \<noteq> TopK \<Longrightarrow> O_Kind x \<noteq> OriginTop"
      "\<And>i. i < length us \<Longrightarrow> Kind (us ! i) \<noteq> TopK \<Longrightarrow> O_Kind (ys ! i) \<noteq> OriginTop"
      using less.prems(3) [of 0] less.prems(3) [of "Suc i" for i] by (auto simp: Cons xs)
    consider (one) "\<not> IsTail (Kind t)" "\<not> IsCat2Head (Kind t)" "wf_slots lcl us"
      | (two) u ws where "IsCat2Head (Kind t)" "us = u # ws" "TypeEqual u (TailOf t)" "wf_slots lcl ws"
      using less.prems(1) [unfolded Cons wf_slots_Cons [of lcl t us]] by (auto simp: Computational_iff IsTail_def)
    then show ?thesis
    proof cases
      case one
      then have "origins_match us (normalize_part (n + 1) p us ys)" for p
        using less.hyps [of us ys] Cons xs tops by auto
      then show ?thesis using one tops Cons xs by (auto simp: Let_def split: option.split)
    next
      case two
      have t: "\<not> IsTail (Kind t)" "Kind t \<noteq> TopK" using two(1) by (auto simp: IsTail_def IsCat2Head_def)
      have u: "IsTail (Kind u)" "\<not> IsCat2Head (Kind u)" "Kind u \<noteq> TopK"
        using tail_of_head [OF two(1,3)] by (auto simp: IsTail_def IsCat2Head_def)
      obtain y zs where ys: "ys = y # zs" "length zs = length ws" using xs(2) two(2) by (cases ys) auto
      have "O_Kind (zs ! i) \<noteq> OriginTop" if "i < length ws" "Kind (ws ! i) \<noteq> TopK" for i
        using tops(2) [of "Suc i"] that by (simp add: two(2) ys(1))
      then have "origins_match ws (normalize_part (Suc (Suc n)) p ws zs)" for p
        using less.hyps [of ws zs] Cons two ys(2) by auto
      then show ?thesis using t u two Cons tops xs ys by (auto simp: Let_def split: option.split)
    qed
  qed
qed

section \<open>The entry frame\<close>

text \<open>The slots of a value, and of the receiver and the parameters of a method.\<close>

definition value_slots :: "ftype \<Rightarrow> ftype list" where
  "value_slots t = (if IsCat2Head (Kind t) then [t, TailOf t] else [t])"

definition receiver :: "MethodIR \<Rightarrow> ftype list" where
  "receiver ir = (if M_IsStatic ir then [] else
     [if M_Name ir = ''<init>'' then T UninitThisK else RefOf (M_ClassName ir)])"

definition entry_values :: "MethodIR \<Rightarrow> ftype list \<Rightarrow> ftype list" where
  "entry_values ir args = concat (map value_slots (receiver ir @ args))"

lemma write_fresh:
  assumes wf: "wf_slots True (Locals f)" and i: "0 \<le> idx" and t: "Computational t"
    and room: "idx + (if IsCat2Head (Kind t) then 2 else 1) \<le> slen (Locals f)"
    and own: "single (Locals f ! nat idx)" and nxt: "IsCat2Head (Kind t) \<Longrightarrow> single (Locals f ! (nat idx + 1))"
  shows "Locals (write_local idx t f) =
    (if IsCat2Head (Kind t) then (Locals f)[nat idx := t, nat idx + 1 := TailOf t] else (Locals f)[nat idx := t])"
proof -
  let ?i = "nat idx" and ?ls = "Locals f"
  have inv: "invalidatePairAt j ?ls = ?ls" if "0 \<le> j" "nat j < length ?ls" "single (?ls ! nat j)" for j
    using that kill_before_id [OF wf that(2,3)] kill_own_eq [OF wf that(2)]
    by (auto simp: invalidatePairAt_def slen_def single_def)
  have len: "?i < length ?ls" "IsCat2Head (Kind t) \<Longrightarrow> ?i + 1 < length ?ls"
    using i room by (auto simp: slen_def split: if_splits)
  have own': "invalidatePairAt idx ?ls = ?ls" by (rule inv [OF i len(1) own])
  have j: "nat (idx + 1) = ?i + 1" using i by simp
  have nxt': "invalidatePairAt (idx + 1) ?ls = ?ls" if "IsCat2Head (Kind t)"
    using inv [of "idx + 1"] i len(2) nxt that j by simp
  have "\<not> IsTail (Kind (?ls ! (?i + 1)))" if "?i + 1 < length ?ls"
    using pair_okD(2) [OF wf that] own by (auto simp: single_def)
  then have tail: "\<not> (idx + 1 < slen ?ls \<and> IsTail (Kind (?ls ! (?i + 1))))"
    using i by (auto simp: slen_def)
  show ?thesis
    using own' nxt' tail len i j by (auto simp: write_local_def Let_def slen_def)
qed

lemma store_at_end:
  assumes ok: "frame_ok f" and ls: "Locals f = pre @ replicate m (T TopK)"
    and st: "storeLocal (slen pre) t f = Inr (a, g)"
  shows "frame_ok g \<and> shape g = shape f \<and> Stack g = Stack f \<and>
    Locals g = (pre @ value_slots t) @ replicate (m - length (value_slots t)) (T TopK)"
proof -
  note S = storeLocal_Inr [OF st]
  have g: "frame_ok g \<and> shape g = shape f" using keepsD [OF keeps_storeLocal ok st] .
  have s: "nat (slen pre) = length pre" by (simp add: slen_def)
  have wf: "wf_slots True (Locals f)" using ok by (simp add: frame_ok_iff)
  have room: "length (value_slots t) \<le> m"
    using S by (auto simp: ls slen_def value_slots_def split: if_splits)
  obtain k where m: "m = length (value_slots t) + k" using room le_Suc_ex by blast
  have "Locals g = (if IsCat2Head (Kind t) then (Locals f)[length pre := t, length pre + 1 := TailOf t]
      else (Locals f)[length pre := t])"
    using S write_fresh [OF wf, of "slen pre" t] room
    by (auto simp: s ls value_slots_def nth_append split: if_splits)
  then show ?thesis
    using g storeLocal_rest [OF st] m
    by (cases "IsCat2Head (Kind t)") (simp_all add: ls value_slots_def list_update_append replicate_add numeral_2_eq_2)
qed

lemma value_slots_width: "Computational t \<Longrightarrow> length (value_slots t) = TypeWidth t"
  by (simp add: value_slots_def value_width)

lemma store_params_layout:
  "frame_ok f \<Longrightarrow> Locals f = pre @ replicate m (T TopK) \<Longrightarrow> store_params (slen pre) args f = Inr (a, g) \<Longrightarrow>
   frame_ok g \<and> shape g = shape f \<and> Stack g = Stack f \<and>
   (\<exists>k. Locals g = (pre @ concat (map value_slots args)) @ replicate k (T TopK))"
proof (induction args arbitrary: f pre m)
  case Nil
  then show ?case by (auto simp: act_simps)
next
  case (Cons t args)
  obtain b f1 where st: "storeLocal (slen pre) t f = Inr (b, f1)"
    and rest: "store_params (slen pre + int (TypeWidth t)) args f1 = Inr (a, g)"
    using Cons.prems(3) by (auto simp: then_act_Inr StoreLocal_def)
  note one = store_at_end [OF Cons.prems(1,2) st]
  have "slen pre + int (TypeWidth t) = slen (pre @ value_slots t)"
    using storeLocal_Inr [OF st] by (simp add: slen_def value_slots_width)
  with rest have "store_params (slen (pre @ value_slots t)) args f1 = Inr (a, g)" by simp
  from Cons.IH [OF _ _ this] one show ?case by auto
qed

lemma frame_err_Inr: "frame_err r = Inr a \<longleftrightarrow> r = Inr a"
  by (cases r) (auto simp: frame_err_def)

lemma map_sum_Inr: "map_sum g h r = Inr a \<longleftrightarrow> (\<exists>b. r = Inr b \<and> a = h b)"
  by (cases r) auto

lemma new_frame_ok: "slen (Locals (NewFrame n)) \<le> maxSlots \<Longrightarrow> frame_ok (NewFrame n)"
proof -
  have "wf_slots True (replicate k (T TopK))" for k
    by (induction k) (simp_all add: wf_slots_Cons [of True "T TopK"])
  then show "slen (Locals (NewFrame n)) \<le> maxSlots \<Longrightarrow> frame_ok (NewFrame n)"
    by (simp add: frame_ok_iff NewFrame_def Let_def stackLimit_def slen_def maxSlots_def)
qed

lemma entry_context_ok:
  "frame_ok (entry_context ir f) = frame_ok f" "Locals (entry_context ir f) = Locals f"
  "Stack (entry_context ir f) = Stack f" "stackLimit (entry_context ir f) = stackLimit f"
  "ThisClass (entry_context ir f) = M_ClassName ir"
  "DirectSuperClass (entry_context ir f) = L_DirectSuperClass (M_Limits ir)"
  by (simp_all add: entry_context_def frame_ok_iff stackLimit_def)

text \<open>The frame before any parameter is stored.\<close>

lemma empty_frame:
  assumes "(if Present (M_Limits ir) then
      (if mx > MaxLocals (M_Limits ir)
       then Inl ''invalid_input: local access/parameters exceed declared max_locals''
       else frame_err (NewFrameWithLimits (MaxLocals (M_Limits ir)) (MaxStack (M_Limits ir))))
    else Inr (NewFrame mx)) = Inr f" and "mx \<le> 65535"
  shows "frame_ok f \<and> Stack f = [] \<and> (\<exists>m. Locals f = replicate m (T TopK)) \<and>
    (Present (M_Limits ir) \<longrightarrow> slen (Locals f) = MaxLocals (M_Limits ir) \<and> stackLimit f = MaxStack (M_Limits ir))"
proof (cases "Present (M_Limits ir)")
  case False
  then have "f = NewFrame mx" using assms(1) by simp
  moreover have "slen (Locals (NewFrame mx)) \<le> maxSlots"
    using assms(2) by (simp add: NewFrame_def Let_def slen_def maxSlots_def)
  ultimately show ?thesis using new_frame_ok False by (auto simp: NewFrame_def Let_def)
next
  case True
  let ?l = "MaxLocals (M_Limits ir)" and ?s = "MaxStack (M_Limits ir)"
  have f: "f = (NewFrame ?l)\<lparr>maxStack := ?s, hasLimits := True\<rparr>" and b: "0 \<le> ?l" "?l \<le> maxSlots" "0 \<le> ?s"
    using assms(1) True by (auto simp: frame_err_Inr NewFrameWithLimits_def split: if_splits)
  have "frame_ok (NewFrame ?l)"
    using b by (intro new_frame_ok) (simp add: NewFrame_def Let_def slen_def)
  then have "frame_ok f" using b by (simp add: f frame_ok_iff stackLimit_def NewFrame_def Let_def slen_def)
  then show ?thesis using b by (auto simp: f NewFrame_def Let_def slen_def stackLimit_def)
qed

lemma entry_frame:
  assumes "initialFrame ir = Inr f"
  shows "\<exists>args r k. ParseDescriptor (M_Descriptor ir) = Inr (args, r) \<and> frame_ok f \<and> Stack f = [] \<and>
    ThisClass f = M_ClassName ir \<and> DirectSuperClass f = L_DirectSuperClass (M_Limits ir) \<and>
    Locals f = entry_values ir args @ replicate k (T TopK) \<and>
    (Present (M_Limits ir) \<longrightarrow> slen (Locals f) = MaxLocals (M_Limits ir) \<and> stackLimit f = MaxStack (M_Limits ir))"
proof -
  obtain args r mx f0 u where d: "ParseDescriptor (M_Descriptor ir) = Inr (args, r)" and mx: "mx \<le> 65535"
    and f0: "(if Present (M_Limits ir) then
      (if mx > MaxLocals (M_Limits ir)
       then Inl ''invalid_input: local access/parameters exceed declared max_locals''
       else frame_err (NewFrameWithLimits (MaxLocals (M_Limits ir)) (MaxStack (M_Limits ir))))
    else Inr (NewFrame mx)) = Inr f0"
    and run: "(if \<not> M_IsStatic ir
       then then_act (StoreLocal 0 (if M_Name ir = ''<init>'' then T UninitThisK else RefOf (M_ClassName ir)))
              (store_params 1 args)
       else store_params 0 args) (entry_context ir f0) = Inr (u, f)"
    using assms unfolding initialFrame_def Let_def
    by (auto simp: frame_err_Inr not_less map_sum_Inr split: if_split_asm)
  let ?f = "entry_context ir f0"
  note z = empty_frame [OF f0 mx]
  then obtain m where m: "Locals ?f = [] @ replicate m (T TopK)" by (auto simp: entry_context_ok)
  have ok: "frame_ok ?f" "Stack ?f = []" using z by (simp_all add: entry_context_ok)
  have "frame_ok f \<and> shape f = shape ?f \<and> Stack f = Stack ?f \<and>
    (\<exists>k. Locals f = entry_values ir args @ replicate k (T TopK))"
  proof (cases "M_IsStatic ir")
    case True
    then show ?thesis
      using store_params_layout [OF ok(1) m, of args u f] run
      by (simp add: slen_def entry_values_def receiver_def)
  next
    case False
    let ?t = "if M_Name ir = ''<init>'' then T UninitThisK else RefOf (M_ClassName ir)"
    obtain b f1 where st: "storeLocal (slen ([] :: ftype list)) ?t ?f = Inr (b, f1)" and rest: "store_params 1 args f1 = Inr (u, f)"
      using run False by (auto simp: then_act_Inr StoreLocal_def slen_def split del: if_split)
    have one: "value_slots ?t = [?t]"
      by (simp add: value_slots_def IsCat2Head_def T_def RefOf_def)
    note s = store_at_end [OF ok(1) m st]
    then have "Locals f1 = [?t] @ replicate (m - 1) (T TopK)" "frame_ok f1" using one by simp_all
    from store_params_layout [OF this(2,1), of args u f] rest s False one show ?thesis
      by (simp add: slen_def entry_values_def receiver_def)
  qed
  then show ?thesis
    using d z ok shape_stackLimit [of f ?f]
    by (auto simp: entry_context_ok shape_def slen_def)
qed

section \<open>Properties of the entry state\<close>

text \<open>C20: the entry frame of a method is valid, its stack is empty, and its locals are the receiver
  (uninitialised in a constructor) and the parameters of the descriptor in order, two slots for a
  long or double, followed by dead slots only; declared limits are the frame's.\<close>

theorem initialFrame_layout:
  assumes "initialFrame ir = Inr f"
  shows "\<exists>args r k. ParseDescriptor (M_Descriptor ir) = Inr (args, r) \<and> frame_ok f \<and> Stack f = [] \<and>
    ThisClass f = M_ClassName ir \<and> DirectSuperClass f = L_DirectSuperClass (M_Limits ir) \<and>
    Locals f = entry_values ir args @ replicate k (T TopK) \<and>
    (Present (M_Limits ir) \<longrightarrow> slen (Locals f) = MaxLocals (M_Limits ir) \<and> stackLimit f = MaxStack (M_Limits ir))"
  by (rule entry_frame [OF assms])

definition demo_ir :: MethodIR where
  "demo_ir = \<lparr>M_Limits = \<lparr>Present = True, MaxLocals = 5, MaxStack = 2, L_DirectSuperClass = ''java/lang/Object''\<rparr>,
     M_ClassName = ''A'', M_Name = ''<init>'', M_Descriptor = ''(JI)V'', M_IsStatic = False, M_Blocks = [],
     M_Instrs = [], M_Edges = [], M_Handlers = [], M_EntryPC = 0, instrIndex = None\<rparr>"

definition demo_entry :: frame where
  "demo_entry = \<lparr>Locals = [T UninitThisK, T LongK, T LongTailK, T IntK, T TopK], Stack = [], maxStack = 2,
     hasLimits = True, ThisUninitialized = True, ThisClass = ''A'', DirectSuperClass = ''java/lang/Object''\<rparr>"

lemma run_demo_entry: "initialFrame demo_ir = Inr demo_entry"
  by code_simp

theorem initialFrame_layout_witness:
  "initialFrame demo_ir = Inr demo_entry \<and> frame_ok demo_entry \<and> slen (Locals demo_entry) = 5"
  using initialFrame_layout [OF run_demo_entry] run_demo_entry by (auto simp: demo_ir_def)

lemma fitting_origins:
  assumes "frame_ok f"
  shows "origins_ok f (paramOrigins f)" and
    "length og = length (frame_slots f) \<Longrightarrow>
     (\<And>i. i < length og \<Longrightarrow> Kind (frame_slots f ! i) \<noteq> TopK \<Longrightarrow> O_Kind (og ! i) \<noteq> OriginTop) \<Longrightarrow>
     origins_ok f (normalizeOrigins f og)"
proof -
  have wf: "wf_slots True (Locals f)" "wf_slots False (Stack f)" using assms by (simp_all add: frame_ok_iff)
  obtain p where p: "paramOrigins f =
      params_from 0 None (Locals f) @ params_from (length (Locals f)) p (Stack f)"
    using params_append [of 0 None "Locals f" "Stack f"] by (auto simp: paramOrigins_def frame_slots_def)
  show "origins_ok f (paramOrigins f)"
    unfolding origins_ok_def p using params_match [OF wf(1)] params_match [OF wf(2)] by simp
  assume len: "length og = length (frame_slots f)"
    and live: "\<And>i. i < length og \<Longrightarrow> Kind (frame_slots f ! i) \<noteq> TopK \<Longrightarrow> O_Kind (og ! i) \<noteq> OriginTop"
  have "O_Kind (take (length (Locals f)) og ! i) \<noteq> OriginTop"
    if "i < length (Locals f)" "Kind (Locals f ! i) \<noteq> TopK" for i
    using live [of i] that len by (simp add: frame_slots_def nth_append)
  moreover have "O_Kind (drop (length (Locals f)) og ! i) \<noteq> OriginTop"
    if "i < length (Stack f)" "Kind (Stack f ! i) \<noteq> TopK" for i
    using live [of "length (Locals f) + i"] that len by (simp add: frame_slots_def)
  ultimately show "origins_ok f (normalizeOrigins f og)"
    using normalize_match [OF wf(1)] normalize_match [OF wf(2)] len
    by (simp add: origins_ok_def normalizeOrigins_def Let_def frame_slots_def)
qed

text \<open>The solver starts and continues with origins that fit: the parameter origins fit any valid
  frame, and normalising makes origins fit the frame of a join whenever every live slot has one.\<close>

theorem start_origins_fit:
  assumes "frame_ok f"
  shows "origins_ok f (paramOrigins f) \<and>
    (\<forall>og. length og = length (frame_slots f) \<longrightarrow>
       (\<forall>i<length og. Kind (frame_slots f ! i) \<noteq> TopK \<longrightarrow> O_Kind (og ! i) \<noteq> OriginTop) \<longrightarrow>
       origins_ok f (normalizeOrigins f og))"
  using fitting_origins [OF assms] by blast

theorem start_origins_fit_witness:
  "origins_ok demo_entry (paramOrigins demo_entry) \<and>
   origins_ok demo_entry (normalizeOrigins demo_entry (replicate 5 (instr_origin 3 0)))"
proof -
  have ok: "frame_ok demo_entry" by code_simp
  show ?thesis
    using start_origins_fit [OF ok] by (simp add: frame_slots_def demo_entry_def instr_origin_def)
qed

end
