(* ===== verification/StackMap.thy ===== *)
theory StackMap
  imports FrameTransfer
begin

text \<open>
  \<open>core/frametransfer/smt.go\<close>: the StackMapTable attribute, read into frames, compared with the
  computed ones, and written. The bytes that are left take the place of the index \<open>p\<close>; the class
  resolver is an argument, \<open>None\<close> when nil.
\<close>

type_synonym resolver = "(u16 \<Rightarrow> string) option"

record SMTFrame =
  Offset :: u16
  SM_Locals :: "ftype list"
  SM_Stack :: "ftype list"

section \<open>Reading\<close>

definition readU1 :: "u8 list \<Rightarrow> ferror + u8 \<times> u8 list" where
  "readU1 bs = (case bs of [] \<Rightarrow> Inl (smtf ''truncated'') | b # r \<Rightarrow> Inr (b, r))"

definition u16_of :: "u8 \<Rightarrow> u8 \<Rightarrow> u16" where
  "u16_of hi lo = push_bit 8 (ucast hi) OR ucast lo"

definition readU2 :: "u8 list \<Rightarrow> ferror + u16 \<times> u8 list" where
  "readU2 bs = (case bs of hi # lo # r \<Rightarrow> Inr (u16_of hi lo, r) | _ \<Rightarrow> Inl (smtf ''truncated''))"

definition class_name :: "resolver \<Rightarrow> u16 \<Rightarrow> string" where
  "class_name resolve idx =
     (let name = ''java/lang/Object'' in
      case resolve of
        None \<Rightarrow> name
      | Some g \<Rightarrow> if g idx \<noteq> [] then g idx else name)"

definition readType :: "resolver \<Rightarrow> u8 list \<Rightarrow> ferror + ftype \<times> u8 list" where
  "readType resolve bs =
     res_bind (readU1 bs) (\<lambda>(tag, bs).
       if tag = 0 then Inr (T TopK, bs)
       else if tag = 1 then Inr (T IntK, bs)
       else if tag = 2 then Inr (T FloatK, bs)
       else if tag = 3 then Inr (T DoubleK, bs)
       else if tag = 4 then Inr (T LongK, bs)
       else if tag = 5 then Inr (T NullK, bs)
       else if tag = 6 then Inr (T UninitThisK, bs)
       else if tag = 7 then
         res_bind (readU2 bs) (\<lambda>(idx, bs). Inr (RefOf (class_name resolve idx), bs))
       else if tag = 8 then res_bind (readU2 bs) (\<lambda>(pc, bs). Inr (UninitAt pc, bs))
       else Inl (smtf ''unknown verification type %d''))"

fun readTypes :: "resolver \<Rightarrow> nat \<Rightarrow> u8 list \<Rightarrow> ferror + ftype list \<times> u8 list" where
  "readTypes resolve 0 bs = Inr ([], bs)"
| "readTypes resolve (Suc n) bs =
     res_bind (readType resolve bs) (\<lambda>(t, bs).
       res_bind (readTypes resolve n bs) (\<lambda>(ts, bs). Inr (t # ts, bs)))"

definition expand :: "ftype list \<Rightarrow> ftype list" where
  "expand types = concat (map (\<lambda>t. if IsCat2Head (Kind t) then [t, TailOf t] else [t]) types)"

fun chop_locals :: "nat \<Rightarrow> ftype list \<Rightarrow> ftype list" where
  "chop_locals 0 loc = loc"
| "chop_locals (Suc c) loc =
     (if loc = [] then loc
      else if IsTail (Kind (last loc)) \<and> length loc \<ge> 2
      then chop_locals c (take (length loc - 2) loc)
      else chop_locals c (take (length loc - 1) loc))"

text \<open>One frame: its offset delta, its locals and its stack.\<close>

definition read_frame ::
    "resolver \<Rightarrow> ftype list \<Rightarrow> u8 list \<Rightarrow> ferror + (int \<times> ftype list \<times> ftype list) \<times> u8 list" where
  "read_frame resolve prev bs =
     res_bind (readU1 bs) (\<lambda>(ft, bs).
       if ft \<le> 63 then Inr ((uint ft, prev, []), bs)
       else if ft \<le> 127 then
         res_bind (readType resolve bs) (\<lambda>(t, bs). Inr ((uint (ft - 64), prev, expand [t]), bs))
       else if ft = 247 then
         res_bind (readU2 bs) (\<lambda>(d, bs).
           res_bind (readType resolve bs) (\<lambda>(t, bs). Inr ((uint d, prev, expand [t]), bs)))
       else if ft \<ge> 248 \<and> ft \<le> 250 then
         res_bind (readU2 bs) (\<lambda>(d, bs). Inr ((uint d, chop_locals (unat (251 - ft)) prev, []), bs))
       else if ft = 251 then res_bind (readU2 bs) (\<lambda>(d, bs). Inr ((uint d, prev, []), bs))
       else if ft \<ge> 252 \<and> ft \<le> 254 then
         res_bind (readU2 bs) (\<lambda>(d, bs).
           res_bind (readTypes resolve (unat (ft - 251)) bs) (\<lambda>(extra, bs).
             Inr ((uint d, prev @ expand extra, []), bs)))
       else if ft = 255 then
         res_bind (readU2 bs) (\<lambda>(d, bs).
           res_bind (readU2 bs) (\<lambda>(nl, bs).
             res_bind (readTypes resolve (unat nl) bs) (\<lambda>(loc, bs).
               res_bind (readU2 bs) (\<lambda>(ns, bs).
                 res_bind (readTypes resolve (unat ns) bs) (\<lambda>(st, bs).
                   Inr ((uint d, expand loc, expand st), bs))))))
       else Inl (smtf ''reserved frame type %d''))"

text \<open>The loop: how many frames are left, the offset so far (\<open>None\<close> before the first), the locals of
  the frame before.\<close>

fun frames_loop ::
    "resolver \<Rightarrow> nat \<Rightarrow> int option \<Rightarrow> ftype list \<Rightarrow> u8 list \<Rightarrow> ferror + SMTFrame list" where
  "frames_loop resolve 0 offset prev bs = Inr []"
| "frames_loop resolve (Suc n) offset prev bs =
     res_bind (read_frame resolve prev bs) (\<lambda>((delta, loc, st), bs).
       let offset = (case offset of None \<Rightarrow> delta | Some off \<Rightarrow> off + delta + 1) in
       if offset < 0 \<or> offset > 65535 then Inl (smtf ''bad frame offset'')
       else
         res_bind (frames_loop resolve n (Some offset) loc bs) (\<lambda>fs.
           Inr (\<lparr>Offset = word_of_int offset, SM_Locals = loc, SM_Stack = st\<rparr> # fs)))"

definition ParseStackMapTable :: "u8 list \<Rightarrow> resolver \<Rightarrow> ferror + SMTFrame list" where
  "ParseStackMapTable info resolve =
     (case info of
        hi # lo # bs \<Rightarrow> frames_loop resolve (unat (u16_of hi lo)) None [] bs
      | _ \<Rightarrow> Inl (smtf ''truncated StackMapTable''))"

section \<open>Comparing\<close>

definition smtTypeOK :: "ftype \<Rightarrow> ftype \<Rightarrow> bool" where
  "smtTypeOK smt got =
     (if Kind smt = TopK then True
      else if Kind smt = Kind got then
        (if Kind smt = UninitNewK then NewPC smt = NewPC got else True)
      else if Kind smt = RefK \<and> (Kind got = RefK \<or> Kind got = NullK) then True
      else if Kind smt = NullK \<and> (Kind got = NullK \<or> Kind got = RefK) then True
      else False)"

definition framesCompatible :: "SMTFrame \<Rightarrow> frame \<Rightarrow> ferror + unit" where
  "framesCompatible smt got =
     (if length (SM_Stack smt) \<noteq> length (Stack got) then Inl (smtf ''stack height SMT %d transfer %d'')
      else if \<not> list_all2 smtTypeOK (SM_Stack smt) (Stack got) then Inl (smtf ''stack[%d] SMT %s transfer %s'')
      else if length (Locals got) < length (SM_Locals smt) then Inl (smtf ''locals shorter in transfer'')
      else if \<not> list_all2 smtTypeOK (SM_Locals smt) (take (length (SM_Locals smt)) (Locals got))
      then Inl (smtf ''local[%d] SMT %s transfer %s'')
      else Inr ())"

fun check_frames :: "(u16 \<rightharpoonup> frame) \<Rightarrow> SMTFrame list \<Rightarrow> ferror + unit" where
  "check_frames computed [] = Inr ()"
| "check_frames computed (sm # sms) =
     (case computed (Offset sm) of
        None \<Rightarrow> Inl (smtf ''no transfer frame at SMT offset %d'')
      | Some got \<Rightarrow> res_bind (framesCompatible sm got) (\<lambda>_. check_frames computed sms))"

definition CheckStackMapTable :: "u16 \<Rightarrow> u8 list \<Rightarrow> (u16 \<rightharpoonup> frame) \<Rightarrow> resolver \<Rightarrow> ferror + unit" where
  "CheckStackMapTable major smt computed resolve =
     (if smt = [] then Inr ()
      else res_bind (ParseStackMapTable smt resolve) (check_frames computed))"

section \<open>Writing\<close>

definition write_u2 :: "u16 \<Rightarrow> u8 list" where
  "write_u2 x = [ucast (drop_bit 8 x), ucast x]"

definition write_type :: "ftype \<Rightarrow> u8 list" where
  "write_type t =
     (if Kind t = TopK then [0]
      else if Kind t = IntK then [1]
      else if Kind t = FloatK then [2]
      else if Kind t = LongK then [4]
      else if Kind t = DoubleK then [3]
      else if Kind t = NullK then [5]
      else if Kind t = UninitThisK then [6]
      else if Kind t = UninitNewK then 8 # write_u2 (NewPC t)
      else if Kind t = RefK then 7 # write_u2 1
      else [0])"

definition compact :: "ftype list \<Rightarrow> ftype list" where
  "compact ts = filter (\<lambda>t. \<not> IsTail (Kind t)) ts"

definition EncodeFullFrame :: "u16 \<Rightarrow> ftype list \<Rightarrow> ftype list \<Rightarrow> u8 list" where
  "EncodeFullFrame offsetDelta locals stack =
     (let cl = compact locals; cs = compact stack;
          body = [255] @ write_u2 offsetDelta @ write_u2 (word_of_nat (length cl)) @
            concat (map write_type cl) @ write_u2 (word_of_nat (length cs)) @ concat (map write_type cs)
      in write_u2 1 @ body)"

section \<open>What is written is what is read\<close>

lemma readU2_write [simp]: "readU2 (write_u2 x @ bs) = Inr (x, bs)"
proof -
  have "push_bit 8 (ucast (ucast (drop_bit 8 x) :: u8) :: u16) OR ucast (ucast x :: u8) = x"
    by (rule bit_word_eqI) (auto simp: bit_simps)
  then show ?thesis by (simp add: readU2_def write_u2_def u16_of_def)
qed

lemma u16_of_write: "u16_of (ucast (drop_bit 8 x)) (ucast x) = x"
  using readU2_write [of x "[]"] by (simp add: readU2_def write_u2_def)

text \<open>What a type is read back as: constants and class names are not written.\<close>

definition smt_view :: "resolver \<Rightarrow> ftype \<Rightarrow> ftype" where
  "smt_view resolve t =
     (if Kind t = RefK then RefOf (class_name resolve 1)
      else if Kind t = UninitNewK then UninitAt (NewPC t)
      else T (Kind t))"

lemma readType_write:
  "\<not> IsTail (Kind t) \<Longrightarrow> readType resolve (write_type t @ bs) = Inr (smt_view resolve t, bs)"
  by (cases "Kind t") (simp_all add: readType_def write_type_def readU1_def smt_view_def IsTail_def)

lemma readTypes_write:
  "list_all (\<lambda>t. \<not> IsTail (Kind t)) ts \<Longrightarrow>
   readTypes resolve (length ts) (concat (map write_type ts) @ bs) = Inr (map (smt_view resolve) ts, bs)"
  by (induction ts) (simp_all add: readType_write)

lemma compact_no_tails: "list_all (\<lambda>t. \<not> IsTail (Kind t)) (compact ts)"
  by (simp add: compact_def list_all_iff)

lemma full_frame_read:
  assumes "length (compact ls) < 65536" and "length (compact st) < 65536"
  shows "ParseStackMapTable (EncodeFullFrame d ls st) resolve =
    Inr [\<lparr>Offset = d, SM_Locals = expand (map (smt_view resolve) (compact ls)),
          SM_Stack = expand (map (smt_view resolve) (compact st))\<rparr>]"
proof -
  let ?cl = "compact ls" and ?cs = "compact st"
  have n: "unat (word_of_nat (length xs) :: u16) = length xs" if "length xs < 65536" for xs :: "ftype list"
    using that by (simp add: unsigned_of_nat take_bit_nat_eq_self_iff)
  let ?tail = "write_u2 (word_of_nat (length ?cs)) @ concat (map write_type ?cs) @ []"
  have rf: "read_frame resolve [] (255 # write_u2 d @ write_u2 (word_of_nat (length ?cl)) @
      concat (map write_type ?cl) @ ?tail) =
    Inr ((uint d, expand (map (smt_view resolve) ?cl), expand (map (smt_view resolve) ?cs)), [])"
    unfolding read_frame_def readU1_def
    by (simp add: n [OF assms(1)] n [OF assms(2)] readTypes_write [OF compact_no_tails] del: append_Nil2)
  have off: "0 \<le> uint d" "uint d \<le> 65535" using uint_bounded [of d] by simp_all
  have "EncodeFullFrame d ls st = write_u2 1 @ (255 # write_u2 d @ write_u2 (word_of_nat (length ?cl)) @
      concat (map write_type ?cl) @ ?tail)"
    by (simp add: EncodeFullFrame_def Let_def)
  moreover have "ParseStackMapTable (write_u2 1 @ bs) resolve = frames_loop resolve (Suc 0) None [] bs" for bs
    using u16_of_write [of 1] by (simp add: ParseStackMapTable_def write_u2_def del: frames_loop.simps)
  ultimately show ?thesis using rf off by simp
qed

text \<open>The slots that are read back are as many, and each matches the one that was written.\<close>

lemma view_matches:
  assumes "\<not> IsTail (Kind t)" shows "smtTypeOK (smt_view resolve t) t"
  using assms
  by (cases "Kind t") (simp_all add: smtTypeOK_def smt_view_def IsTail_def T_def RefOf_def UninitAt_def)

lemma view_head: "IsCat2Head (Kind (smt_view resolve t)) \<longleftrightarrow> IsCat2Head (Kind t)"
  by (cases "Kind t") (simp_all add: smt_view_def IsCat2Head_def)

lemma expand_matches:
  "wf_slots lcl ts \<Longrightarrow> list_all2 smtTypeOK (expand (map (smt_view resolve) (compact ts))) ts"
proof (induction "length ts" arbitrary: ts rule: less_induct)
  case less
  show ?case
  proof (cases ts)
    case Nil
    then show ?thesis by (simp add: compact_def expand_def)
  next
    case (Cons t us)
    consider (one) "\<not> IsTail (Kind t)" "\<not> IsCat2Head (Kind t)" "wf_slots lcl us"
      | (two) u ws where "IsCat2Head (Kind t)" "us = u # ws" "TypeEqual u (TailOf t)" "wf_slots lcl ws"
      using less.prems [unfolded Cons wf_slots_Cons [of lcl t us]] by (auto simp: Computational_iff IsTail_def)
    then show ?thesis
    proof cases
      case one
      then have "list_all2 smtTypeOK (expand (map (smt_view resolve) (compact us))) us"
        using less.hyps [of us] Cons by simp
      then show ?thesis using one view_matches [of t resolve]
        by (simp add: Cons compact_def expand_def view_head)
    next
      case two
      then have t: "\<not> IsTail (Kind t)" by (auto simp: IsTail_def IsCat2Head_def)
      have k: "Kind u = Kind (TailOf t)" "IsTail (Kind u)"
        using two(3) tail_of_head [OF two(1,3)] TypeEqual_Kind by auto
      have "Kind (TailOf (smt_view resolve t)) = Kind u"
        using two(1) unfolding k(1) by (auto simp: smt_view_def TailOf_def IsCat2Head_def T_def)
      then have "smtTypeOK (TailOf (smt_view resolve t)) u"
        using k(2) by (auto simp: smtTypeOK_def IsTail_def)
      moreover have "list_all2 smtTypeOK (expand (map (smt_view resolve) (compact ws))) ws"
        using less.hyps [of ws] Cons two(2,4) by simp
      ultimately show ?thesis using two t k(2) view_matches [OF t, of resolve]
        by (simp add: Cons compact_def expand_def view_head)
    qed
  qed
qed

section \<open>Properties of the stack map codec\<close>



text \<open>The checker accepts what the writer makes of a computed frame: a valid frame written at its
  offset passes the comparison with itself.\<close>

theorem written_frame_accepted:
  assumes "frame_ok f" and "stackLimit f \<le> maxSlots" and "computed d = Some f"
  shows "CheckStackMapTable major (EncodeFullFrame d (Locals f) (Stack f)) computed resolve = Inr ()"
proof -
  have wf: "wf_slots True (Locals f)" "wf_slots False (Stack f)" using assms(1) by (simp_all add: frame_ok_iff)
  have "length (Locals f) < 65536" "length (Stack f) < 65536"
    using assms(1,2) by (auto simp: frame_ok_iff slen_def maxSlots_def)
  then have "length (compact (Locals f)) < 65536" "length (compact (Stack f)) < 65536"
    by (auto simp: compact_def intro: le_less_trans [OF length_filter_le])
  note parse = full_frame_read [OF this, of d resolve]
  note m = expand_matches [OF wf(1), of resolve] expand_matches [OF wf(2), of resolve]
  have ne: "EncodeFullFrame d (Locals f) (Stack f) \<noteq> []"
    by (simp add: EncodeFullFrame_def Let_def write_u2_def)
  show ?thesis
    using m list_all2_lengthD [OF m(1)] list_all2_lengthD [OF m(2)]
    by (simp add: CheckStackMapTable_def ne parse assms(3) framesCompatible_def)
qed

theorem written_frame_accepted_witness:
  "CheckStackMapTable 52 (EncodeFullFrame 4 (Locals pair_frame) (Stack pair_frame)) [4 \<mapsto> pair_frame] None = Inr ()"
  by (rule written_frame_accepted [OF frame_ok_pair_frame])
    (simp_all add: pair_frame_def NewFrame_def stackLimit_def)

text \<open>
  The reader starts from no locals at all where the JVM starts from the parameters of the method,
  so a table whose first frame appends to them is refused: a static method with one \<open>int\<close>
  parameter that has stored a \<open>float\<close> in its second local.
\<close>

definition int_then_float :: frame where
  "int_then_float = (NewFrame 2)\<lparr>Locals := [T IntK, T FloatK]\<rparr>"

lemma first_append_frame_refused:
  "CheckStackMapTable 52 [0, 1, 252, 0, 5, 2] [5 \<mapsto> int_then_float] None =
     Inl (smtf ''local[%d] SMT %s transfer %s'')"
  by code_simp

end
