(* ===== verification/Runs.thy ===== *)
theory Runs
  imports SsaTypes
begin

text \<open>
  Steps that change a state of type \<open>'w\<close> (a work counter, a registry of values, both): a step takes
  the state and returns its result together with the state it leaves, also when it fails.
\<close>

section \<open>Steps over a state\<close>

type_synonym ('w, 'a) run = "'w \<Rightarrow> (ssa_error + 'a) \<times> 'w"

definition r_ret :: "'a \<Rightarrow> ('w, 'a) run" where
  "r_ret a w = (Inr a, w)"

definition r_fail :: "ssa_error \<Rightarrow> ('w, 'a) run" where
  "r_fail e w = (Inl e, w)"

definition r_bind :: "('w, 'a) run \<Rightarrow> ('a \<Rightarrow> ('w, 'b) run) \<Rightarrow> ('w, 'b) run" where
  "r_bind m k w = (case m w of (Inl e, w') \<Rightarrow> (Inl e, w') | (Inr a, w') \<Rightarrow> k a w')"

lemma r_bind_cong [fundef_cong]:
  assumes "m w = m' w'" and "\<And>a w''. m' w' = (Inr a, w'') \<Longrightarrow> k a w'' = k' a w''"
  shows "r_bind m k w = r_bind m' k' w'"
  using assms by (auto simp: r_bind_def split: prod.splits sum.splits)

lemma r_bind_Inr: "r_bind m k w = (Inr b, w'') \<longleftrightarrow> (\<exists>a w'. m w = (Inr a, w') \<and> k a w' = (Inr b, w''))"
  by (auto simp: r_bind_def split: prod.splits sum.splits)

lemma r_ret_Inr [simp]: "r_ret a w = (Inr b, w') \<longleftrightarrow> b = a \<and> w' = w"
  by (auto simp: r_ret_def)

lemma r_fail_Inr [simp]: "r_fail e w \<noteq> (Inr b, w')"
  by (simp add: r_fail_def)

lemma r_bind_step: "m w = (Inr a, w') \<Longrightarrow> r_bind m k w = k a w'"
  by (simp add: r_bind_def)

text \<open>What a charge does, \<open>counter.Charge\<close>: the argument \<open>ch\<close> of what follows.\<close>

type_synonym 'w charger = "u64 \<Rightarrow> ('w, unit) run"

text \<open>One unit for every element of a list.\<close>

fun charge_each :: "'w charger \<Rightarrow> 'a list \<Rightarrow> ('w, unit) run" where
  "charge_each ch [] = r_ret ()"
| "charge_each ch (_ # ds) = r_bind (ch 1) (\<lambda>_. charge_each ch ds)"

section \<open>What a step leaves alone\<close>

definition kept :: "('w \<Rightarrow> bool) \<Rightarrow> ('w, 'a) run \<Rightarrow> bool" where
  "kept P m \<longleftrightarrow> (\<forall>w. P w \<longrightarrow> P (snd (m w)))"

lemma kept_simps [simp]: "kept P (r_ret a)" "kept P (r_fail e)"
  by (simp_all add: kept_def r_ret_def r_fail_def)

lemma kept_bind: "kept P m \<Longrightarrow> (\<And>a. kept P (k a)) \<Longrightarrow> kept P (r_bind m k)"
  unfolding kept_def r_bind_def by (auto split: prod.split sum.split)

section \<open>The counter of an analysis\<close>

text \<open>A counter that is not nil, charged as \<open>charge\<close> does; \<open>r_lift\<close> is a step that leaves it.\<close>

definition r_lift :: "ssa_error + 'a \<Rightarrow> ('w, 'a) run" where
  "r_lift r w = (r, w)"

definition c_charge :: "LimitCounter charger" where
  "c_charge n c =
     (case LimitCharge (Some c) n of
        Inl e \<Rightarrow> (Inl e, c)
      | Inr c' \<Rightarrow> (Inr (), case c' of None \<Rightarrow> c | Some c' \<Rightarrow> c'))"

lemma r_lift_Inr [simp]: "r_lift r w = (Inr b, w') \<longleftrightarrow> r = Inr b \<and> w' = w"
  by (auto simp: r_lift_def)

lemma c_charge_Inr:
  "c_charge n c = (Inr (), c') \<Longrightarrow> unat (CUsed c') = unat (CUsed c) + unat n \<and> CMax c' = CMax c"
proof -
  assume a: "c_charge n c = (Inr (), c')"
  then have "\<not> n > - 1 - CUsed c" and c': "c' = c\<lparr>CUsed := CUsed c + n\<rparr>"
    by (auto simp: c_charge_def LimitCharge_def split: if_splits)
  then have "unat n \<le> unat (- 1 - CUsed c)" by (simp add: not_less word_le_nat_alt)
  moreover have "unat (- 1 - CUsed c) = unat (- 1 :: u64) - unat (CUsed c)"
    by (rule unat_sub) (rule word_n1_ge)
  moreover have "unat (- 1 :: u64) = 2 ^ 64 - 1" by (simp add: unsigned_minus_1_eq_mask mask_eq_exp_minus_1)
  moreover have "unat (CUsed c) < 2 ^ 64" using unsigned_less [of "CUsed c", where 'a = nat] by simp
  ultimately have "unat (CUsed c) + unat n < 2 ^ 64" by linarith
  then show ?thesis using c' by (simp add: unat_word_ariths take_bit_nat_eq_self_iff)
qed

lemma kept_lift [simp]: "kept P (r_lift r)"
  by (simp add: kept_def r_lift_def)

text \<open>Work is never given back.\<close>

abbreviation spends :: "(LimitCounter, 'a) run \<Rightarrow> bool" where
  "spends m \<equiv> \<forall>k. kept (\<lambda>c :: LimitCounter. k \<le> unat (CUsed c)) m"

lemma spends_charge: "spends (c_charge n)"
proof (intro allI)
  fix k show "kept (\<lambda>c :: LimitCounter. k \<le> unat (CUsed c)) (c_charge n)"
    unfolding kept_def
  proof (intro allI impI)
    fix c :: LimitCounter assume k: "k \<le> unat (CUsed c)"
    show "k \<le> unat (CUsed (snd (c_charge n c)))"
    proof (cases "c_charge n c")
      case (Pair r c')
      then show ?thesis using k c_charge_Inr [of n c c']
        by (cases r) (auto simp: c_charge_def LimitCharge_def split: sum.splits if_splits option.splits)
    qed
  qed
qed

lemma spends_bind: "spends m \<Longrightarrow> (\<And>a. spends (k a)) \<Longrightarrow> spends (r_bind m k)"
  by (simp add: kept_bind)

lemma spends_le: "spends m \<Longrightarrow> m c = (r, c') \<Longrightarrow> unat (CUsed c) \<le> unat (CUsed c')"
  unfolding kept_def by (metis order_refl snd_conv)

end
