(* ===== verification/SsaCopy.thy ===== *)
theory SsaCopy
  imports Runs "HOL-Library.AList"
begin

text \<open>
  \<open>core/ssalower/copy.go\<close> and \<open>budget.go\<close>: a set of parallel copies as a list of moves, one after the
  other. The counter and the source of temporaries change a state of their own, \<open>'w\<close>: a step takes
  it and returns its result with the state it leaves (theory \<open>Runs\<close>). A map of Go is an
  association list here, a set that the code iterates is the list of its members, and a heap of
  \<open>container/heap\<close> is its elements in order, whose pop takes the least.
\<close>

section \<open>The work budget of lowering\<close>

definition chargeWork :: "u64 \<Rightarrow> (LimitCounter option, unit) run" where
  "chargeWork units c =
     (if c = None \<or> units = 0 then (Inr (), c)
      else case LimitCharge c units of Inl e \<Rightarrow> (Inl e, c) | Inr c' \<Rightarrow> (Inr (), c'))"

definition sortWork :: "int \<Rightarrow> u64" where
  "sortWork n =
     (if n < 2 then 0
      else let log = log_rounds (word_of_int n) 0 in
        if word_of_int n > (- 1 :: u64) div log then - 1 else word_of_int n * log)"

definition chargeScaledWork :: "'w charger \<Rightarrow> int \<Rightarrow> u64 \<Rightarrow> ('w, unit) run" where
  "chargeScaledWork ch n scale =
     (if n \<le> 0 \<or> scale = 0 then r_ret ()
      else if word_of_int n > (- 1 :: u64) div scale then ch (- 1)
      else ch (word_of_int n * scale))"

section \<open>Copies and moves\<close>

type_synonym VarID = int

record copy =
  Dst :: VarID
  Src :: VarID

record move = copy +
  Tmp :: bool

text \<open>A heap of identities.\<close>

definition heap_push :: "VarID \<Rightarrow> VarID list \<Rightarrow> VarID list" where
  "heap_push x h = insort x h"

definition heap_pop :: "VarID list \<Rightarrow> VarID \<times> VarID list" where
  "heap_pop h = (hd h, tl h)"

record sched =
  pending :: "(VarID \<times> VarID) list"
  readers :: "VarID \<Rightarrow> VarID list"
  occupied :: "VarID set"
  ready :: "VarID list"
  all_ids :: "VarID list"
  moves :: "move list"

definition no_sched :: sched where
  "no_sched = \<lparr>pending = [], readers = (\<lambda>_. []), occupied = {}, ready = [], all_ids = [], moves = []\<rparr>"

section \<open>Scheduling\<close>

text \<open>The first loop: every copy is checked and recorded, a self copy only as occupied.\<close>

definition add_copy :: "copy \<Rightarrow> sched \<Rightarrow> sched" where
  "add_copy c s =
     (let s = s\<lparr>occupied := insert (Dst c) (insert (Src c) (occupied s))\<rparr> in
      if Dst c = Src c then s
      else s\<lparr>pending := AList.update (Dst c) (Src c) (pending s),
             readers := (readers s)(Src c := List.insert (Dst c) (readers s (Src c)))\<rparr>)"

fun scan_copies :: "'w charger \<Rightarrow> copy list \<Rightarrow> VarID set \<Rightarrow> sched \<Rightarrow> ('w, sched) run" where
  "scan_copies ch [] destinations s = r_ret s"
| "scan_copies ch (c # cs) destinations s =
     r_bind (ch 1) (\<lambda>_.
       if Dst c \<le> 0 \<or> Src c \<le> 0 \<or> Dst c \<in> destinations
       then r_fail ''invalid_input: invalid or duplicate copy destination %d''
       else scan_copies ch cs (insert (Dst c) destinations) (add_copy c s))"

definition seed :: "VarID \<Rightarrow> sched \<Rightarrow> sched" where
  "seed d s =
     (let s = s\<lparr>all_ids := heap_push d (all_ids s)\<rparr> in
      if readers s d = [] then s\<lparr>ready := heap_push d (ready s)\<rparr> else s)"

definition seed_heaps :: "sched \<Rightarrow> sched" where
  "seed_heaps s = fold seed (map fst (pending s)) s"

text \<open>One round of the inner loop, after its charge: a destination nobody still reads is written.\<close>

definition take_ready :: "sched \<Rightarrow> sched" where
  "take_ready s =
     (let (d, h) = heap_pop (ready s); s = s\<lparr>ready := h\<rparr> in
      case map_of (pending s) d of
        None \<Rightarrow> s
      | Some x \<Rightarrow>
          if readers s d \<noteq> [] then s
          else
            let s = s\<lparr>moves := moves s @ [\<lparr>Dst = d, Src = x, Tmp = False\<rparr>],
                      pending := AList.delete d (pending s),
                      readers := (readers s)(x := remove1 d (readers s x))\<rparr> in
            if map_of (pending s) x \<noteq> None \<and> readers s x = []
            then s\<lparr>ready := heap_push x (ready s)\<rparr> else s)"

lemma length_delete_less: "map_of al k = Some x \<Longrightarrow> length (AList.delete k al) < length al"
  unfolding AList.delete_eq by (rule length_filter_less [of "(k, x)"]) (auto dest: map_of_SomeD)

lemma take_ready_decreases:
  assumes "ready s \<noteq> []"
  shows "2 * length (pending (take_ready s)) + length (ready (take_ready s)) < 2 * length (pending s) + length (ready s)"
proof -
  obtain d h where r: "ready s = d # h" using assms by (cases "ready s") auto
  show ?thesis
  proof (cases "map_of (pending s) d")
    case (Some x)
    from length_delete_less [OF Some] show ?thesis
      by (simp add: take_ready_def heap_pop_def heap_push_def r Some Let_def)
  qed (simp add: take_ready_def heap_pop_def r Let_def)
qed

function drain :: "'w charger \<Rightarrow> sched \<Rightarrow> ('w, sched) run" where
  "drain ch s =
     (if ready s = [] then r_ret s
      else r_bind (ch 1) (\<lambda>_. drain ch (take_ready s)))"
  by pat_completeness auto

termination
  by (relation "measure (\<lambda>(ch, s). 2 * length (pending s) + length (ready s))") (simp_all add: take_ready_decreases)

declare drain.simps [simp del]

text \<open>The least destination that is still pending; 0 when there is none.\<close>

fun find_victim :: "(VarID \<times> VarID) list \<Rightarrow> VarID list \<Rightarrow> VarID \<times> VarID list" where
  "find_victim pend [] = (0, [])"
| "find_victim pend (x # h) = (if map_of pend x \<noteq> None then (x, h) else find_victim pend h)"

text \<open>The old value of the victim is saved and every reader of it reads the temporary instead.\<close>

definition redirect :: "VarID \<Rightarrow> VarID \<Rightarrow> sched \<Rightarrow> sched" where
  "redirect tmp victim s =
     (let ds = readers s victim in
      s\<lparr>occupied := insert tmp (occupied s),
        moves := moves s @ [\<lparr>Dst = tmp, Src = victim, Tmp = True\<rparr>],
        pending := fold (\<lambda>d. AList.update d tmp) ds (pending s),
        readers := (readers s)(tmp := ds, victim := []),
        ready := heap_push victim (ready s)\<rparr>)"

definition break_cycle :: "'w charger \<Rightarrow> ('w \<Rightarrow> VarID \<times> 'w) option \<Rightarrow> sched \<Rightarrow> ('w, sched) run" where
  "break_cycle ch nextTemp s =
     (let (victim, h) = find_victim (pending s) (all_ids s); s = s\<lparr>all_ids := h\<rparr> in
      case nextTemp of
        None \<Rightarrow> r_fail ''invalid_input: cycle requires fresh temporary''
      | Some next \<Rightarrow>
          if victim = 0 then r_fail ''invalid_input: cycle requires fresh temporary''
          else
            (\<lambda>w. let (tmp, w) = next w in
              (if tmp \<le> 0 \<or> tmp \<in> occupied s then r_fail ''invalid_input: temporary %d is not fresh''
               else r_bind (charge_each ch (readers s victim)) (\<lambda>_. r_ret (redirect tmp victim s))) w))"

definition sched_round :: "'w charger \<Rightarrow> ('w \<Rightarrow> VarID \<times> 'w) option \<Rightarrow> sched \<Rightarrow> ('w, sched) run" where
  "sched_round ch nextTemp s =
     r_bind (ch 1) (\<lambda>_.
       r_bind (drain ch s) (\<lambda>s. if pending s = [] then r_ret s else break_cycle ch nextTemp s))"

lemma take_ready_all [simp]: "all_ids (take_ready s) = all_ids s"
  by (simp add: take_ready_def Let_def split: option.split prod.split)

lemma drain_all: "drain ch s w = (Inr s', w') \<Longrightarrow> all_ids s' = all_ids s \<and> ready s' = []"
proof (induction ch s arbitrary: w rule: drain.induct)
  case (1 ch s)
  show ?case
  proof (cases "ready s = []")
    case False
    with "1.prems" obtain w1 where "ch 1 w = (Inr (), w1)" "drain ch (take_ready s) w1 = (Inr s', w')"
      by (auto simp: drain.simps [of ch s] r_bind_Inr)
    with "1.IH" [OF False] show ?thesis by simp
  qed (use "1.prems" in \<open>simp add: drain.simps [of ch s]\<close>)
qed

lemma find_victim_shrinks: "find_victim pend h = (x, h') \<Longrightarrow> x \<noteq> 0 \<Longrightarrow> length h' < length h"
  by (induction h) (auto split: if_splits)

lemma break_cycle_Inr:
  "break_cycle ch nextTemp s w = (Inr s', w') \<longleftrightarrow>
   (\<exists>victim h next tmp w1. find_victim (pending s) (all_ids s) = (victim, h) \<and> victim \<noteq> 0 \<and>
      nextTemp = Some next \<and> next w = (tmp, w1) \<and> tmp > 0 \<and> tmp \<notin> occupied s \<and>
      charge_each ch (readers s victim) w1 = (Inr (), w') \<and> s' = redirect tmp victim (s\<lparr>all_ids := h\<rparr>))"
  by (cases "find_victim (pending s) (all_ids s)"; cases nextTemp)
    (auto simp: break_cycle_def Let_def r_bind_Inr not_le split: prod.splits if_splits)

lemma sched_round_decreases:
  assumes "sched_round ch nextTemp s w = (Inr s', w')"
  shows "pending s' = [] \<or> length (all_ids s') < length (all_ids s)"
proof -
  from assms obtain s1 w1 w2 where d: "drain ch s w1 = (Inr s1, w2)"
    and r: "(if pending s1 = [] then r_ret s1 else break_cycle ch nextTemp s1) w2 = (Inr s', w')"
    by (auto simp: sched_round_def r_bind_Inr)
  show ?thesis
  proof (cases "pending s1 = []")
    case False
    with r drain_all [OF d] obtain victim h tmp where "find_victim (pending s1) (all_ids s) = (victim, h)"
      "victim \<noteq> 0" "s' = redirect tmp victim (s1\<lparr>all_ids := h\<rparr>)"
      by (auto simp: break_cycle_Inr)
    then show ?thesis using find_victim_shrinks by (auto simp: redirect_def Let_def)
  qed (use r in simp)
qed

function sched_loop :: "'w charger \<Rightarrow> ('w \<Rightarrow> VarID \<times> 'w) option \<Rightarrow> sched \<Rightarrow> ('w, sched) run" where
  "sched_loop ch nextTemp s w =
     (if pending s = [] then r_ret s w
      else r_bind (sched_round ch nextTemp s) (sched_loop ch nextTemp) w)"
  by pat_completeness auto

termination
  by (relation "measure (\<lambda>(ch, nextTemp, s, w). if pending s = [] then 0 else Suc (length (all_ids s)))")
    (use sched_round_decreases in fastforce)+

declare sched_loop.simps [simp del]

definition sequentializeChecked ::
    "'w charger \<Rightarrow> ('w \<Rightarrow> VarID \<times> 'w) option \<Rightarrow> copy list \<Rightarrow> ('w, move list) run" where
  "sequentializeChecked ch nextTemp copies =
     r_bind (chargeScaledWork ch (slen copies) 4) (\<lambda>_.
       r_bind (scan_copies ch copies {} no_sched) (\<lambda>s.
         r_bind (chargeScaledWork ch (slen (pending s)) 2) (\<lambda>_.
           r_bind (sched_loop ch nextTemp (seed_heaps s)) (\<lambda>s. r_ret (moves s)))))"

section \<open>What copies and moves mean\<close>

type_synonym vstate = "VarID \<rightharpoonup> 64 word"

definition read_var :: "vstate \<Rightarrow> VarID \<Rightarrow> 64 word" where
  "read_var st x = (case st x of None \<Rightarrow> 0 | Some n \<Rightarrow> n)"

definition ParallelEval :: "copy list \<Rightarrow> vstate \<Rightarrow> vstate" where
  "ParallelEval copies st = foldl (\<lambda>next c. next(Dst c \<mapsto> read_var st (Src c))) st copies"

definition SerialEval :: "move list \<Rightarrow> vstate \<Rightarrow> vstate" where
  "SerialEval ms st = foldl (\<lambda>st m. st(Dst m \<mapsto> read_var st (Src m))) st ms"

definition StatesEqual :: "vstate \<Rightarrow> vstate \<Rightarrow> VarID list \<Rightarrow> bool" where
  "StatesEqual a b ids = list_all (\<lambda>x. read_var a x = read_var b x) ids"

end
