(* ===== verification/CopyOrder.thy ===== *)
theory CopyOrder
  imports SsaCopy
begin

text \<open>
  The scheduler of parallel copies is right: the moves of \<open>sequentializeChecked\<close> leave every value
  but the temporaries as the copies done at once would, it fails only for bad input, an exhausted
  counter or a temporary that is not fresh, and it takes a temporary only for a cycle.
\<close>

definition temps_of :: "move list \<Rightarrow> VarID set" where
  "temps_of ms = set (map Dst (filter Tmp ms))"

definition operands :: "copy list \<Rightarrow> VarID set" where
  "operands copies = set (map Dst copies) \<union> set (map Src copies)"

definition good_copies :: "copy list \<Rightarrow> bool" where
  "good_copies copies \<longleftrightarrow> distinct (map Dst copies) \<and> (\<forall>c\<in>set copies. 0 < Dst c \<and> 0 < Src c)"

definition wanted :: "copy list \<Rightarrow> vstate \<Rightarrow> VarID \<Rightarrow> 64 word" where
  "wanted copies st x = read_var (ParallelEval copies st) x"

section \<open>Evaluation\<close>

lemma read_var_upd [simp]: "read_var (st(x \<mapsto> n)) y = (if y = x then n else read_var st y)"
  by (simp add: read_var_def)

lemma SerialEval_snoc [simp]:
  "SerialEval (ms @ [m]) st = (SerialEval ms st)(Dst m \<mapsto> read_var (SerialEval ms st) (Src m))"
  by (simp add: SerialEval_def)

lemma ParallelEval_snoc [simp]:
  "ParallelEval (cs @ [c]) st = (ParallelEval cs st)(Dst c \<mapsto> read_var st (Src c))"
  by (simp add: ParallelEval_def)

lemma wanted_other: "x \<notin> Dst ` set cs \<Longrightarrow> wanted cs st x = read_var st x"
  unfolding wanted_def by (induction cs rule: rev_induct) (simp_all add: ParallelEval_def)

lemma wanted_dst: "distinct (map Dst cs) \<Longrightarrow> c \<in> set cs \<Longrightarrow> wanted cs st (Dst c) = read_var st (Src c)"
  unfolding wanted_def by (induction cs rule: rev_induct) (auto simp: image_iff)

lemma temps_of_simps [simp]: "temps_of [] = {}" "temps_of (ms @ [m]) = (if Tmp m then insert (Dst m) else (\<lambda>x. x)) (temps_of ms)"
  by (simp_all add: temps_of_def)

section \<open>The invariant of the schedule\<close>

definition source :: "sched \<Rightarrow> VarID \<rightharpoonup> VarID" where
  "source s = map_of (pending s)"

lemma source_none [simp]: "source s = Map.empty \<longleftrightarrow> pending s = []"
  by (simp add: source_def)

text \<open>The readers of a value are the pending destinations it is the source of.\<close>

definition links :: "sched \<Rightarrow> bool" where
  "links s \<longleftrightarrow>
     (\<forall>x. distinct (readers s x) \<and> set (readers s x) = {d. source s d = Some x}) \<and>
     (\<forall>d x. source s d = Some x \<longrightarrow> d \<in> occupied s \<and> x \<in> occupied s)"

text \<open>What is pending is queued, and what is ready is read by nobody.\<close>

definition queued :: "sched \<Rightarrow> bool" where
  "queued s \<longleftrightarrow>
     (\<forall>d x. source s d = Some x \<longrightarrow> d \<in> set (all_ids s) \<or> d \<in> set (ready s)) \<and>
     (\<forall>d\<in>set (ready s). readers s d = [] \<and> d \<in> occupied s) \<and>
     (\<forall>d x. source s d = Some x \<and> readers s d = [] \<longrightarrow> d \<in> set (ready s))"

text \<open>A pending destination's source holds the value it wants, and every other value is final.\<close>

definition on_course :: "copy list \<Rightarrow> vstate \<Rightarrow> sched \<Rightarrow> bool" where
  "on_course copies st s \<longleftrightarrow>
     (\<forall>d x. source s d = Some x \<longrightarrow>
        read_var (SerialEval (moves s) st) x = wanted copies st d \<and> d \<in> operands copies) \<and>
     (\<forall>x. x \<notin> temps_of (moves s) \<and> source s x = None \<longrightarrow>
        read_var (SerialEval (moves s) st) x = wanted copies st x) \<and>
     temps_of (moves s) \<inter> operands copies = {} \<and>
     temps_of (moves s) \<union> operands copies \<subseteq> occupied s"

text \<open>Before the first temporary, what is pending are copies as they were given.\<close>

definition untouched :: "copy list \<Rightarrow> sched \<Rightarrow> bool" where
  "untouched copies s \<longleftrightarrow>
     (\<forall>d x. source s d = Some x \<longrightarrow> (\<exists>c\<in>set copies. Dst c = d \<and> Src c = x \<and> d \<noteq> x))"

subsection \<open>One destination is written\<close>

definition emits :: "VarID \<Rightarrow> VarID \<Rightarrow> sched \<Rightarrow> sched \<Rightarrow> bool" where
  "emits d x s s' \<longleftrightarrow>
     source s d = Some x \<and> readers s d = [] \<and> source s' = (source s)(d := None) \<and>
     readers s' = (readers s)(x := remove1 d (readers s x)) \<and>
     moves s' = moves s @ [\<lparr>Dst = d, Src = x, Tmp = False\<rparr>] \<and>
     occupied s' = occupied s \<and> all_ids s' = all_ids s \<and>
     set (tl (ready s)) \<subseteq> set (ready s') \<and> set (ready s') \<subseteq> insert x (set (tl (ready s))) \<and>
     (x \<in> set (ready s') \<longrightarrow> x \<in> set (tl (ready s)) \<or> readers s' x = []) \<and>
     (source s' x \<noteq> None \<and> readers s' x = [] \<longrightarrow> x \<in> set (ready s'))"

lemma take_ready_cases:
  assumes "ready s \<noteq> []"
  obtains (skip) "take_ready s = s\<lparr>ready := tl (ready s)\<rparr>"
      "source s (hd (ready s)) = None \<or> readers s (hd (ready s)) \<noteq> []"
  | (emit) x where "emits (hd (ready s)) x s (take_ready s)"
proof -
  obtain d h where r: "ready s = d # h" using assms by (cases "ready s") auto
  show ?thesis
  proof (cases "source s d")
    case None
    then show ?thesis using skip by (simp add: take_ready_def heap_pop_def r source_def)
  next
    case (Some x)
    show ?thesis
    proof (cases "readers s d = []")
      case True
      have "emits d x s (take_ready s)" using Some True
        by (auto simp: emits_def take_ready_def heap_pop_def heap_push_def r source_def Let_def
            set_insort_key AList.delete_conv')
      then show ?thesis using emit r by simp
    next
      case False
      then show ?thesis using skip Some by (simp add: take_ready_def heap_pop_def r source_def)
    qed
  qed
qed

lemma links_take:
  assumes "links s" "ready s \<noteq> []" shows "links (take_ready s)"
  using assms(2)
proof (cases s rule: take_ready_cases)
  case (emit x)
  then show ?thesis using assms(1) unfolding links_def emits_def by auto
qed (use assms in \<open>simp add: links_def source_def\<close>)

lemma links_unread: "links s \<Longrightarrow> readers s d = [] \<longleftrightarrow> (\<forall>y. source s y \<noteq> Some d)"
  unfolding links_def using set_empty [of "readers s d"] by auto

lemma queued_take:
  assumes "links s" "queued s" "ready s \<noteq> []" shows "queued (take_ready s)"
  using assms(3)
proof (cases s rule: take_ready_cases)
  case skip
  have "set (ready s) = insert (hd (ready s)) (set (tl (ready s)))" using assms(3) by (cases "ready s") auto
  then show ?thesis using assms skip by (auto simp: queued_def source_def)
next
  case (emit x)
  let ?d = "hd (ready s)" and ?s = "take_ready s"
  have r: "set (ready s) = insert ?d (set (tl (ready s)))" using assms(3) by (cases "ready s") auto
  note e = emit [unfolded emits_def]
  have occ: "x \<in> occupied s" using assms(1) e by (auto simp: links_def)
  have al: "all_ids ?s = all_ids s" and oc: "occupied ?s = occupied s"
    and src: "source ?s d = Some y \<longleftrightarrow> d \<noteq> ?d \<and> source s d = Some y" for d y using e by auto
  have rd: "readers ?s d = (if d = x then remove1 ?d (readers s x) else readers s d)" for d using e by simp
  have up: "set (tl (ready s)) \<subseteq> set (ready ?s)" and down: "set (ready ?s) \<subseteq> insert x (set (tl (ready s)))"
    and new: "x \<in> set (ready ?s) \<Longrightarrow> x \<in> set (tl (ready s)) \<or> readers ?s x = []"
    and got: "source ?s x \<noteq> None \<Longrightarrow> readers ?s x = [] \<Longrightarrow> x \<in> set (ready ?s)" using e by blast+
  have q1: "source s d = Some y \<Longrightarrow> d \<in> set (all_ids s) \<or> d \<in> set (ready s)"
    and q2: "d \<in> set (ready s) \<Longrightarrow> readers s d = [] \<and> d \<in> occupied s"
    and q3: "source s d = Some y \<Longrightarrow> readers s d = [] \<Longrightarrow> d \<in> set (ready s)" for d y
    using assms(2) unfolding queued_def by blast+
  have "d \<in> set (all_ids ?s) \<or> d \<in> set (ready ?s)" if "source ?s d = Some y" for d y
    using that q1 [of d y] up unfolding src al r by blast
  moreover have "readers ?s d = [] \<and> d \<in> occupied ?s" if "d \<in> set (ready ?s)" for d
  proof (cases "d \<in> set (tl (ready s))")
    case True
    then show ?thesis using q2 [of d] unfolding oc rd r by auto
  next
    case False
    with that down have "d = x" by blast
    with that new False occ show ?thesis unfolding oc by blast
  qed
  moreover have "d \<in> set (ready ?s)" if "source ?s d = Some y" "readers ?s d = []" for d y
  proof (cases "d = x")
    case True
    then show ?thesis using got that by auto
  next
    case False
    with that have "d \<in> set (ready s)" "d \<noteq> ?d" using q3 unfolding src rd by auto
    then show ?thesis using up unfolding r by blast
  qed
  ultimately show ?thesis unfolding queued_def by blast
qed

lemma on_course_take:
  assumes "links s" "on_course cs st s" "ready s \<noteq> []" shows "on_course cs st (take_ready s)"
  using assms(3)
proof (cases s rule: take_ready_cases)
  case (emit x)
  note e = emit [unfolded emits_def]
  have n: "source s y \<noteq> Some (hd (ready s))" for y using links_unread [OF assms(1)] e by blast
  have src: "source s (hd (ready s)) = Some x" and src': "source (take_ready s) = (source s)(hd (ready s) := None)"
    and m: "moves (take_ready s) = moves s @ [\<lparr>Dst = hd (ready s), Src = x, Tmp = False\<rparr>]"
    and o: "occupied (take_ready s) = occupied s" using e by simp_all
  show ?thesis using n assms(2) src unfolding on_course_def src' m o by auto
qed (use assms in \<open>simp add: on_course_def source_def\<close>)

lemma untouched_take:
  assumes "untouched cs s" "ready s \<noteq> []" shows "untouched cs (take_ready s)"
  using assms(2)
  by (cases s rule: take_ready_cases) (use assms(1) in \<open>auto simp: untouched_def emits_def source_def\<close>)

subsection \<open>A cycle is broken\<close>

lemma map_of_redirect:
  "map_of (fold (\<lambda>d. AList.update d t) ds al) = (\<lambda>d. if d \<in> set ds then Some t else map_of al d)"
  by (induction ds arbitrary: al) (auto simp: update_conv')

lemma source_redirect:
  "source (redirect tmp victim s) = (\<lambda>d. if d \<in> set (readers s victim) then Some tmp else source s d)"
  by (simp add: source_def redirect_def Let_def map_of_redirect fun_eq_iff)

lemma find_victim_found:
  "find_victim pend al = (x, h) \<Longrightarrow> x \<noteq> 0 \<Longrightarrow>
   map_of pend x \<noteq> None \<and> x \<in> set al \<and> (\<forall>d\<in>set al. map_of pend d \<noteq> None \<longrightarrow> d = x \<or> d \<in> set h)"
  by (induction al) (auto split: if_splits)

lemma find_victim_sub: "find_victim pend al = (x, h) \<Longrightarrow> x \<noteq> 0 \<Longrightarrow> set h \<subseteq> set al"
  by (induction al) (auto split: if_splits)

lemma find_victim_none:
  "find_victim pend al = (0, h) \<Longrightarrow> \<forall>d\<in>set al. 0 < d \<Longrightarrow> \<forall>d\<in>set al. map_of pend d = None"
  by (induction al) (auto split: if_splits)

text \<open>What a broken cycle changes, with the heap of destinations that is left.\<close>

definition breaks :: "VarID \<Rightarrow> VarID \<Rightarrow> sched \<Rightarrow> sched \<Rightarrow> bool" where
  "breaks t x s s' \<longleftrightarrow>
     source s x \<noteq> None \<and> t \<notin> occupied s \<and>
     source s' = (\<lambda>d. if d \<in> set (readers s x) then Some t else source s d) \<and>
     readers s' = (readers s)(t := readers s x, x := []) \<and>
     moves s' = moves s @ [\<lparr>Dst = t, Src = x, Tmp = True\<rparr>] \<and>
     occupied s' = insert t (occupied s) \<and> set (ready s') = insert x (set (ready s)) \<and>
     (\<forall>d\<in>set (all_ids s). source s d \<noteq> None \<longrightarrow> d = x \<or> d \<in> set (all_ids s'))"

lemma break_cycle_breaks:
  assumes "break_cycle ch nextTemp s w = (Inr s', w')"
  obtains t x where "breaks t x s s'" "0 < t"
proof -
  from assms obtain x h t where "find_victim (pending s) (all_ids s) = (x, h)" "x \<noteq> 0" "0 < t" "t \<notin> occupied s"
    and s': "s' = redirect t x (s\<lparr>all_ids := h\<rparr>)"
    by (auto simp: break_cycle_Inr)
  moreover have "source s' = (\<lambda>d. if d \<in> set (readers s x) then Some t else source s d)"
    unfolding s' source_redirect by (simp add: source_def fun_eq_iff)
  ultimately have "breaks t x s s'"
    using find_victim_found by (simp add: breaks_def redirect_def Let_def heap_push_def set_insort_key source_def)
  then show ?thesis using that \<open>0 < t\<close> by blast
qed

lemma links_break:
  assumes "links s" "breaks t x s s'" shows "links s'"
proof -
  note b = assms(2) [unfolded breaks_def] and l = assms(1) [unfolded links_def]
  have tx: "t \<noteq> x" and nt: "source s d \<noteq> Some t" for d using b l by auto
  have src: "source s' d = Some y \<longleftrightarrow> (if source s d = Some x then y = t else source s d = Some y)" for d y
    using b l by auto
  have rd: "readers s' y = (if y = x then [] else if y = t then readers s x else readers s y)" for y
    using b by simp
  have "distinct (readers s' y) \<and> set (readers s' y) = {d. source s' d = Some y}" for y
    using l tx nt unfolding rd src by auto
  moreover have "source s' d = Some y \<Longrightarrow> d \<in> occupied s' \<and> y \<in> occupied s'" for d y
    using b l unfolding src by (auto split: if_splits)
  ultimately show ?thesis by (auto simp: links_def)
qed

lemma queued_break:
  assumes "links s" "queued s" "breaks t x s s'" shows "queued s'"
proof -
  note b = assms(3) [unfolded breaks_def] and l = assms(1) [unfolded links_def] and q = assms(2) [unfolded queued_def]
  have dom: "source s d \<noteq> None" if "source s' d = Some y" for d y
    using that b l by (auto split: if_splits)
  have occ: "d \<in> occupied s" "d \<noteq> t" if "source s' d = Some y" for d y
    using dom [OF that] b l by auto
  have rdy: "set (ready s') = insert x (set (ready s))" using b by simp
  have rd: "readers s' y = (if y = x then [] else if y = t then readers s x else readers s y)" for y
    using b by simp
  have "d \<in> set (all_ids s') \<or> d \<in> set (ready s')" if "source s' d = Some y" for d y
    using dom [OF that] q b rdy by blast
  moreover have "readers s' d = [] \<and> d \<in> occupied s'" if "d \<in> set (ready s')" for d
  proof -
    from that rdy consider "d = x" | "d \<in> set (ready s)" by auto
    then show ?thesis
    proof cases
      case 1
      then show ?thesis using b l by (auto simp: rd)
    next
      case 2
      then have "readers s d = []" "d \<in> occupied s" using q by auto
      moreover from this have "d \<noteq> t" using b by auto
      ultimately show ?thesis using b by (simp add: rd)
    qed
  qed
  moreover have "d \<in> set (ready s')" if "source s' d = Some y" "readers s' d = []" for d y
    using dom [OF that(1)] occ [OF that(1)] that(2) q unfolding rd rdy by (auto split: if_splits)
  ultimately show ?thesis by (auto simp: queued_def)
qed

lemma on_course_break:
  assumes "links s" "on_course cs st s" "breaks t x s s'" shows "on_course cs st s'"
proof -
  note b = assms(3) [unfolded breaks_def] and l = assms(1) [unfolded links_def]
    and o = assms(2) [unfolded on_course_def]
  have src: "source s' d = Some y \<longleftrightarrow> (if source s d = Some x then y = t else source s d = Some y)" for d y
    using b l by auto
  have none: "source s' d = None \<longleftrightarrow> source s d = None" for d using b l by auto
  have nt: "source s d \<noteq> Some t" for d using b l by auto
  have m: "moves s' = moves s @ [\<lparr>Dst = t, Src = x, Tmp = True\<rparr>]" and oc: "occupied s' = insert t (occupied s)"
    and t: "t \<notin> occupied s" using b by simp_all
  have "read_var (SerialEval (moves s') st) y = wanted cs st d \<and> d \<in> operands cs" if "source s' d = Some y" for d y
    using that o nt [of d] unfolding src m by (auto split: if_splits)
  moreover have "read_var (SerialEval (moves s') st) y = wanted cs st y"
    if "y \<notin> temps_of (moves s')" "source s' y = None" for y
    using that o unfolding none m by simp
  ultimately show ?thesis using o t unfolding on_course_def oc m by auto
qed

subsection \<open>The whole loop\<close>

lemma drain_keeps:
  assumes "\<And>s. P s \<Longrightarrow> ready s \<noteq> [] \<Longrightarrow> P (take_ready s)"
  shows "drain ch s w = (Inr s', w') \<Longrightarrow> P s \<Longrightarrow> P s'"
proof (induction ch s arbitrary: w rule: drain.induct)
  case (1 ch s)
  show ?case
  proof (cases "ready s = []")
    case False
    with "1.prems"(1) obtain w1 where "drain ch (take_ready s) w1 = (Inr s', w')"
      by (auto simp: drain.simps [of ch s] r_bind_Inr)
    with "1.IH" [OF False] assms [OF "1.prems"(2) False] show ?thesis by blast
  qed (use "1.prems" in \<open>simp add: drain.simps [of ch s]\<close>)
qed

lemma sched_loop_keeps:
  assumes take: "\<And>s. P s \<Longrightarrow> ready s \<noteq> [] \<Longrightarrow> P (take_ready s)"
    and break: "\<And>s s' t x. P s \<Longrightarrow> ready s = [] \<Longrightarrow> breaks t x s s' \<Longrightarrow> P s'"
  shows "sched_loop ch nextTemp s w = (Inr s', w') \<Longrightarrow> P s \<Longrightarrow> P s' \<and> pending s' = []"
proof (induction ch nextTemp s w rule: sched_loop.induct)
  case (1 ch nextTemp s w)
  show ?case
  proof (cases "pending s = []")
    case False
    with "1.prems"(1) obtain s1 w1 where r: "sched_round ch nextTemp s w = (Inr s1, w1)"
      and l: "sched_loop ch nextTemp s1 w1 = (Inr s', w')"
      by (auto simp: sched_loop.simps [of ch nextTemp s] r_bind_Inr)
    from r obtain s2 w2 w3 where d: "drain ch s w2 = (Inr s2, w3)"
      and b: "(if pending s2 = [] then r_ret s2 else break_cycle ch nextTemp s2) w3 = (Inr s1, w1)"
      by (auto simp: sched_round_def r_bind_Inr)
    have p2: "P s2" using drain_keeps [of P, OF take d "1.prems"(2)] .
    have "P s1"
    proof (cases "pending s2 = []")
      case False
      with b have "break_cycle ch nextTemp s2 w3 = (Inr s1, w1)" by simp
      then obtain t x where "breaks t x s2 s1" by (rule break_cycle_breaks)
      with break [OF p2] drain_all [OF d] show ?thesis by blast
    qed (use b p2 in simp)
    with "1.IH" [OF False r l] show ?thesis by simp
  qed (use "1.prems" in \<open>simp add: sched_loop.simps [of ch nextTemp s]\<close>)
qed

section \<open>The start\<close>

lemma scan_copies_Inr:
  "scan_copies ch cs ds s w = (Inr s', w') \<Longrightarrow>
   s' = fold add_copy cs s \<and> good_copies cs \<and> ds \<inter> Dst ` set cs = {}"
proof (induction ch cs ds s arbitrary: w rule: scan_copies.induct)
  case (2 ch c cs ds s)
  then obtain w1 where ok: "0 < Dst c" "0 < Src c" "Dst c \<notin> ds"
    and "scan_copies ch cs (insert (Dst c) ds) (add_copy c s) w1 = (Inr s', w')"
    by (auto simp: r_bind_Inr not_le split: if_splits)
  with "2.IH" [of w1] show ?case by (auto simp: good_copies_def)
qed (simp add: good_copies_def)

lemma length_update_le: "length (AList.update k x al) \<le> Suc (length al)"
  by (induction al) auto

lemma no_sched_simps [simp]:
  "source no_sched = Map.empty" "occupied no_sched = {}" "moves no_sched = []" "ready no_sched = []"
  "all_ids no_sched = []" "pending no_sched = []" "readers no_sched x = []"
  by (simp_all add: no_sched_def source_def)

lemma add_copy_simps [simp]:
  "source (add_copy c s) = (if Dst c = Src c then source s else (source s)(Dst c \<mapsto> Src c))"
  "occupied (add_copy c s) = insert (Dst c) (insert (Src c) (occupied s))"
  "moves (add_copy c s) = moves s" "ready (add_copy c s) = ready s" "all_ids (add_copy c s) = all_ids s"
  "length (pending (add_copy c s)) \<le> Suc (length (pending s))"
  by (simp_all add: add_copy_def source_def Let_def update_conv' length_update_le)

lemma links_add:
  assumes "links s" "source s (Dst c) = None" shows "links (add_copy c s)"
proof (cases "Dst c = Src c")
  case False
  have "distinct (readers (add_copy c s) y) \<and> set (readers (add_copy c s) y) = {d. source (add_copy c s) d = Some y}" for y
    using assms False by (auto simp: links_def add_copy_def Let_def source_def update_conv' List.insert_def)
  then show ?thesis using assms(1) False by (auto simp: links_def)
qed (use assms in \<open>auto simp: links_def add_copy_def source_def\<close>)

lemma scanned:
  assumes "distinct (map Dst cs)"
  shows "links (fold add_copy cs no_sched)"
    and "source (fold add_copy cs no_sched) d = Some x \<longleftrightarrow> (\<exists>c\<in>set cs. Dst c = d \<and> Src c = x \<and> d \<noteq> x)"
    and "occupied (fold add_copy cs no_sched) = operands cs"
    and "moves (fold add_copy cs no_sched) = []" and "ready (fold add_copy cs no_sched) = []"
    and "all_ids (fold add_copy cs no_sched) = []"
    and "length (pending (fold add_copy cs no_sched)) \<le> length cs"
proof -
  let ?s = "\<lambda>cs. fold add_copy cs no_sched"
  have src: "source (?s cs) = map_of (rev (map (\<lambda>c. (Dst c, Src c)) (filter (\<lambda>c. Dst c \<noteq> Src c) cs)))" for cs
    by (induction cs rule: rev_induct) (auto simp: fun_eq_iff)
  have sub: "dom (source (?s cs)) \<subseteq> Dst ` set cs" for cs
    unfolding src by (auto dest!: map_of_SomeD)
  show "links (?s cs)" using assms
  proof (induction cs rule: rev_induct)
    case (snoc c cs)
    then have "source (?s cs) (Dst c) = None" using sub [of cs] by auto
    with snoc links_add show ?case by simp
  qed (simp add: links_def)
  have "distinct (map fst (rev (map (\<lambda>c. (Dst c, Src c)) (filter (\<lambda>c. Dst c \<noteq> Src c) cs))))"
    using assms by (simp add: rev_map o_def distinct_map inj_on_def)
  from map_of_eq_Some_iff [OF this] show "source (?s cs) d = Some x \<longleftrightarrow> (\<exists>c\<in>set cs. Dst c = d \<and> Src c = x \<and> d \<noteq> x)"
    unfolding src by force
  show "occupied (?s cs) = operands cs"
    by (induction cs rule: rev_induct) (auto simp: operands_def)
  show "length (pending (?s cs)) \<le> length cs"
    by (induction cs rule: rev_induct) (auto intro: order_trans [OF add_copy_simps(6)])
qed (induction cs rule: rev_induct; simp)+

lemma seeded:
  fixes ds :: "VarID list"
  shows "pending (fold seed ds s) = pending s \<and> readers (fold seed ds s) = readers s \<and>
    occupied (fold seed ds s) = occupied s \<and> moves (fold seed ds s) = moves s \<and>
    set (all_ids (fold seed ds s)) = set (all_ids s) \<union> set ds \<and>
    length (all_ids (fold seed ds s)) = length (all_ids s) + length ds \<and>
    set (ready (fold seed ds s)) = set (ready s) \<union> {d\<in>set ds. readers s d = []}"
  by (induction ds arbitrary: s) (auto simp: seed_def Let_def heap_push_def set_insort_key)

definition begun :: "copy list \<Rightarrow> sched" where
  "begun copies = seed_heaps (fold add_copy copies no_sched)"

lemma begun_good:
  assumes "distinct (map Dst cs)"
  shows "links (begun cs)" and "queued (begun cs)" and "on_course cs st (begun cs)" and "untouched cs (begun cs)"
    and "moves (begun cs) = []" and "occupied (begun cs) = operands cs" and "length (all_ids (begun cs)) \<le> length cs"
    and "set (all_ids (begun cs)) \<subseteq> Dst ` set cs"
proof -
  let ?s = "fold add_copy cs no_sched"
  note sc = scanned [OF assms]
  note se = seeded [of "map fst (pending ?s)" ?s]
  have src: "source (begun cs) = source ?s" and rd: "readers (begun cs) = readers ?s"
    and oc: "occupied (begun cs) = operands cs" and m: "moves (begun cs) = []"
    and al: "set (all_ids (begun cs)) = dom (source ?s)"
    and rdy: "set (ready (begun cs)) = {d \<in> dom (source ?s). readers ?s d = []}"
    using se sc(3-6) by (auto simp: begun_def seed_heaps_def source_def dom_map_of_conv_image_fst)
  show "links (begun cs)" using sc(1,3) by (simp add: links_def src rd oc)
  show "queued (begun cs)" unfolding queued_def src rd oc al rdy
    using sc(1,3) by (auto simp: links_def)
  show "untouched cs (begun cs)" using sc(2) by (auto simp: untouched_def src)
  have "wanted cs st x = read_var st x" if "source ?s x = None" for x
  proof (cases "x \<in> Dst ` set cs")
    case True
    then obtain c where c: "c \<in> set cs" "Dst c = x" by auto
    with sc(2) [of x "Src c"] that have "Src c = x" by auto
    with wanted_dst [OF assms c(1), of st] c show ?thesis by simp
  qed (rule wanted_other)
  moreover have "read_var st x = wanted cs st d \<and> d \<in> operands cs" if "source ?s d = Some x" for d x
  proof -
    from that sc(2) obtain c where c: "c \<in> set cs" "Dst c = d" "Src c = x" by auto
    with wanted_dst [OF assms c(1), of st] show ?thesis by (auto simp: operands_def)
  qed
  ultimately show "on_course cs st (begun cs)"
    by (simp add: on_course_def src m oc SerialEval_def)
  show "moves (begun cs) = []" "occupied (begun cs) = operands cs" by fact+
  show "length (all_ids (begun cs)) \<le> length cs"
    using se sc(6,7) by (simp add: begun_def seed_heaps_def)
  show "set (all_ids (begun cs)) \<subseteq> Dst ` set cs" unfolding al using sc(2) by (auto simp: dom_def)
qed

lemma sequentialize_Inr:
  assumes "sequentializeChecked ch nextTemp cs w = (Inr ms, w')"
  obtains s w1 where "good_copies cs" "sched_loop ch nextTemp (begun cs) w1 = (Inr s, w')" "ms = moves s"
  using assms scan_copies_Inr by (fastforce simp: sequentializeChecked_def r_bind_Inr begun_def)

lemma loop_right:
  assumes "distinct (map Dst cs)" and "sched_loop ch nextTemp (begun cs) w = (Inr s, w')"
  shows "on_course cs st s" and "pending s = []"
proof -
  let ?P = "\<lambda>s. links s \<and> on_course cs st s"
  have "?P s \<and> pending s = []"
  proof (rule sched_loop_keeps [of ?P, OF _ _ assms(2)])
    show "?P (take_ready s)" if "?P s" "ready s \<noteq> []" for s
      using that links_take on_course_take by blast
    show "?P s'" if "?P s" "breaks t x s s'" for s s' t x
      using that links_break on_course_break by blast
  qed (use begun_good [OF assms(1)] in simp)
  then show "on_course cs st s" "pending s = []" by simp_all
qed

text \<open>While nothing is ready, each pending value has a pending reader.\<close>

lemma stuck_cycle:
  assumes "links s" "queued s" "ready s = []" "source s x \<noteq> None" "untouched cs s"
  shows "\<exists>y. (y, y) \<in> {(Src c, Dst c) |c. c \<in> set cs \<and> Dst c \<noteq> Src c}\<^sup>+"
proof (rule ccontr)
  let ?r = "{(Src c, Dst c) |c. c \<in> set cs \<and> Dst c \<noteq> Src c}"
  assume "\<nexists>y. (y, y) \<in> ?r\<^sup>+"
  then have "acyclic ?r" by (simp add: acyclic_def)
  moreover have "?r \<subseteq> (\<lambda>c. (Src c, Dst c)) ` set cs" by auto
  then have "finite ?r" by (rule finite_subset) simp
  ultimately have wf: "wf (?r\<inverse>)" by (simp add: finite_acyclic_wf_converse)
  have "x \<in> dom (source s)" using assms(4) by auto
  with wf obtain z where z: "z \<in> dom (source s)" and min: "\<And>y. (y, z) \<in> ?r\<inverse> \<Longrightarrow> y \<notin> dom (source s)"
    by (rule wfE_min) blast
  from z assms(2,3) have "readers s z \<noteq> []" by (auto simp: queued_def)
  then obtain y where y: "source s y = Some z" using links_unread [OF assms(1)] by blast
  with assms(5) have "(z, y) \<in> ?r" by (force simp: untouched_def)
  with min y show False by blast
qed

section \<open>What the moves are made of\<close>

text \<open>
  A move is a copy, or a copy that reads the temporary its source was saved in, or the saving of a
  destination's old value.
\<close>

definition move_of :: "copy list \<Rightarrow> move list \<Rightarrow> VarID \<Rightarrow> VarID \<Rightarrow> bool" where
  "move_of copies ms d x \<longleftrightarrow>
     (\<exists>c\<in>set copies. Dst c = d \<and>
        (Src c = x \<or> (\<exists>t\<in>set ms. Tmp t \<and> Dst t = x \<and> Src t = Src c)))"

definition made_of :: "copy list \<Rightarrow> sched \<Rightarrow> bool" where
  "made_of copies s \<longleftrightarrow>
     (\<forall>d x. source s d = Some x \<longrightarrow> move_of copies (moves s) d x) \<and>
     (\<forall>m\<in>set (moves s). if Tmp m then Src m \<in> Dst ` set copies else move_of copies (moves s) (Dst m) (Src m)) \<and>
     distinct (map Dst (filter Tmp (moves s)))"

lemma move_of_mono: "move_of copies ms d x \<Longrightarrow> move_of copies (ms @ ms') d x"
  by (auto simp: move_of_def)

lemma made_of_take:
  assumes "made_of cs s" "ready s \<noteq> []" shows "made_of cs (take_ready s)"
  using assms(2)
proof (cases s rule: take_ready_cases)
  case (emit x)
  let ?d = "hd (ready s)"
  have src: "source s ?d = Some x" and src': "source (take_ready s) = (source s)(?d := None)"
    and m: "moves (take_ready s) = moves s @ [\<lparr>Dst = ?d, Src = x, Tmp = False\<rparr>]"
    using emit by (simp_all add: emits_def)
  show ?thesis using assms(1) src move_of_mono unfolding made_of_def src' m
    by (auto split: if_splits)
qed (use assms in \<open>simp add: made_of_def source_def\<close>)

lemma made_of_break:
  assumes "links s" "on_course cs st s" "made_of cs s" "breaks t x s s'" shows "made_of cs s'"
proof -
  note b = assms(4) [unfolded breaks_def] and l = assms(1) [unfolded links_def]
  have src: "source s' d = Some y \<longleftrightarrow> (if source s d = Some x then y = t else source s d = Some y)" for d y
    using b l by auto
  have m: "moves s' = moves s @ [\<lparr>Dst = t, Src = x, Tmp = True\<rparr>]" using b by simp
  have nt: "x \<notin> temps_of (moves s)"
    using assms(2) b unfolding on_course_def by blast
  have "t \<notin> temps_of (moves s)" using assms(2) b unfolding on_course_def by blast
  then have dt: "distinct (map Dst (filter Tmp (moves s')))"
    using assms(3) by (simp add: made_of_def m temps_of_def)
  have "move_of cs (moves s') d t" if "source s d = Some x" for d
  proof -
    from that assms(3) have "move_of cs (moves s) d x" by (simp add: made_of_def)
    then show ?thesis using nt unfolding move_of_def m temps_of_def by force
  qed
  moreover have "x \<in> Dst ` set cs" using b assms(3) unfolding made_of_def move_of_def by blast
  ultimately show ?thesis using assms(3) dt move_of_mono unfolding made_of_def src m
    by (auto split: if_splits)
qed

lemma sequentialize_made_of:
  assumes "sequentializeChecked ch nextTemp cs w = (Inr ms, w')"
  shows "\<forall>m\<in>set ms. if Tmp m then Src m \<in> Dst ` set cs else move_of cs ms (Dst m) (Src m)"
    and "distinct (map Dst (filter Tmp ms))" and "temps_of ms \<inter> operands cs = {}"
proof -
  from assms(1) obtain s w1 where g: "good_copies cs" and l: "sched_loop ch nextTemp (begun cs) w1 = (Inr s, w')"
    and ms: "ms = moves s" by (rule sequentialize_Inr)
  note bg = begun_good [OF conjunct1 [OF g [unfolded good_copies_def]]]
  have "made_of cs (begun cs)" using bg(4,5) by (auto simp: made_of_def untouched_def move_of_def)
  let ?P = "\<lambda>s. links s \<and> on_course cs Map.empty s \<and> made_of cs s"
  have "?P s \<and> pending s = []"
  proof (rule sched_loop_keeps [of ?P, OF _ _ l])
    show "?P (take_ready s)" if "?P s" "ready s \<noteq> []" for s
      using that links_take on_course_take made_of_take by blast
    show "?P s'" if "?P s" "breaks t x s s'" for s s' t x
      using that links_break on_course_break made_of_break by blast
  qed (use bg(1,3) \<open>made_of cs (begun cs)\<close> in simp)
  then show "\<forall>m\<in>set ms. if Tmp m then Src m \<in> Dst ` set cs else move_of cs ms (Dst m) (Src m)"
    and "distinct (map Dst (filter Tmp ms))" and "temps_of ms \<inter> operands cs = {}"
    unfolding ms made_of_def on_course_def by blast+
qed

lemma scheduled_state:
  assumes "sequentializeChecked ch nextTemp cs w = (Inr ms, w')" and "x \<notin> temps_of ms"
  shows "read_var (SerialEval ms st) x = read_var (ParallelEval cs st) x"
proof -
  from assms(1) obtain s w1 where g: "good_copies cs"
    and l: "sched_loop ch nextTemp (begun cs) w1 = (Inr s, w')" and ms: "ms = moves s"
    by (rule sequentialize_Inr)
  from loop_right [OF _ l] g have "on_course cs st s" "pending s = []" by (auto simp: good_copies_def)
  then show ?thesis using assms(2) by (simp add: on_course_def source_def wanted_def ms)
qed

lemma temps_of_emit: "emits d x s s' \<Longrightarrow> temps_of (moves s') = temps_of (moves s)"
  by (simp add: emits_def)

lemma loop_cycle:
  assumes "distinct (map Dst cs)" and "sched_loop ch nextTemp (begun cs) w = (Inr s, w')" and "temps_of (moves s) \<noteq> {}"
  shows "\<exists>y. (y, y) \<in> {(Src c, Dst c) |c. c \<in> set cs \<and> Dst c \<noteq> Src c}\<^sup>+" (is ?cyc)
proof -
  note bg = begun_good [OF assms(1)]
  let ?P = "\<lambda>s. links s \<and> queued s \<and> (?cyc \<or> untouched cs s \<and> temps_of (moves s) = {})"
  have "?P s \<and> pending s = []"
  proof (rule sched_loop_keeps [of ?P, OF _ _ assms(2)])
    show "?P (take_ready s)" if "?P s" "ready s \<noteq> []" for s
    proof -
      have "temps_of (moves (take_ready s)) = temps_of (moves s)"
        by (rule take_ready_cases [OF that(2)]) (simp_all add: temps_of_emit)
      then show ?thesis using that links_take queued_take untouched_take by auto
    qed
    show "?P s'" if "?P s" "ready s = []" "breaks t x s s'" for s s' t x
      using that links_break queued_break stuck_cycle [of s x cs] unfolding breaks_def by blast
  qed (use bg in simp)
  then show ?thesis using assms(3) by blast
qed

lemma take_ready_temps: "ready s \<noteq> [] \<Longrightarrow> temps_of (moves (take_ready s)) = temps_of (moves s)"
  by (erule take_ready_cases) (simp_all add: temps_of_emit)

section \<open>A source of temporaries\<close>

text \<open>
  What the scheduler needs of its counter and of \<open>nextTemp\<close> to get through: \<open>avail w occ n\<close> says
  that in the state \<open>w\<close> charges pass and \<open>n\<close> more identities outside \<open>occ\<close> can be drawn.
\<close>

locale temp_source =
  fixes ch :: "'w charger" and draw :: "'w \<Rightarrow> VarID \<times> 'w" and avail :: "'w \<Rightarrow> VarID set \<Rightarrow> nat \<Rightarrow> bool"
  assumes charge_ok: "avail w occ n \<Longrightarrow> \<exists>w'. ch u w = (Inr (), w') \<and> avail w' occ n"
    and draw_ok: "avail w occ (Suc n) \<Longrightarrow> draw w = (t, w') \<Longrightarrow> 0 < t \<and> t \<notin> occ \<and> avail w' (insert t occ) n"
    and avail_less: "avail w occ (Suc n) \<Longrightarrow> avail w occ n"
begin

lemma avail_le: "avail w occ n \<Longrightarrow> m \<le> n \<Longrightarrow> avail w occ m"
  by (induction n) (auto simp: le_Suc_eq dest: avail_less)

lemma charge_each_ok: "avail w occ n \<Longrightarrow> \<exists>w'. charge_each ch ds w = (Inr (), w') \<and> avail w' occ n"
proof (induction ds arbitrary: w)
  case (Cons d ds)
  from charge_ok [OF Cons.prems, of 1] obtain w1 where "ch 1 w = (Inr (), w1)" "avail w1 occ n" by blast
  with Cons.IH show ?case by (simp add: r_bind_def)
qed (simp add: r_ret_def)

lemma scaled_ok: "avail w occ n \<Longrightarrow> \<exists>w'. chargeScaledWork ch k u w = (Inr (), w') \<and> avail w' occ n"
  using charge_ok by (auto simp: chargeScaledWork_def)

lemma scan_ok:
  "avail w occ n \<Longrightarrow> good_copies cs \<Longrightarrow> ds \<inter> Dst ` set cs = {} \<Longrightarrow>
   \<exists>w'. scan_copies ch cs ds s w = (Inr (fold add_copy cs s), w') \<and> avail w' occ n"
proof (induction cs arbitrary: ds s w)
  case (Cons c cs)
  from charge_ok [OF Cons.prems(1), of 1] obtain w1 where "ch 1 w = (Inr (), w1)" "avail w1 occ n" by blast
  moreover from Cons.prems have "good_copies cs" "insert (Dst c) ds \<inter> Dst ` set cs = {}"
    "0 < Dst c" "0 < Src c" "Dst c \<notin> ds" by (auto simp: good_copies_def)
  ultimately show ?case using Cons.IH by (simp add: r_bind_def)
qed (simp add: r_ret_def)

lemma drain_ok: "avail w (A \<union> occupied s) n \<Longrightarrow> \<exists>s' w'. drain ch s w = (Inr s', w') \<and> avail w' (A \<union> occupied s') n"
proof (induction "2 * length (pending s) + length (ready s)" arbitrary: s w rule: less_induct)
  case less
  show ?case
  proof (cases "ready s = []")
    case False
    from charge_ok [OF less.prems, of 1] obtain w1 where w1: "ch 1 w = (Inr (), w1)" "avail w1 (A \<union> occupied s) n" by blast
    have "occupied (take_ready s) = occupied s"
      by (rule take_ready_cases [OF False]) (simp_all add: emits_def)
    with less.hyps [OF take_ready_decreases [OF False], of w1] w1 show ?thesis
      by (simp add: drain.simps [of ch s] False r_bind_def)
  qed (use less.prems in \<open>auto simp: drain.simps [of ch s] r_ret_def\<close>)
qed

definition fit :: "VarID set \<Rightarrow> sched \<Rightarrow> bool" where
  "fit A s \<longleftrightarrow> links s \<and> queued s \<and> (\<forall>d\<in>set (all_ids s). 0 < d) \<and> temps_of (moves s) \<inter> A = {}"

lemma fit_take: "fit A s \<Longrightarrow> ready s \<noteq> [] \<Longrightarrow> fit A (take_ready s)"
  by (simp add: fit_def links_take queued_take take_ready_temps)

lemma break_ok:
  assumes "fit A s" "ready s = []" "pending s \<noteq> []" "avail w (A \<union> occupied s) (length (all_ids s))"
  shows "\<exists>s' w'. break_cycle ch (Some draw) s w = (Inr s', w') \<and> fit A s' \<and>
    length (all_ids s') < length (all_ids s) \<and> avail w' (A \<union> occupied s') (length (all_ids s'))"
proof -
  obtain x h where v: "find_victim (pending s) (all_ids s) = (x, h)" by (cases "find_victim (pending s) (all_ids s)")
  obtain d y where "source s d = Some y" using assms(3) source_none [of s] by (metis not_Some_eq)
  with assms(1,2) have "d \<in> set (all_ids s)" "map_of (pending s) d \<noteq> None" by (auto simp: fit_def queued_def source_def)
  with find_victim_none [of "pending s" "all_ids s" h] v assms(1) have x: "x \<noteq> 0" by (auto simp: fit_def)
  have hl: "length h < length (all_ids s)" by (rule find_victim_shrinks [OF v x])
  obtain t w1 where t: "draw w = (t, w1)" by (cases "draw w")
  have "avail w (A \<union> occupied s) (Suc (length h))" using avail_le [OF assms(4)] hl by simp
  from draw_ok [OF this t] have t': "0 < t" "t \<notin> occupied s" "t \<notin> A" "avail w1 (A \<union> insert t (occupied s)) (length h)" by simp_all
  obtain w2 where w2: "charge_each ch (readers s x) w1 = (Inr (), w2)" "avail w2 (A \<union> insert t (occupied s)) (length h)"
    using charge_each_ok [OF t'(4)] by blast
  let ?s = "redirect t x (s\<lparr>all_ids := h\<rparr>)"
  have run: "break_cycle ch (Some draw) s w = (Inr ?s, w2)"
    using v x t t' w2 by (auto simp: break_cycle_Inr)
  have al: "all_ids ?s = h" and oc: "occupied ?s = insert t (occupied s)" by (simp_all add: redirect_def Let_def)
  obtain t1 x1 where b: "breaks t1 x1 s ?s" by (rule break_cycle_breaks [OF run])
  have "set h \<subseteq> set (all_ids s)" using v x by (rule find_victim_sub)
  moreover have "moves ?s = moves s @ [\<lparr>Dst = t, Src = x, Tmp = True\<rparr>]" by (simp add: redirect_def Let_def)
  ultimately have "fit A ?s" using b assms(1) t'(3) links_break queued_break unfolding fit_def al by auto
  with run hl w2(2) al oc show ?thesis by (intro exI [of _ ?s] exI [of _ w2]) simp
qed

lemma loop_ok:
  "fit A s \<Longrightarrow> avail w (A \<union> occupied s) (length (all_ids s)) \<Longrightarrow>
   \<exists>s' w'. sched_loop ch (Some draw) s w = (Inr s', w') \<and> avail w' (A \<union> occupied s') 0 \<and> temps_of (moves s') \<inter> A = {}"
proof (induction "length (all_ids s)" arbitrary: s w rule: less_induct)
  case less
  show ?case
  proof (cases "pending s = []")
    case False
    from charge_ok [OF less.prems(2), of 1] obtain w1
      where w1: "ch 1 w = (Inr (), w1)" "avail w1 (A \<union> occupied s) (length (all_ids s))" by blast
    from drain_ok [OF w1(2)] obtain s2 w2
      where d: "drain ch s w1 = (Inr s2, w2)" "avail w2 (A \<union> occupied s2) (length (all_ids s))" by blast
    note s2 = drain_all [OF d(1)] drain_keeps [of "fit A", OF fit_take d(1) less.prems(1)]
    show ?thesis
    proof (cases "pending s2 = []")
      case True
      then have "sched_round ch (Some draw) s w = (Inr s2, w2)"
        by (simp add: sched_round_def r_bind_def w1(1) d(1) r_ret_def)
      then show ?thesis using True avail_le [OF d(2)] s2
        by (simp add: fit_def sched_loop.simps [of ch _ s] False r_bind_def sched_loop.simps [of ch _ s2] r_ret_def)
    next
      case nonempty: False
      from break_ok [of A s2 w2] s2 nonempty d(2) obtain s3 w3
        where b: "break_cycle ch (Some draw) s2 w2 = (Inr s3, w3)" "fit A s3"
          "length (all_ids s3) < length (all_ids s)" "avail w3 (A \<union> occupied s3) (length (all_ids s3))" by auto
      then have "sched_round ch (Some draw) s w = (Inr s3, w3)"
        by (simp add: sched_round_def r_bind_def w1(1) d(1) nonempty)
      with less.hyps [OF b(3,2,4)] show ?thesis
        by (simp add: sched_loop.simps [of ch _ s] False r_bind_def)
    qed
  qed (use avail_le [OF less.prems(2)] less.prems(1) in \<open>simp add: fit_def sched_loop.simps [of ch _ s] r_ret_def\<close>)
qed

lemma sequentialize_ok:
  assumes "good_copies cs" and "avail w (A \<union> operands cs) (length cs)"
  shows "\<exists>ms w' occ. sequentializeChecked ch (Some draw) cs w = (Inr ms, w') \<and> avail w' occ 0 \<and> temps_of ms \<inter> A = {}"
proof -
  have dist: "distinct (map Dst cs)" and pos: "\<forall>d\<in>Dst ` set cs. 0 < d" using assms(1) by (auto simp: good_copies_def)
  note g = begun_good [OF dist]
  from scaled_ok [OF assms(2)] obtain w1
    where w1: "chargeScaledWork ch (slen cs) 4 w = (Inr (), w1)" "avail w1 (A \<union> operands cs) (length cs)" by blast
  from scan_ok [OF w1(2) assms(1), of "{}" no_sched] obtain w2
    where w2: "scan_copies ch cs {} no_sched w1 = (Inr (fold add_copy cs no_sched), w2)"
      "avail w2 (A \<union> operands cs) (length cs)" by auto
  from scaled_ok [OF w2(2)] obtain w3
    where w3: "chargeScaledWork ch (slen (pending (fold add_copy cs no_sched))) 2 w2 = (Inr (), w3)"
      "avail w3 (A \<union> operands cs) (length cs)" by blast
  have "fit A (begun cs)" using g pos by (auto simp: fit_def)
  moreover have "avail w3 (A \<union> occupied (begun cs)) (length (all_ids (begun cs)))"
    using avail_le [OF w3(2) g(7)] g(6) by simp
  ultimately obtain s w4 where "sched_loop ch (Some draw) (begun cs) w3 = (Inr s, w4)"
    and "avail w4 (A \<union> occupied s) 0" "temps_of (moves s) \<inter> A = {}" using loop_ok by blast
  then show ?thesis unfolding sequentializeChecked_def
    by (auto simp: w1(1) w2(1) w3(1) begun_def r_bind_def r_ret_def)
qed

end

section \<open>What the counter and the temporaries leave alone\<close>

locale kept_runs =
  fixes P :: "'w \<Rightarrow> bool" and ch :: "'w charger" and nextTemp :: "('w \<Rightarrow> VarID \<times> 'w) option"
  assumes ch: "kept P (ch u)" and nx: "nextTemp = Some draw \<Longrightarrow> P w \<Longrightarrow> P (snd (draw w))"
begin

lemma scaled_kept: "kept P (chargeScaledWork ch n u)"
  using ch by (simp add: chargeScaledWork_def)

lemma scan_kept: "kept P (scan_copies ch cs ds s)"
  by (induction cs arbitrary: ds s) (auto intro!: kept_bind ch)

lemma drain_kept: "kept P (drain ch s)"
proof (induction "2 * length (pending s) + length (ready s)" arbitrary: s rule: less_induct)
  case less
  show ?case using less.hyps [OF take_ready_decreases]
    by (cases "ready s = []") (auto simp: drain.simps [of ch s] intro!: kept_bind ch)
qed

lemma each_kept: "kept P (charge_each ch ds)"
  by (induction ds) (auto intro!: kept_bind ch)

lemma break_kept: "kept P (break_cycle ch nextTemp s)"
proof -
  obtain x h where v: "find_victim (pending s) (all_ids s) = (x, h)" by (cases "find_victim (pending s) (all_ids s)")
  have body: "P (snd (r_bind (charge_each ch ds) (\<lambda>_. r_ret a) w))" if "P w"
    for ds :: "VarID list" and a :: sched and w
    using kept_bind [OF each_kept kept_simps(1), of ds "\<lambda>_. a"] that by (simp add: kept_def)
  show ?thesis
  proof (cases nextTemp)
    case (Some draw)
    have "P (snd ((case draw w of (tmp, w) \<Rightarrow> (if tmp \<le> 0 \<or> tmp \<in> occ then r_fail e
        else r_bind (charge_each ch ds) (\<lambda>_. r_ret (f tmp))) w)))" if "P w"
      for w occ e and ds :: "VarID list" and f :: "VarID \<Rightarrow> sched"
      using nx [OF Some that] body by (cases "draw w") (simp add: r_fail_def)
    then show ?thesis by (simp add: break_cycle_def v Some Let_def kept_def r_fail_def)
  qed (simp add: break_cycle_def v)
qed

lemma round_kept: "kept P (sched_round ch nextTemp s)"
  unfolding sched_round_def by (auto intro!: kept_bind ch drain_kept break_kept)

lemma loop_kept: "P w \<Longrightarrow> P (snd (sched_loop ch nextTemp s w))"
proof (induction "if pending s = [] then 0 else Suc (length (all_ids s))" arbitrary: s w rule: less_induct)
  case less
  show ?case
  proof (cases "pending s = []")
    case False
    have r: "P (snd (sched_round ch nextTemp s w))" using round_kept less.prems by (simp add: kept_def)
    have "P (snd (sched_loop ch nextTemp s' w'))" if "sched_round ch nextTemp s w = (Inr s', w')" for s' w'
      using less.hyps [of s' w'] sched_round_decreases [OF that] r that False by auto
    then show ?thesis using False r
      by (auto simp: sched_loop.simps [of ch nextTemp s] r_bind_def split: prod.splits sum.splits)
  qed (use less.prems in \<open>simp add: sched_loop.simps [of ch nextTemp s] r_ret_def\<close>)
qed

lemma sequentialize_kept: "kept P (sequentializeChecked ch nextTemp cs)"
proof -
  have "kept P (sched_loop ch nextTemp s)" for s using loop_kept by (simp add: kept_def)
  then show ?thesis unfolding sequentializeChecked_def by (auto intro!: kept_bind scaled_kept scan_kept)
qed

end

section \<open>Properties of the copy scheduler\<close>

text \<open>C9: parallel copies that are scheduled keep their meaning: run one after the other, the moves
  leave in every variable that is not a temporary what copying all at once would, from any state,
  and no temporary is an operand of a copy.\<close>

theorem sequentializeChecked_parallel:
  assumes "sequentializeChecked ch nextTemp copies w = (Inr ms, w')" and "set xs \<inter> temps_of ms = {}"
  shows "StatesEqual (SerialEval ms st) (ParallelEval copies st) xs \<and> temps_of ms \<inter> operands copies = {}"
  using scheduled_state [OF assms(1)] sequentialize_made_of(3) [OF assms(1)] assms(2)
  by (auto simp: StatesEqual_def list_all_iff)

definition free_charge :: "int charger" where
  "free_charge u = r_ret ()"

definition count_up :: "int \<Rightarrow> VarID \<times> int" where
  "count_up n = (n, n + 1)"

definition swap_and_copy :: "copy list" where
  "swap_and_copy = [\<lparr>Dst = 1, Src = 2\<rparr>, \<lparr>Dst = 2, Src = 1\<rparr>, \<lparr>Dst = 3, Src = 1\<rparr>]"

lemma swap_schedule:
  "sequentializeChecked free_charge (Some count_up) swap_and_copy 9 =
     (Inr [\<lparr>Dst = 3, Src = 1, Tmp = False\<rparr>, \<lparr>Dst = 9, Src = 1, Tmp = True\<rparr>,
           \<lparr>Dst = 1, Src = 2, Tmp = False\<rparr>, \<lparr>Dst = 2, Src = 9, Tmp = False\<rparr>], 10)"
  by code_simp

theorem sequentializeChecked_parallel_witness:
  "StatesEqual (SerialEval [\<lparr>Dst = 3, Src = 1, Tmp = False\<rparr>, \<lparr>Dst = 9, Src = 1, Tmp = True\<rparr>,
       \<lparr>Dst = 1, Src = 2, Tmp = False\<rparr>, \<lparr>Dst = 2, Src = 9, Tmp = False\<rparr>] [1 \<mapsto> 7, 2 \<mapsto> 8])
     (ParallelEval swap_and_copy [1 \<mapsto> 7, 2 \<mapsto> 8]) [1, 2, 3]"
  by (rule conjunct1 [OF sequentializeChecked_parallel [OF swap_schedule]]) (simp add: temps_of_def)

text \<open>C23: a temporary is taken only for a cycle: when the moves have one, some value reaches itself
  through copies that are not self copies.\<close>

theorem temporary_needs_cycle:
  assumes "sequentializeChecked ch nextTemp copies w = (Inr ms, w')" and "temps_of ms \<noteq> {}"
  shows "\<exists>y. (y, y) \<in> {(Src c, Dst c) |c. c \<in> set copies \<and> Dst c \<noteq> Src c}\<^sup>+"
proof -
  from assms(1) obtain s w1 where "good_copies copies"
    and "sched_loop ch nextTemp (begun copies) w1 = (Inr s, w')" and "ms = moves s"
    by (rule sequentialize_Inr)
  then show ?thesis using loop_cycle [of copies ch nextTemp w1 s w'] assms(2) by (simp add: good_copies_def)
qed

theorem temporary_needs_cycle_witness:
  "\<exists>y. (y, y) \<in> {(Src c, Dst c) |c. c \<in> set swap_and_copy \<and> Dst c \<noteq> Src c}\<^sup>+"
  by (rule temporary_needs_cycle [OF swap_schedule]) (simp add: temps_of_def)

end
