(* ===== verification/SsaRegistry.thy ===== *)
theory SsaRegistry
  imports CopyOrder SsaOrigins "HOL-Library.List_Lexorder"
begin

text \<open>
  \<open>core/ssalower/identity.go\<close>: the identities that lowering gives to the values of a method. A key
  names a value by its structure, an alias sends the use of a phi to its definition, and a registry
  numbers the keys that are not aliases. As in the copy scheduler, the counter is an argument \<open>ch\<close>
  that charges a state of its own. A Go map that is iterated is the list of its entries.
\<close>

section \<open>Keys\<close>

record ValueKey =
  K_Domain :: int
  K_Kind :: int
  K_PC :: int
  K_Slot :: int
  K_Aux :: int

definition origin_value_key :: "Origin \<Rightarrow> ValueKey" where
  "origin_value_key o' =
     \<lparr>K_Domain = 0, K_Kind = origin_kind_no (O_Kind o'), K_PC = uint (O_PC o'), K_Slot = O_Slot o', K_Aux = O_Aux o'\<rparr>"

definition PhiKey :: "Phi \<Rightarrow> ValueKey" where
  "PhiKey p = \<lparr>K_Domain = 1, K_Kind = 0, K_PC = 0, K_Slot = 0, K_Aux = uint (P_ID p)\<rparr>"

definition key_order :: "ValueKey \<Rightarrow> int list" where
  "key_order k = [K_Domain k, K_Kind k, K_PC k, K_Slot k, K_Aux k]"

record ValueInfo =
  I_Type :: ftype
  I_Width :: int
  I_Origin :: Origin
  Temporary :: bool
  I_Source :: VarID

record ValueRegistry =
  ids :: "ValueKey \<rightharpoonup> VarID"
  Info :: "VarID \<rightharpoonup> ValueInfo"
  next_id :: VarID
  temps :: int

section \<open>Numbering the keys\<close>

text \<open>The alias loop: how many more hops are allowed.\<close>

fun canonical_loop :: "'w charger \<Rightarrow> (ValueKey \<times> ValueKey) list \<Rightarrow> nat \<Rightarrow> ValueKey \<Rightarrow> ('w, ValueKey) run" where
  "canonical_loop ch aliases 0 k = r_bind (ch 1) (\<lambda>_. r_fail ''invalid_input: value alias cycle at %+v'')"
| "canonical_loop ch aliases (Suc n) k =
     r_bind (ch 1) (\<lambda>_.
       case map_of aliases k of None \<Rightarrow> r_ret k | Some k' \<Rightarrow> canonical_loop ch aliases n k')"

definition canonical_key :: "'w charger \<Rightarrow> (ValueKey \<times> ValueKey) list \<Rightarrow> ValueKey \<Rightarrow> ('w, ValueKey) run" where
  "canonical_key ch aliases k = canonical_loop ch aliases (Suc (length aliases)) k"

fun key_set :: "'w charger \<Rightarrow> (ValueKey \<times> ValueKey) list \<Rightarrow> ValueKey list \<Rightarrow> ValueKey list \<Rightarrow> ('w, ValueKey list) run" where
  "key_set ch aliases [] acc = r_ret acc"
| "key_set ch aliases (k # ks) acc =
     r_bind (ch 1) (\<lambda>_. r_bind (canonical_key ch aliases k) (\<lambda>c. key_set ch aliases ks (List.insert c acc)))"

fun number_keys :: "'w charger \<Rightarrow> ValueKey list \<Rightarrow> ValueRegistry \<Rightarrow> ('w, ValueRegistry) run" where
  "number_keys ch [] r = r_ret r"
| "number_keys ch (k # ks) r =
     r_bind (ch 1) (\<lambda>_. number_keys ch ks (r\<lparr>ids := (ids r)(k \<mapsto> next_id r), next_id := next_id r + 1\<rparr>))"

text \<open>A key that is missing in a Go map reads as 0.\<close>

definition id_or_zero :: "ValueRegistry \<Rightarrow> ValueKey \<Rightarrow> VarID" where
  "id_or_zero r k = (case ids r k of None \<Rightarrow> 0 | Some x \<Rightarrow> x)"

fun alias_keys :: "'w charger \<Rightarrow> (ValueKey \<times> ValueKey) list \<Rightarrow> ValueKey list \<Rightarrow> ValueRegistry \<Rightarrow> ('w, ValueRegistry) run" where
  "alias_keys ch aliases [] r = r_ret r"
| "alias_keys ch aliases (k # ks) r =
     r_bind (ch 1) (\<lambda>_. r_bind (canonical_key ch aliases k) (\<lambda>c.
       alias_keys ch aliases ks (r\<lparr>ids := (ids r)(k \<mapsto> id_or_zero r c)\<rparr>)))"

definition all_keys :: "ValueKey list \<Rightarrow> (ValueKey \<times> ValueKey) list \<Rightarrow> ValueKey list" where
  "all_keys keys aliases = keys @ concat (map (\<lambda>(a, b). [a, b]) aliases)"

definition newValueRegistry ::
    "'w charger \<Rightarrow> ValueKey list \<Rightarrow> (ValueKey \<times> ValueKey) list \<Rightarrow> ('w, ValueRegistry) run" where
  "newValueRegistry ch keys aliases =
     (let keyCount = word_of_int (slen keys); aliasCount = word_of_int (slen aliases) in
      if aliasCount > (- 1 - keyCount) div (2 :: u64)
      then r_bind (ch (- 1)) (\<lambda>_. r_fail ''analysis_budget_exceeded: value registry work overflow'')
      else
        r_bind (ch (keyCount + 2 * aliasCount)) (\<lambda>_.
          let all = all_keys keys aliases in
          r_bind (key_set ch aliases all []) (\<lambda>ks.
            r_bind (ch (word_of_int (slen ks))) (\<lambda>_.
              r_bind (ch (sortWork (slen ks))) (\<lambda>_.
                let sorted = sort_key key_order ks in
                r_bind (chargeScaledWork ch (slen sorted) 2) (\<lambda>_.
                  r_bind (number_keys ch sorted \<lparr>ids = Map.empty, Info = Map.empty, next_id = 1, temps = 0\<rparr>) (\<lambda>r.
                    alias_keys ch aliases all r)))))))"

definition Lookup :: "ValueRegistry option \<Rightarrow> ValueKey \<Rightarrow> ssa_error + VarID" where
  "Lookup r k =
     (case r of
        None \<Rightarrow> Inl ''invalid_input: nil value registry''
      | Some r \<Rightarrow>
          (case ids r k of None \<Rightarrow> Inl ''invalid_input: unregistered value %+v'' | Some x \<Rightarrow> Inr x))"

definition OriginID :: "ValueRegistry option \<Rightarrow> Origin \<Rightarrow> ssa_error + VarID" where
  "OriginID r o' = Lookup r (origin_value_key o')"

definition PhiID :: "ValueRegistry option \<Rightarrow> Phi \<Rightarrow> ssa_error + VarID" where
  "PhiID r p = Lookup r (PhiKey p)"

definition Fresh :: "(ValueRegistry, VarID) run" where
  "Fresh r =
     (if next_id r \<le> 0 \<or> next_id r = max_int64 then (Inl ''unsupported: value identity exhausted'', r)
      else (Inr (next_id r), r\<lparr>next_id := next_id r + 1, temps := temps r + 1\<rparr>))"

section \<open>The keys of a function\<close>

record key_scan =
  s_keys :: "ValueKey list"
  s_aliases :: "(ValueKey \<times> ValueKey) list"
  s_types :: "ValueKey \<rightharpoonup> ValueInfo"
  s_seen :: "ValueID set"

definition no_origin :: Origin where
  "no_origin = \<lparr>O_Kind = OriginTop, O_PC = 0, O_Slot = 0, O_Aux = 0\<rparr>"

definition value_info :: "ftype \<Rightarrow> Origin \<Rightarrow> ValueInfo" where
  "value_info t o' = \<lparr>I_Type = DropValue t, I_Width = int (TypeWidth t), I_Origin = o', Temporary = False, I_Source = 0\<rparr>"

definition add_key :: "ValueKey \<Rightarrow> key_scan \<Rightarrow> key_scan" where
  "add_key k s = s\<lparr>s_keys := s_keys s @ [k]\<rparr>"

definition register_value :: "'w charger \<Rightarrow> Origin \<Rightarrow> ftype \<Rightarrow> key_scan \<Rightarrow> ('w, key_scan) run" where
  "register_value ch o' t s =
     r_bind (ch 1) (\<lambda>_.
       if \<not> Computational t then r_ret s
       else let k = origin_value_key o' in
         r_ret ((add_key k s)\<lparr>s_types := (s_types s)(k \<mapsto> value_info t o')\<rparr>))"

text \<open>The slots of a frame, the locals and then the stack, with the origins there are.\<close>

fun register_slots :: "'w charger \<Rightarrow> ftype list \<Rightarrow> Origin list \<Rightarrow> key_scan \<Rightarrow> ('w, key_scan) run" where
  "register_slots ch [] os s = r_ret s"
| "register_slots ch (t # ts) [] s = r_bind (ch 1) (\<lambda>_. register_slots ch ts [] s)"
| "register_slots ch (t # ts) (o' # os) s = r_bind (register_value ch o' t s) (register_slots ch ts os)"

fun register_blocks :: "'w charger \<Rightarrow> BlockFrame list \<Rightarrow> key_scan \<Rightarrow> ('w, key_scan) run" where
  "register_blocks ch [] s = r_ret s"
| "register_blocks ch (b # bs) s =
     r_bind (ch 1) (\<lambda>_.
       r_bind (register_slots ch (frame_slots (BF_In b)) (InOrig b) s) (\<lambda>s.
         r_bind (register_slots ch (frame_slots (BF_Out b)) (OutOrig b) s) (register_blocks ch bs)))"

fun register_edges :: "'w charger \<Rightarrow> EdgeState list \<Rightarrow> key_scan \<Rightarrow> ('w, key_scan) run" where
  "register_edges ch [] s = r_ret s"
| "register_edges ch (e # es) s =
     r_bind (ch 1) (\<lambda>_.
       r_bind (register_slots ch (frame_slots (ES_Frame e)) (ES_Origins e) s) (register_edges ch es))"

fun add_origins :: "'w charger \<Rightarrow> Origin list \<Rightarrow> key_scan \<Rightarrow> ('w, key_scan) run" where
  "add_origins ch [] s = r_ret s"
| "add_origins ch (o' # os) s =
     r_bind (ch 1) (\<lambda>_. add_origins ch os (if O_Kind o' \<noteq> OriginTop then add_key (origin_value_key o') s else s))"

fun register_instrs :: "'w charger \<Rightarrow> InstructionValues list \<Rightarrow> key_scan \<Rightarrow> ('w, key_scan) run" where
  "register_instrs ch [] s = r_ret s"
| "register_instrs ch (i # is) s =
     r_bind (ch 1) (\<lambda>_.
       r_bind (register_slots ch (frame_slots (Before i)) (BeforeOrigins i) s) (\<lambda>s.
         r_bind (add_origins ch (Uses i) s) (\<lambda>s.
           r_bind (add_origins ch (Results i) s) (register_instrs ch is))))"

text \<open>The operands of a phi: their metadata is taken where the origin has none yet.\<close>

fun phi_operands :: "'w charger \<Rightarrow> Phi \<Rightarrow> PhiOperand list \<Rightarrow> key_scan \<Rightarrow> ('w, key_scan) run" where
  "phi_operands ch p [] s = r_ret s"
| "phi_operands ch p (op # ops) s =
     r_bind (ch 1) (\<lambda>_.
       if O_Kind (PO_Origin op) = OriginTop then r_fail ''invalid_input: phi %d has top operand''
       else
         let k = origin_value_key (PO_Origin op); s = add_key k s in
         phi_operands ch p ops
           (if s_types s k = None then s\<lparr>s_types := (s_types s)(k \<mapsto> value_info (P_Type p) (PO_Origin op))\<rparr> else s))"

text \<open>The flat slot of a phi in the frame of its block, \<open>None\<close> out of bounds.\<close>

definition phi_slot :: "Phi \<Rightarrow> BlockFrame \<Rightarrow> int option" where
  "phi_slot p b =
     (let i = S_Index (P_Slot p);
          (flat, n) = (if S_Local (P_Slot p) then (i, slen (Locals (BF_In b)))
                       else (i + slen (Locals (BF_In b)), slen (Stack (BF_In b))))
      in if i < 0 \<or> i \<ge> n then None else Some flat)"

definition phi_use_key :: "BlockFrame \<Rightarrow> int \<Rightarrow> ValueKey" where
  "phi_use_key b flat =
     origin_value_key \<lparr>O_Kind = OriginPhi, O_PC = First b, O_Slot = flat, O_Aux = uint (BF_ID b)\<rparr>"

definition register_phi :: "'w charger \<Rightarrow> BlockFrame list \<Rightarrow> Phi \<Rightarrow> key_scan \<Rightarrow> ('w, key_scan) run" where
  "register_phi ch blocks p s =
     r_bind (ch 1) (\<lambda>_.
       if P_ID p = 0 \<or> P_ID p \<in> s_seen s \<or> \<not> Computational (P_Type p)
       then r_fail ''invalid_input: duplicate/invalid logical phi %d''
       else
         let s = s\<lparr>s_seen := insert (P_ID p) (s_seen s)\<rparr> in
         case find (\<lambda>b. BF_ID b = P_Block p) blocks of
           None \<Rightarrow> r_fail ''invalid_input: phi block missing''
         | Some b \<Rightarrow>
             (case phi_slot p b of
                None \<Rightarrow> r_fail ''invalid_input: phi %d slot out of bounds''
              | Some flat \<Rightarrow>
                  let use = phi_use_key b flat in
                  if map_of (s_aliases s) use \<noteq> None then r_fail ''invalid_input: duplicate phi slot''
                  else
                    phi_operands ch p (Operands p)
                      ((add_key (PhiKey p) s)\<lparr>s_aliases := AList.update use (PhiKey p) (s_aliases s),
                         s_types := (s_types s)(PhiKey p \<mapsto> value_info (P_Type p) no_origin)\<rparr>)))"

fun register_phis :: "'w charger \<Rightarrow> BlockFrame list \<Rightarrow> Phi list \<Rightarrow> key_scan \<Rightarrow> ('w, key_scan) run" where
  "register_phis ch blocks [] s = r_ret s"
| "register_phis ch blocks (p # ps) s = r_bind (register_phi ch blocks p s) (register_phis ch blocks ps)"

fun check_phi_uses :: "'w charger \<Rightarrow> (ValueKey \<times> ValueKey) list \<Rightarrow> ValueKey list \<Rightarrow> ('w, unit) run" where
  "check_phi_uses ch aliases [] = r_ret ()"
| "check_phi_uses ch aliases (k # ks) =
     r_bind (ch 1) (\<lambda>_.
       if K_Domain k = 0 \<and> K_Kind k = origin_kind_no OriginPhi \<and> map_of aliases k = None
       then r_fail ''invalid_input: phi use has no definition %+v''
       else check_phi_uses ch aliases ks)"

fun fill_info :: "'w charger \<Rightarrow> (ValueKey \<rightharpoonup> ValueInfo) \<Rightarrow> ValueKey list \<Rightarrow> ValueRegistry \<Rightarrow> ('w, ValueRegistry) run" where
  "fill_info ch types [] r = r_ret r"
| "fill_info ch types (k # ks) r =
     r_bind (ch 1) (\<lambda>_.
       fill_info ch types ks
         (case types k of None \<Rightarrow> r | Some info \<Rightarrow> r\<lparr>Info := (Info r)(id_or_zero r k \<mapsto> info)\<rparr>))"

definition no_info :: ValueInfo where
  "no_info = \<lparr>I_Type = T TopK, I_Width = 0, I_Origin = no_origin, Temporary = False, I_Source = 0\<rparr>"

fun fill_phis :: "'w charger \<Rightarrow> (ValueKey \<rightharpoonup> ValueInfo) \<Rightarrow> Phi list \<Rightarrow> ValueRegistry \<Rightarrow> ('w, ValueRegistry) run" where
  "fill_phis ch types [] r = r_ret r"
| "fill_phis ch types (p # ps) r =
     r_bind (ch 1) (\<lambda>_.
       fill_phis ch types ps
         (r\<lparr>Info := (Info r)(id_or_zero r (PhiKey p) \<mapsto>
            (case types (PhiKey p) of None \<Rightarrow> no_info | Some i \<Rightarrow> i))\<rparr>))"

text \<open>The edge states come in the order in which the Go map yields them.\<close>

definition registryForWithCounter :: "'w charger \<Rightarrow> ssa_fun \<Rightarrow> EdgeState list \<Rightarrow> ('w, ValueRegistry) run" where
  "registryForWithCounter ch fn edge_states =
     (let s = \<lparr>s_keys = [], s_aliases = [], s_types = Map.empty, s_seen = {}\<rparr> in
      r_bind (register_blocks ch (F_Blocks fn) s) (\<lambda>s.
        r_bind (register_edges ch edge_states s) (\<lambda>s.
          r_bind (register_instrs ch (Instructions fn) s) (\<lambda>s.
            r_bind (ch (word_of_int (slen (F_Blocks fn)))) (\<lambda>_.
              r_bind (charge_each ch (F_Blocks fn)) (\<lambda>_.
                r_bind (register_phis ch (F_Blocks fn) (Phis fn) s) (\<lambda>s.
                  r_bind (check_phi_uses ch (s_aliases s) (s_keys s)) (\<lambda>_.
                    r_bind (newValueRegistry ch (s_keys s) (s_aliases s)) (\<lambda>r.
                      r_bind (fill_info ch (s_types s) (s_keys s) r) (\<lambda>r.
                        fill_phis ch (s_types s) (Phis fn) r))))))))))"

section \<open>Copies between registered values\<close>

definition compatible :: "ftype \<Rightarrow> ftype \<Rightarrow> bool" where
  "compatible d s =
     (if Kind d = UninitNewK then TypeEqual (DropValue d) (DropValue s)
      else Kind d = Kind s \<or> Kind d = RefK \<and> Kind s = NullK)"

definition copy_typed :: "ValueRegistry \<Rightarrow> copy \<Rightarrow> ssa_error option" where
  "copy_typed r c =
     (case (Info r (Dst c), Info r (Src c)) of
        (Some d, Some s) \<Rightarrow>
          if \<not> Computational (I_Type d) \<or> \<not> Computational (I_Type s) \<or> I_Width d \<noteq> int (TypeWidth (I_Type d)) \<or>
             I_Width s \<noteq> int (TypeWidth (I_Type s)) \<or> I_Width d \<noteq> I_Width s
          then Some ''invalid_input: copy %d <- %d lacks compatible logical widths''
          else if \<not> compatible (I_Type d) (I_Type s)
          then Some ''invalid_input: copy %d <- %d changes computational category or uninitialized identity''
          else None
      | _ \<Rightarrow> Some ''invalid_input: copy %d <- %d lacks compatible logical widths'')"

fun check_copies :: "'c charger \<Rightarrow> ValueRegistry \<Rightarrow> copy list \<Rightarrow> ('c, unit) run" where
  "check_copies ch r [] = r_ret ()"
| "check_copies ch r (c # cs) =
     r_bind (ch 1) (\<lambda>_. case copy_typed r c of Some e \<Rightarrow> r_fail e | None \<Rightarrow> check_copies ch r cs)"

text \<open>While a packet is scheduled, the error of the last failed \<open>Fresh\<close> is kept beside the registry.\<close>

type_synonym 'c seq_state = "ValueRegistry \<times> ssa_error option \<times> 'c"

definition seq_charge :: "'c charger \<Rightarrow> ('c seq_state) charger" where
  "seq_charge ch u w = (case w of (r, e, c) \<Rightarrow> (case ch u c of (res, c') \<Rightarrow> (res, r, e, c')))"

definition seq_fresh :: "'c seq_state \<Rightarrow> VarID \<times> 'c seq_state" where
  "seq_fresh w =
     (case w of (r, e, c) \<Rightarrow>
        (case Fresh r of (Inl err, r') \<Rightarrow> (0, r', Some err, c) | (Inr x, r') \<Rightarrow> (x, r', e, c)))"

fun tag_temps :: "'c charger \<Rightarrow> move list \<Rightarrow> (ValueRegistry \<times> 'c, unit) run" where
  "tag_temps ch [] w = (Inr (), w)"
| "tag_temps ch (m # ms) (r, c) =
     (case ch 1 c of
        (Inl e, c') \<Rightarrow> (Inl e, r, c')
      | (Inr _, c') \<Rightarrow>
          if Tmp m then
            (case Info r (Src m) of
               None \<Rightarrow> (Inl ''invalid_input: temporary source %d lacks logical type'', r, c')
             | Some info \<Rightarrow>
                 if I_Width info = 0 then (Inl ''invalid_input: temporary source %d lacks logical type'', r, c')
                 else tag_temps ch ms
                   (r\<lparr>Info := (Info r)(Dst m \<mapsto> info\<lparr>Temporary := True, I_Source := Src m\<rparr>)\<rparr>, c'))
          else tag_temps ch ms (r, c'))"

definition sequentializeWithCounter :: "'c charger \<Rightarrow> copy list \<Rightarrow> (ValueRegistry \<times> 'c, move list) run" where
  "sequentializeWithCounter ch copies w =
     (case w of (r, c) \<Rightarrow>
        (case check_copies ch r copies c of
           (Inl e, c) \<Rightarrow> (Inl e, r, c)
         | (Inr _, c) \<Rightarrow>
             (case sequentializeChecked (seq_charge ch) (Some seq_fresh) copies (r, None, c) of
                (res, r, freshErr, c) \<Rightarrow>
                  (case freshErr of
                     Some e \<Rightarrow> (Inl e, r, c)
                   | None \<Rightarrow>
                       (case res of
                          Inl e \<Rightarrow> (Inl e, r, c)
                        | Inr ms \<Rightarrow> r_bind (tag_temps ch ms) (\<lambda>_. r_ret ms) (r, c))))))"

end
