(* ===== verification/RegistryProps.thy ===== *)
theory RegistryProps
  imports SsaRegistry
begin

text \<open>
  What lowering relies on: a registry gives two keys one identity exactly when they stand for one
  value, a phi and its uses share theirs, and a packet of typed copies is always scheduled, with
  moves between values of one category.
\<close>

section \<open>Aliases\<close>

definition resolves :: "(ValueKey \<times> ValueKey) list \<Rightarrow> ValueKey \<Rightarrow> ValueKey \<Rightarrow> bool" where
  "resolves aliases k c \<longleftrightarrow> (k, c) \<in> {(a, b). map_of aliases a = Some b}\<^sup>* \<and> map_of aliases c = None"

lemma resolves_root: "map_of aliases k = None \<Longrightarrow> resolves aliases k c \<longleftrightarrow> c = k"
  by (auto simp: resolves_def elim: converse_rtranclE)

lemma resolves_step: "map_of aliases k = Some k' \<Longrightarrow> resolves aliases k c \<longleftrightarrow> resolves aliases k' c"
  by (auto simp: resolves_def intro: converse_rtrancl_into_rtrancl elim: converse_rtranclE)

lemma canonical_resolves:
  "canonical_loop ch aliases n k w = (Inr c, w') \<Longrightarrow> resolves aliases k c"
proof (induction ch aliases n k arbitrary: w rule: canonical_loop.induct)
  case (2 ch aliases n k)
  then show ?case
    by (cases "map_of aliases k") (auto simp: r_bind_Inr resolves_root resolves_step)
qed (simp add: r_bind_Inr)

lemma canonical_key_resolves: "canonical_key ch aliases k w = (Inr c, w') \<Longrightarrow> resolves aliases k c"
  unfolding canonical_key_def by (rule canonical_resolves)

lemma resolves_unique: "resolves aliases k c \<Longrightarrow> resolves aliases k c' \<Longrightarrow> c = c'"
proof -
  assume "resolves aliases k c" and c': "resolves aliases k c'"
  then have "(k, c) \<in> {(a, b). map_of aliases a = Some b}\<^sup>*" and n: "map_of aliases c = None"
    by (auto simp: resolves_def)
  then have "resolves aliases c c'" using c'
    by (induction rule: converse_rtrancl_induct) (auto simp: resolves_step)
  then show ?thesis using n by (simp add: resolves_root)
qed

lemma resolved_root: "resolves aliases k c \<Longrightarrow> resolves aliases c c"
  by (simp add: resolves_def)

section \<open>Numbers\<close>

lemma key_set_Inr:
  "key_set ch aliases ks acc w = (Inr out, w') \<Longrightarrow> distinct acc \<Longrightarrow>
   distinct out \<and> set out = set acc \<union> {c. \<exists>k\<in>set ks. resolves aliases k c} \<and>
   (\<forall>k\<in>set ks. \<exists>c. resolves aliases k c)"
proof (induction ch aliases ks acc arbitrary: w rule: key_set.induct)
  case (2 ch aliases k ks acc)
  from "2.prems" obtain w1 c where c: "resolves aliases k c"
    and r: "key_set ch aliases ks (List.insert c acc) w1 = (Inr out, w')"
    by (auto simp: r_bind_Inr dest: canonical_key_resolves)
  have "{c. resolves aliases k c} = {c}" using c resolves_unique by auto
  moreover from "2.prems" have "distinct (List.insert c acc)" by simp
  ultimately show ?case using "2.IH" [OF r] c by auto
qed auto

lemma number_keys_Inr:
  "number_keys ch ks r w = (Inr r', w') \<Longrightarrow> distinct ks \<Longrightarrow>
   (\<forall>i<length ks. ids r' (ks ! i) = Some (next_id r + int i)) \<and>
   next_id r' = next_id r + slen ks \<and> Info r' = Info r"
proof (induction ch ks r arbitrary: w rule: number_keys.induct)
  case (2 ch k ks r)
  let ?r = "r\<lparr>ids := (ids r)(k \<mapsto> next_id r), next_id := next_id r + 1\<rparr>"
  from "2.prems" obtain w1 where r: "number_keys ch ks ?r w1 = (Inr r', w')" by (auto simp: r_bind_Inr)
  from "2.IH" [OF r] "2.prems" have ih: "\<forall>i<length ks. ids r' (ks ! i) = Some (next_id r + 1 + int i)"
    "next_id r' = next_id r + 1 + slen ks" "Info r' = Info r" by simp_all
  have keep: "k \<notin> set ks \<Longrightarrow> number_keys ch ks s w = (Inr s', w') \<Longrightarrow> ids s' k = ids s k" for s s' w w' k
    by (induction ch ks s arbitrary: w rule: number_keys.induct) (auto simp: r_bind_Inr)
  have "ids r' k = Some (next_id r)" using keep [OF _ r] "2.prems" by simp
  then have "\<forall>i<length (k # ks). ids r' ((k # ks) ! i) = Some (next_id r + int i)"
    using ih(1) by (auto simp: nth_Cons split: nat.splits)
  then show ?case using ih by (simp add: slen_def)
qed (simp add: slen_def)

lemma alias_keys_Inr:
  "alias_keys ch aliases ks r w = (Inr r', w') \<Longrightarrow>
   (\<forall>k c. resolves aliases k c \<longrightarrow> (k \<in> set ks \<or> k = c) \<and> ids r c \<noteq> None \<longrightarrow> ids r' k = ids r c) \<and>
   next_id r' = next_id r \<and> Info r' = Info r"
proof (induction ch aliases ks r arbitrary: w rule: alias_keys.induct)
  case (2 ch aliases k ks r)
  from "2.prems" obtain w1 c where c: "resolves aliases k c"
    and r: "alias_keys ch aliases ks (r\<lparr>ids := (ids r)(k \<mapsto> id_or_zero r c)\<rparr>) w1 = (Inr r', w')"
    by (auto simp: r_bind_Inr dest: canonical_key_resolves)
  let ?r = "r\<lparr>ids := (ids r)(k \<mapsto> id_or_zero r c)\<rparr>"
  note ih = "2.IH" [OF r]
  have same: "ids ?r d = ids r d" if "resolves aliases d d" "ids r d \<noteq> None" for d
  proof (cases "d = k")
    case True
    then show ?thesis using resolves_unique [OF c] that by (auto simp: id_or_zero_def)
  qed simp
  have "ids r' j = ids r d" if j: "resolves aliases j d" "j \<in> set (k # ks) \<or> j = d" "ids r d \<noteq> None" for j d
  proof (cases "j \<in> set ks \<or> j = d")
    case True
    then show ?thesis using ih j same resolved_root [OF j(1)] by metis
  next
    case False
    then have jk: "j = k" "j \<notin> set ks" "j \<noteq> d" using j(2) by auto
    have keep: "k \<notin> set ks \<Longrightarrow> alias_keys ch aliases ks s w = (Inr s', w') \<Longrightarrow> ids s' k = ids s k" for s s' w w' k
      by (induction ch aliases ks s arbitrary: w rule: alias_keys.induct) (auto simp: r_bind_Inr)
    have "d = c" using resolves_unique [OF c] j(1) jk(1) by simp
    then show ?thesis using keep [OF _ r, of j] jk j(3) by (auto simp: id_or_zero_def)
  qed
  then show ?case using ih by simp
qed (simp add: resolves_def)

lemma newValueRegistry_Inr:
  assumes "newValueRegistry ch keys aliases w = (Inr r, w')"
  obtains num where "inj_on num {c. \<exists>k\<in>set (all_keys keys aliases). resolves aliases k c}"
    "\<And>k c. k \<in> set (all_keys keys aliases) \<Longrightarrow> resolves aliases k c \<Longrightarrow> ids r k = Some (num c)"
    "\<And>k c. k \<in> set (all_keys keys aliases) \<Longrightarrow> resolves aliases k c \<Longrightarrow> 0 < num c \<and> num c < next_id r"
    "\<And>k. k \<in> set (all_keys keys aliases) \<Longrightarrow> \<exists>c. resolves aliases k c"
    "Info r = Map.empty" "0 < next_id r"
proof -
  let ?all = "all_keys keys aliases"
  from assms obtain ks r1 w1 w2 w3 w4 where ks: "key_set ch aliases ?all [] w1 = (Inr ks, w2)"
    and n: "number_keys ch (sort_key key_order ks) \<lparr>ids = Map.empty, Info = Map.empty, next_id = 1, temps = 0\<rparr> w3 = (Inr r1, w4)"
    and a: "alias_keys ch aliases ?all r1 w4 = (Inr r, w')"
    by (auto simp: newValueRegistry_def Let_def r_bind_Inr split: if_splits)
  let ?C = "{c. \<exists>k\<in>set ?all. resolves aliases k c}"
  let ?ks = "sort_key key_order ks"
  from key_set_Inr [OF ks] have dist: "distinct ?ks" and set: "set ?ks = ?C"
    and ex: "\<forall>k\<in>set ?all. \<exists>c. resolves aliases k c" by simp_all
  note num = number_keys_Inr [OF n dist, simplified]
  note al = alias_keys_Inr [OF a]
  have id1: "\<exists>i<length ?ks. c = ?ks ! i \<and> ids r1 c = Some (1 + int i)" if "c \<in> ?C" for c
    using that num unfolding set [symmetric] in_set_conv_nth by auto
  show ?thesis
  proof (rule that [of "id_or_zero r1"])
    show "inj_on (id_or_zero r1) ?C"
    proof (rule inj_onI)
      fix c d assume "c \<in> ?C" "d \<in> ?C" "id_or_zero r1 c = id_or_zero r1 d"
      then show "c = d" using id1 [of c] id1 [of d] by (auto simp: id_or_zero_def)
    qed
    show "ids r k = Some (id_or_zero r1 c)" "0 < id_or_zero r1 c \<and> id_or_zero r1 c < next_id r"
      if k: "k \<in> set ?all" "resolves aliases k c" for k c
    proof -
      have "c \<in> ?C" using k by auto
      from id1 [OF this] obtain i where "i < length ?ks" "ids r1 c = Some (1 + int i)" by auto
      then show "ids r k = Some (id_or_zero r1 c)" "0 < id_or_zero r1 c \<and> id_or_zero r1 c < next_id r"
        using al k num by (auto simp: id_or_zero_def slen_def)
    qed
    show "\<exists>c. resolves aliases k c" if "k \<in> set ?all" for k using ex that by blast
    show "Info r = Map.empty" "0 < next_id r" using al num by (simp_all add: slen_def)
  qed
qed

section \<open>Scanning a function\<close>

text \<open>Reading values and operands adds keys, and leaves the aliases and the phis that were seen.\<close>

definition grows :: "key_scan \<Rightarrow> key_scan \<Rightarrow> bool" where
  "grows s s' \<longleftrightarrow> set (s_keys s) \<subseteq> set (s_keys s') \<and> s_aliases s' = s_aliases s \<and> s_seen s' = s_seen s"

lemma grows_refl [simp]: "grows s s"
  by (simp add: grows_def)

lemma grows_trans: "grows s s' \<Longrightarrow> grows s' s'' \<Longrightarrow> grows s s''"
  by (auto simp: grows_def)

lemma grows_add [simp]: "grows s (add_key k s)"
  by (auto simp: grows_def add_key_def)

lemma grows_types [simp]: "grows s (s'\<lparr>s_types := f\<rparr>) \<longleftrightarrow> grows s s'"
  by (simp add: grows_def)

lemma register_value_grows: "register_value ch o' t s w = (Inr s', w') \<Longrightarrow> grows s s'"
  by (auto simp: register_value_def r_bind_Inr Let_def split: if_splits)

lemma register_slots_grows: "register_slots ch ts os s w = (Inr s', w') \<Longrightarrow> grows s s'"
proof (induction ch ts os s arbitrary: w rule: register_slots.induct)
  case (3 ch t ts o' os s)
  then show ?case by (auto simp: r_bind_Inr intro: grows_trans dest!: register_value_grows)
qed (auto simp: r_bind_Inr)

lemma register_blocks_grows: "register_blocks ch bs s w = (Inr s', w') \<Longrightarrow> grows s s'"
proof (induction ch bs s arbitrary: w rule: register_blocks.induct)
  case (2 ch b bs s)
  then show ?case by (auto simp: r_bind_Inr dest!: register_slots_grows) (blast intro: grows_trans)
qed simp

lemma register_edges_grows: "register_edges ch es s w = (Inr s', w') \<Longrightarrow> grows s s'"
proof (induction ch es s arbitrary: w rule: register_edges.induct)
  case (2 ch e es s)
  then show ?case by (auto simp: r_bind_Inr dest!: register_slots_grows) (blast intro: grows_trans)
qed simp

lemma add_origins_grows: "add_origins ch os s w = (Inr s', w') \<Longrightarrow> grows s s'"
proof (induction ch os s arbitrary: w rule: add_origins.induct)
  case (2 ch o' os s)
  then show ?case by (auto simp: r_bind_Inr split: if_splits intro: grows_trans [OF grows_add])
qed simp

lemma register_instrs_grows: "register_instrs ch is s w = (Inr s', w') \<Longrightarrow> grows s s'"
proof (induction ch "is" s arbitrary: w rule: register_instrs.induct)
  case (2 ch i "is" s)
  then show ?case
    by (auto simp: r_bind_Inr dest!: register_slots_grows add_origins_grows) (blast intro: grows_trans)
qed simp

lemma phi_operands_grows: "phi_operands ch p ops s w = (Inr s', w') \<Longrightarrow> grows s s'"
proof (induction ops arbitrary: s w)
  case (Cons op ops)
  let ?k = "origin_value_key (PO_Origin op)"
  let ?s = "if s_types (add_key ?k s) ?k = None
    then (add_key ?k s)\<lparr>s_types := (s_types (add_key ?k s))(?k \<mapsto> value_info (P_Type p) (PO_Origin op))\<rparr> else add_key ?k s"
  have "grows s ?s" by simp
  moreover from Cons.prems obtain w1 where "phi_operands ch p ops ?s w1 = (Inr s', w')"
    by (cases "O_Kind (PO_Origin op) = OriginTop") (auto simp: r_bind_Inr Let_def)
  ultimately show ?case using Cons.IH grows_trans by blast
qed simp

text \<open>The alias table sends keys of origins to keys of phis.\<close>

definition phi_aliases :: "key_scan \<Rightarrow> bool" where
  "phi_aliases s \<longleftrightarrow> (\<forall>a b. map_of (s_aliases s) a = Some b \<longrightarrow> K_Domain a = 0 \<and> K_Domain b = 1)"

definition phi_entered :: "BlockFrame list \<Rightarrow> Phi \<Rightarrow> key_scan \<Rightarrow> bool" where
  "phi_entered blocks p s \<longleftrightarrow>
     PhiKey p \<in> set (s_keys s) \<and> P_ID p \<in> s_seen s \<and>
     (\<exists>b flat. find (\<lambda>b. BF_ID b = P_Block p) blocks = Some b \<and> phi_slot p b = Some flat \<and>
        map_of (s_aliases s) (phi_use_key b flat) = Some (PhiKey p))"

lemma register_phi_Inr:
  assumes "register_phi ch blocks p s w = (Inr s', w')" and "phi_aliases s"
  shows "phi_entered blocks p s' \<and> phi_aliases s' \<and> P_ID p \<notin> s_seen s \<and> s_seen s' = insert (P_ID p) (s_seen s) \<and>
    set (s_keys s) \<subseteq> set (s_keys s') \<and> map_of (s_aliases s) \<subseteq>\<^sub>m map_of (s_aliases s')"
proof -
  from assms(1) obtain b flat w1 where b: "find (\<lambda>b. BF_ID b = P_Block p) blocks = Some b"
    and sl: "phi_slot p b = Some flat" and seen: "P_ID p \<notin> s_seen s"
    and free: "map_of (s_aliases s) (phi_use_key b flat) = None"
    and ops: "phi_operands ch p (Operands p)
      ((add_key (PhiKey p) (s\<lparr>s_seen := insert (P_ID p) (s_seen s)\<rparr>))
        \<lparr>s_aliases := AList.update (phi_use_key b flat) (PhiKey p) (s_aliases s),
         s_types := (s_types s)(PhiKey p \<mapsto> value_info (P_Type p) no_origin)\<rparr>) w1 = (Inr s', w')"
    by (auto simp: register_phi_def r_bind_Inr Let_def add_key_def split: if_splits option.splits)
  have g: "set (s_keys s) \<union> {PhiKey p} \<subseteq> set (s_keys s')"
    "s_aliases s' = AList.update (phi_use_key b flat) (PhiKey p) (s_aliases s)"
    "s_seen s' = insert (P_ID p) (s_seen s)"
    using phi_operands_grows [OF ops] by (auto simp: grows_def add_key_def)
  have al: "map_of (s_aliases s') = (map_of (s_aliases s))(phi_use_key b flat \<mapsto> PhiKey p)"
    by (simp add: g(2) update_conv')
  have "phi_aliases s'" using assms(2) unfolding phi_aliases_def al
    by (simp add: phi_use_key_def origin_value_key_def PhiKey_def)
  moreover have "phi_entered blocks p s'" using b sl g unfolding phi_entered_def al by auto
  ultimately show ?thesis using g seen free unfolding al by (auto simp: map_le_def)
qed

lemma phi_entered_mono:
  assumes "phi_entered blocks p s" "s_seen s \<subseteq> s_seen s'" "set (s_keys s) \<subseteq> set (s_keys s')"
    "map_of (s_aliases s) \<subseteq>\<^sub>m map_of (s_aliases s')"
  shows "phi_entered blocks p s'"
proof -
  have "map_of (s_aliases s') k = Some c" if "map_of (s_aliases s) k = Some c" for k c
    using that assms(4) by (metis domI map_le_def)
  then show ?thesis using assms(1-3) unfolding phi_entered_def by blast
qed

lemma register_phis_Inr:
  "register_phis ch blocks ps s w = (Inr s', w') \<Longrightarrow> phi_aliases s \<Longrightarrow>
   (\<forall>p\<in>set ps. phi_entered blocks p s' \<and> P_ID p \<notin> s_seen s) \<and> distinct (map P_ID ps) \<and> phi_aliases s' \<and>
   s_seen s \<subseteq> s_seen s' \<and> set (s_keys s) \<subseteq> set (s_keys s') \<and> map_of (s_aliases s) \<subseteq>\<^sub>m map_of (s_aliases s')"
proof (induction ch blocks ps s arbitrary: w rule: register_phis.induct)
  case (2 ch blocks p ps s)
  from "2.prems"(1) obtain s1 w1 where p: "register_phi ch blocks p s w = (Inr s1, w1)"
    and r: "register_phis ch blocks ps s1 w1 = (Inr s', w')" by (auto simp: r_bind_Inr)
  note h = register_phi_Inr [OF p "2.prems"(2)]
  note ih = "2.IH" [OF r conjunct1 [OF conjunct2 [OF h]]]
  have "phi_entered blocks p s'" using h ih phi_entered_mono [of blocks p s1 s'] by blast
  then show ?case using h ih by (auto intro: map_le_trans)
qed simp

lemma fill_info_keeps:
  "fill_info ch types ks r w = (Inr r', w') \<Longrightarrow>
   ids r' = ids r \<and> next_id r' = next_id r \<and> dom (Info r') \<subseteq> dom (Info r) \<union> id_or_zero r ` set ks"
proof (induction ks arbitrary: r w)
  case (Cons k ks)
  from Cons.prems obtain w1 where "fill_info ch types ks
      (case types k of None \<Rightarrow> r | Some info \<Rightarrow> r\<lparr>Info := (Info r)(id_or_zero r k \<mapsto> info)\<rparr>) w1 = (Inr r', w')"
    by (auto simp: r_bind_Inr)
  from Cons.IH [OF this] show ?case by (auto simp: id_or_zero_def split: option.splits)
qed simp

lemma fill_phis_keeps:
  "fill_phis ch types ps r w = (Inr r', w') \<Longrightarrow>
   ids r' = ids r \<and> next_id r' = next_id r \<and> dom (Info r') \<subseteq> dom (Info r) \<union> id_or_zero r ` PhiKey ` set ps"
proof (induction ps arbitrary: r w)
  case (Cons p ps)
  from Cons.prems obtain w1 where "fill_phis ch types ps (r\<lparr>Info := (Info r)(id_or_zero r (PhiKey p) \<mapsto>
        (case types (PhiKey p) of None \<Rightarrow> no_info | Some i \<Rightarrow> i))\<rparr>) w1 = (Inr r', w')"
    by (auto simp: r_bind_Inr)
  from Cons.IH [OF this] show ?case by (auto simp: id_or_zero_def)
qed simp

lemma registry_phis:
  assumes "registryForWithCounter ch fn es w = (Inr r, w')"
  obtains num keys aliases where "inj_on num {c. \<exists>k\<in>set (all_keys keys aliases). resolves aliases k c}"
    "\<And>k c. k \<in> set (all_keys keys aliases) \<Longrightarrow> resolves aliases k c \<Longrightarrow> ids r k = Some (num c)"
    "\<And>p. p \<in> set (Phis fn) \<Longrightarrow> PhiKey p \<in> set keys \<and> map_of aliases (PhiKey p) = None"
    "\<And>p. p \<in> set (Phis fn) \<Longrightarrow> \<exists>b flat. find (\<lambda>b. BF_ID b = P_Block p) (F_Blocks fn) = Some b \<and>
        phi_slot p b = Some flat \<and> map_of aliases (phi_use_key b flat) = Some (PhiKey p)"
    "distinct (map P_ID (Phis fn))" "\<forall>x\<in>dom (Info r). 0 < x \<and> x < next_id r" "0 < next_id r"
proof -
  let ?s0 = "\<lparr>s_keys = [], s_aliases = [], s_types = Map.empty, s_seen = {}\<rparr>"
  from assms obtain s1 s2 s3 s r1 r2 w1 w2 w3 w4 w5 w6 w7 w8 w9 where
    b: "register_blocks ch (F_Blocks fn) ?s0 w = (Inr s1, w1)"
    and e: "register_edges ch es s1 w1 = (Inr s2, w2)"
    and i: "register_instrs ch (Instructions fn) s2 w2 = (Inr s3, w3)"
    and ph: "register_phis ch (F_Blocks fn) (Phis fn) s3 w4 = (Inr s, w5)"
    and nr: "newValueRegistry ch (s_keys s) (s_aliases s) w6 = (Inr r1, w7)"
    and fi: "fill_info ch (s_types s) (s_keys s) r1 w7 = (Inr r2, w8)"
    and fp: "fill_phis ch (s_types s) (Phis fn) r2 w8 = (Inr r, w9)"
    by (auto simp: registryForWithCounter_def Let_def r_bind_Inr)
  have "grows ?s0 s3"
    using register_blocks_grows [OF b] register_edges_grows [OF e] register_instrs_grows [OF i] grows_trans by blast
  then have "phi_aliases s3" by (simp add: phi_aliases_def grows_def)
  note ps = register_phis_Inr [OF ph this]
  obtain num where num: "inj_on num {c. \<exists>k\<in>set (all_keys (s_keys s) (s_aliases s)). resolves (s_aliases s) k c}"
    "\<And>k c. k \<in> set (all_keys (s_keys s) (s_aliases s)) \<Longrightarrow> resolves (s_aliases s) k c \<Longrightarrow> ids r1 k = Some (num c)"
    "\<And>k c. k \<in> set (all_keys (s_keys s) (s_aliases s)) \<Longrightarrow> resolves (s_aliases s) k c \<Longrightarrow> 0 < num c \<and> num c < next_id r1"
    "\<And>k. k \<in> set (all_keys (s_keys s) (s_aliases s)) \<Longrightarrow> \<exists>c. resolves (s_aliases s) k c"
    "Info r1 = Map.empty" "0 < next_id r1"
    by (rule newValueRegistry_Inr [OF nr]) (rule that; assumption)
  note f = fill_info_keeps [OF fi] fill_phis_keeps [OF fp]
  have keys: "PhiKey p \<in> set (s_keys s) \<and> map_of (s_aliases s) (PhiKey p) = None" if "p \<in> set (Phis fn)" for p
  proof
    show "PhiKey p \<in> set (s_keys s)" using ps that by (simp add: phi_entered_def)
    have "K_Domain (PhiKey p) \<noteq> 0" by (simp add: PhiKey_def)
    then show "map_of (s_aliases s) (PhiKey p) = None"
      using ps unfolding phi_aliases_def by (cases "map_of (s_aliases s) (PhiKey p)") blast+
  qed
  have pos: "0 < id_or_zero r1 k \<and> id_or_zero r1 k < next_id r1" if "k \<in> set (s_keys s)" for k
  proof -
    have k: "k \<in> set (all_keys (s_keys s) (s_aliases s))" using that by (simp add: all_keys_def)
    then obtain c where "resolves (s_aliases s) k c" using num(4) by blast
    with num(2,3) k show ?thesis by (simp add: id_or_zero_def)
  qed
  show ?thesis
  proof (rule that [OF num(1)])
    show "ids r k = Some (num c)" if "k \<in> set (all_keys (s_keys s) (s_aliases s))" "resolves (s_aliases s) k c" for k c
      using num(2) that f by simp
    have eq: "id_or_zero r2 = id_or_zero r1" using f(1) by (simp add: id_or_zero_def fun_eq_iff)
    have i2: "dom (Info r2) \<subseteq> id_or_zero r1 ` set (s_keys s)" using f(1) num(5) by simp
    have "dom (Info r) \<subseteq> dom (Info r2) \<union> id_or_zero r1 ` PhiKey ` set (Phis fn)"
      by (rule conjunct2 [OF conjunct2 [OF f(2), unfolded eq]])
    moreover have "id_or_zero r1 ` PhiKey ` set (Phis fn) \<subseteq> id_or_zero r1 ` set (s_keys s)"
      by (rule image_mono) (use keys in auto)
    ultimately have "dom (Info r) \<subseteq> id_or_zero r1 ` set (s_keys s)" using i2 by (meson Un_least order_trans)
    then show "\<forall>x\<in>dom (Info r). 0 < x \<and> x < next_id r" using pos f by auto
    show "0 < next_id r" using num(6) f by simp
    show "\<exists>b flat. find (\<lambda>b. BF_ID b = P_Block p) (F_Blocks fn) = Some b \<and> phi_slot p b = Some flat \<and>
        map_of (s_aliases s) (phi_use_key b flat) = Some (PhiKey p)" if "p \<in> set (Phis fn)" for p
      using ps that by (simp add: phi_entered_def)
  qed (use keys ps in blast)+
qed

section \<open>Scheduling registered copies\<close>

lemma compatible_refl: "compatible t t"
  by (simp add: compatible_def TypeEqual_def)

text \<open>Scheduling takes identities from the registry and changes nothing else of it.\<close>

interpretation info_kept: kept_runs "\<lambda>w. Info (fst w) = infos \<and> ids (fst w) = idents" "seq_charge ch" "Some seq_fresh"
  for infos idents ch
  by unfold_locales
    (auto simp: kept_def seq_charge_def seq_fresh_def Fresh_def split: prod.splits sum.splits if_splits)

lemma seq_keeps_info:
  assumes "sequentializeChecked (seq_charge ch) (Some seq_fresh) cs (r, e, c) = (res, r', e', c')"
  shows "Info r' = Info r \<and> ids r' = ids r"
  using info_kept.sequentialize_kept [of "Info r" "ids r" ch cs] assms
  unfolding kept_def by (metis fst_conv snd_conv)

lemma tag_temps_Inr:
  "tag_temps ch ms (r, c) = (Inr (), r', c') \<Longrightarrow> distinct (map Dst (filter Tmp ms)) \<Longrightarrow>
   (\<forall>m\<in>set ms. Tmp m \<longrightarrow> Src m \<notin> temps_of ms) \<Longrightarrow>
   (\<forall>m\<in>set ms. Tmp m \<longrightarrow> (\<exists>i. Info r (Src m) = Some i \<and>
      Info r' (Dst m) = Some (i\<lparr>Temporary := True, I_Source := Src m\<rparr>))) \<and>
   (\<forall>x. x \<notin> temps_of ms \<longrightarrow> Info r' x = Info r x)"
proof (induction ms arbitrary: r c)
  case (Cons m ms)
  show ?case
  proof (cases "Tmp m")
    case False
    with Cons show ?thesis by (auto simp: temps_of_def split: prod.splits sum.splits)
  next
    case True
    with Cons.prems(1) obtain i c1 where i: "Info r (Src m) = Some i"
      and t: "tag_temps ch ms (r\<lparr>Info := (Info r)(Dst m \<mapsto> i\<lparr>Temporary := True, I_Source := Src m\<rparr>)\<rparr>, c1) = (Inr (), r', c')"
      by (auto split: prod.splits sum.splits option.splits if_splits)
    have ts: "temps_of (m # ms) = insert (Dst m) (temps_of ms)" "Dst m \<notin> temps_of ms"
      using True Cons.prems(2) by (auto simp: temps_of_def)
    from Cons.IH [OF t] Cons.prems(2,3) ts i True show ?thesis by fastforce
  qed
qed (simp add: temps_of_def)

lemma check_copies_Inr: "check_copies ch r cs c = (Inr (), c') \<Longrightarrow> \<forall>d\<in>set cs. copy_typed r d = None"
  by (induction ch r cs arbitrary: c rule: check_copies.induct) (auto simp: r_bind_Inr split: option.splits)

lemma sequentialize_registry_Inr:
  assumes "sequentializeWithCounter ch cs (r, c) = (Inr ms, r', c')"
  obtains r1 c1 c2 where "\<forall>d\<in>set cs. copy_typed r d = None"
    "sequentializeChecked (seq_charge ch) (Some seq_fresh) cs (r, None, c1) = (Inr ms, r1, None, c2)"
    "tag_temps ch ms (r1, c2) = (Inr (), r', c')" "Info r1 = Info r"
  using assms check_copies_Inr seq_keeps_info
  by (fastforce simp: sequentializeWithCounter_def r_bind_Inr split: prod.splits sum.splits option.splits)

text \<open>With no counter and room for the temporaries, the registry is a source of them.\<close>

definition registry_room :: "LimitCounter option seq_state \<Rightarrow> VarID set \<Rightarrow> nat \<Rightarrow> bool" where
  "registry_room w occ n \<longleftrightarrow>
     (case w of (r, e, c) \<Rightarrow>
        e = None \<and> c = None \<and> 0 < next_id r \<and> (\<forall>x\<in>occ. x < next_id r) \<and> next_id r + int n \<le> max_int64)"

interpretation fresh_ids: temp_source "seq_charge chargeWork" seq_fresh registry_room
proof
  show "\<exists>w'. seq_charge chargeWork u w = (Inr (), w') \<and> registry_room w' occ n" if "registry_room w occ n" for w occ n u
    using that by (auto simp: registry_room_def seq_charge_def chargeWork_def split: prod.splits)
  show "0 < t \<and> t \<notin> occ \<and> registry_room w' (insert t occ) n"
    if "registry_room w occ (Suc n)" "seq_fresh w = (t, w')" for w occ n t w'
    using that by (auto simp: registry_room_def seq_fresh_def Fresh_def max_int64_def split: prod.splits sum.splits if_splits)
  show "registry_room w occ n" if "registry_room w occ (Suc n)" for w occ n
    using that by (auto simp: registry_room_def)
qed

lemma chargeWork_None [simp]: "chargeWork u None = (Inr (), None)"
  by (simp add: chargeWork_def)

lemma tag_temps_ok:
  "c = None \<Longrightarrow> \<forall>m\<in>set ms. Tmp m \<longrightarrow> (\<exists>i. Info r (Src m) = Some i \<and> I_Width i \<noteq> 0 \<and> Src m \<notin> temps_of ms) \<Longrightarrow>
   \<exists>r'. tag_temps chargeWork ms (r, c) = (Inr (), r', None)"
proof (induction ms arbitrary: r)
  case (Cons m ms)
  have ts: "temps_of ms \<subseteq> temps_of (m # ms)" by (auto simp: temps_of_def)
  show ?case
  proof (cases "Tmp m")
    case True
    with Cons.prems obtain i where i: "Info r (Src m) = Some i" "I_Width i \<noteq> 0" by auto
    let ?r = "r\<lparr>Info := (Info r)(Dst m \<mapsto> i\<lparr>Temporary := True, I_Source := Src m\<rparr>)\<rparr>"
    have "\<forall>n\<in>set ms. Tmp n \<longrightarrow> (\<exists>j. Info ?r (Src n) = Some j \<and> I_Width j \<noteq> 0 \<and> Src n \<notin> temps_of ms)"
      using Cons.prems(2) ts True by (auto simp: temps_of_def)
    from Cons.IH [OF Cons.prems(1) this] show ?thesis using i True Cons.prems(1) by simp
  next
    case False
    then have "\<forall>n\<in>set ms. Tmp n \<longrightarrow> (\<exists>j. Info r (Src n) = Some j \<and> I_Width j \<noteq> 0 \<and> Src n \<notin> temps_of ms)"
      using Cons.prems(2) by (auto simp: temps_of_def)
    from Cons.IH [OF Cons.prems(1) this] show ?thesis using False Cons.prems(1) by simp
  qed
qed simp

lemma copy_typed_Some: "copy_typed r d = None \<Longrightarrow> \<exists>i j. Info r (Dst d) = Some i \<and> Info r (Src d) = Some j \<and> I_Width i \<noteq> 0"
  by (auto simp: copy_typed_def TypeWidth_def Computational_def split: option.splits if_splits)

section \<open>Properties of the value registry\<close>


text \<open>C18: every move that lowering makes of a packet, its temporaries included, goes between registered
  values of one width and one category, and never copies one uninitialised object into another.\<close>

theorem sequentialize_typed:
  assumes "sequentializeWithCounter ch copies (r, c) = (Inr ms, r', c')" and "m \<in> set ms"
  shows "copy_typed r' (copy.truncate m) = None"
proof -
  obtain r1 c1 c2 where ty: "\<forall>d\<in>set copies. copy_typed r d = None"
    and sq: "sequentializeChecked (seq_charge ch) (Some seq_fresh) copies (r, None, c1) = (Inr ms, r1, None, c2)"
    and tag: "tag_temps ch ms (r1, c2) = (Inr (), r', c')" and same: "Info r1 = Info r"
    by (rule sequentialize_registry_Inr [OF assms(1)])
  note made = sequentialize_made_of [OF sq]
  have "Src n \<notin> temps_of ms" if "n \<in> set ms" "Tmp n" for n
    using made(1,3) that by (fastforce simp: operands_def)
  from tag_temps_Inr [OF tag made(2)] this same
  have tmp: "\<And>n. n \<in> set ms \<Longrightarrow> Tmp n \<Longrightarrow> \<exists>i. Info r (Src n) = Some i \<and>
        Info r' (Dst n) = Some (i\<lparr>Temporary := True, I_Source := Src n\<rparr>)"
    and old: "\<And>x. x \<notin> temps_of ms \<Longrightarrow> Info r' x = Info r x" by auto
  have keep: "Info r' x = Info r x" if "x \<in> operands copies" for x using old made(3) that by blast
  show ?thesis
  proof (cases "Tmp m")
    case True
    then have src: "Src m \<in> Dst ` set copies" using made(1) assms(2) by simp
    then obtain d where d: "d \<in> set copies" "Dst d = Src m" by auto
    then have "copy_typed r d = None" using ty by simp
    moreover have "Info r' (Src m) = Info r (Dst d)" using keep [of "Src m"] src d(2) by (simp add: operands_def)
    ultimately show ?thesis using tmp [OF assms(2) True] d(2)
      by (auto simp: copy_typed_def copy.truncate_def compatible_refl split: option.splits if_splits)
  next
    case False
    then have "move_of copies ms (Dst m) (Src m)" using made(1) assms(2) by simp
    then obtain d where d: "d \<in> set copies" "Dst d = Dst m"
      and s: "Src d = Src m \<or> (\<exists>t\<in>set ms. Tmp t \<and> Dst t = Src m \<and> Src t = Src d)"
      by (auto simp: move_of_def)
    have t: "copy_typed r d = None" using ty d(1) by simp
    have o: "Dst d \<in> operands copies" "Src d \<in> operands copies" using d(1) by (simp_all add: operands_def)
    have dk: "Info r' (Dst m) = Info r (Dst d)" "Info r' (Src d) = Info r (Src d)"
      using keep [OF o(1)] keep [OF o(2)] d(2) by simp_all
    from s show ?thesis
    proof
      assume "Src d = Src m"
      then show ?thesis using t dk by (simp add: copy_typed_def copy.truncate_def)
    next
      assume "\<exists>t\<in>set ms. Tmp t \<and> Dst t = Src m \<and> Src t = Src d"
      with tmp obtain i where "Info r (Src d) = Some i"
        "Info r' (Src m) = Some (i\<lparr>Temporary := True, I_Source := Src d\<rparr>)" by metis
      then show ?thesis using t dk by (auto simp: copy_typed_def copy.truncate_def split: option.splits)
    qed
  qed
qed

text \<open>C17: lowering a packet of typed copies succeeds while the registry has identities to spare, and
  leaves in every registered value what copying all at once would.\<close>

theorem sequentialize_succeeds:
  assumes "good_copies copies" and "\<forall>d\<in>set copies. copy_typed r d = None"
    and "\<forall>x\<in>dom (Info r). x < next_id r" and "0 < next_id r" and "next_id r + slen copies \<le> max_int64"
  shows "\<exists>ms r'. sequentializeWithCounter chargeWork copies (r, None) = (Inr ms, r', None) \<and>
    (\<forall>x\<in>dom (Info r). read_var (SerialEval ms st) x = read_var (ParallelEval copies st) x)"
proof -
  have ch: "check_copies chargeWork r cs None = (Inr (), None)" if "\<forall>d\<in>set cs. copy_typed r d = None" for cs
    using that by (induction cs) (simp_all add: r_bind_def chargeWork_def r_ret_def)
  have ops: "operands copies \<subseteq> dom (Info r)"
  proof -
    have "Dst d \<in> dom (Info r) \<and> Src d \<in> dom (Info r)" if "d \<in> set copies" for d
      using copy_typed_Some [of r d] assms(2) that by auto
    then show ?thesis by (auto simp: operands_def)
  qed
  have "registry_room (r, None, None) (dom (Info r) \<union> operands copies) (length copies)"
    using assms(3-5) ops by (auto simp: registry_room_def slen_def)
  from fresh_ids.sequentialize_ok [OF assms(1) this] obtain ms r1 e c occ
    where sq: "sequentializeChecked (seq_charge chargeWork) (Some seq_fresh) copies (r, None, None) = (Inr ms, r1, e, c)"
      and av: "registry_room (r1, e, c) occ 0" and fresh: "temps_of ms \<inter> dom (Info r) = {}" by (metis prod_cases3)
  have ec: "e = None" "c = None" using av by (simp_all add: registry_room_def)
  have same: "Info r1 = Info r" using seq_keeps_info [OF sq] by simp
  note made = sequentialize_made_of [OF sq]
  have "\<exists>i. Info r1 (Src m) = Some i \<and> I_Width i \<noteq> 0 \<and> Src m \<notin> temps_of ms" if "m \<in> set ms" "Tmp m" for m
  proof -
    have "Src m \<in> Dst ` set copies" using made(1) that by simp
    then obtain d where d: "d \<in> set copies" "Dst d = Src m" by auto
    with copy_typed_Some [of r d] assms(2) obtain i where "Info r (Src m) = Some i" "I_Width i \<noteq> 0" by auto
    with fresh same show ?thesis by auto
  qed
  with tag_temps_ok [of None ms r1] obtain r' where tag: "tag_temps chargeWork ms (r1, None) = (Inr (), r', None)" by blast
  have "sequentializeWithCounter chargeWork copies (r, None) = (Inr ms, r', None)"
    using sq ch [OF assms(2)] tag ec by (simp add: sequentializeWithCounter_def r_bind_def r_ret_def)
  moreover have "read_var (SerialEval ms st) x = read_var (ParallelEval copies st) x" if "x \<in> dom (Info r)" for x
    using scheduled_state [OF sq, of x st] fresh that by blast
  ultimately show ?thesis by blast
qed

section \<open>Witnesses\<close>

text \<open>A loop head with one integer local: a phi of the entry value and the value of the loop.\<close>

definition loop_frame :: frame where
  "loop_frame = (NewFrame 1)\<lparr>Locals := [T IntK]\<rparr>"

definition loop_phi :: Phi where
  "loop_phi = \<lparr>P_ID = 7, P_Block = 1, P_Slot = \<lparr>S_Local = True, S_Index = 0\<rparr>, P_Type = T IntK,
     Operands = [\<lparr>PO_Edge = edge_3_9, PO_Origin = param_origin 0, PO_Val = 0\<rparr>]\<rparr>"

definition loop_block :: BlockFrame where
  "loop_block = \<lparr>Reachable = True, BF_ID = 1, First = 9, BF_In = loop_frame, BF_Out = loop_frame,
     InOrig = [\<lparr>O_Kind = OriginPhi, O_PC = 9, O_Slot = 0, O_Aux = 1\<rparr>], OutOrig = []\<rparr>"

definition loop_fun :: ssa_fun where
  "loop_fun = \<lparr>Values = [], EdgeStates = Map.empty, Instructions = [], entryEdge = None, incoming = None,
     F_IR = None, F_Blocks = [loop_block], Phis = [loop_phi], Params = [], Work = 0\<rparr>"

definition loop_registry :: ValueRegistry where
  "loop_registry = (case registryForWithCounter chargeWork loop_fun [] None of (Inr r, c) \<Rightarrow> r | _ \<Rightarrow> undefined)"

lemma loop_registry_run: "registryForWithCounter chargeWork loop_fun [] None = (Inr loop_registry, None)"
proof -
  have "is_ok (fst (registryForWithCounter chargeWork loop_fun [] None)) \<and>
      snd (registryForWithCounter chargeWork loop_fun [] None) = None" by code_simp
  then show ?thesis unfolding loop_registry_def
    by (cases "registryForWithCounter chargeWork loop_fun [] None") (auto simp: is_ok_iff)
qed


text \<open>Three integers, the first two of which are swapped.\<close>

definition int_info :: ValueInfo where
  "int_info = value_info (T IntK) (param_origin 0)"

definition three_ints :: ValueRegistry where
  "three_ints = \<lparr>ids = Map.empty, Info = [1 \<mapsto> int_info, 2 \<mapsto> int_info, 3 \<mapsto> int_info], next_id = 4, temps = 0\<rparr>"

lemma swap_typed: "\<forall>d\<in>set swap_and_copy. copy_typed three_ints d = None"
  by code_simp

theorem sequentialize_succeeds_witness:
  "\<exists>ms r'. sequentializeWithCounter chargeWork swap_and_copy (three_ints, None) = (Inr ms, r', None) \<and>
    (\<forall>x\<in>{1, 2, 3}. read_var (SerialEval ms [1 \<mapsto> 7, 2 \<mapsto> 8]) x =
       read_var (ParallelEval swap_and_copy [1 \<mapsto> 7, 2 \<mapsto> 8]) x)"
proof -
  have "good_copies swap_and_copy" by code_simp
  moreover have "dom (Info three_ints) = {1, 2, 3}" by (auto simp: three_ints_def)
  moreover have "next_id three_ints = 4" "slen swap_and_copy = 3" by (simp_all add: three_ints_def swap_and_copy_def slen_def)
  ultimately show ?thesis using sequentialize_succeeds [OF _ swap_typed, of "[1 \<mapsto> 7, 2 \<mapsto> 8]"] by (simp add: max_int64_def)
qed

theorem sequentialize_typed_witness:
  "copy_typed (fst (snd (sequentializeWithCounter chargeWork swap_and_copy (three_ints, None))))
     \<lparr>Dst = 4, Src = 1\<rparr> = None"
proof -
  let ?run = "sequentializeWithCounter chargeWork swap_and_copy (three_ints, None)"
  have ms: "fst ?run = Inr [\<lparr>Dst = 3, Src = 1, Tmp = False\<rparr>, \<lparr>Dst = 4, Src = 1, Tmp = True\<rparr>,
      \<lparr>Dst = 1, Src = 2, Tmp = False\<rparr>, \<lparr>Dst = 2, Src = 4, Tmp = False\<rparr>]" by code_simp
  obtain res r' c' where r: "?run = (res, r', c')" by (cases ?run) auto
  with ms have "?run = (Inr [\<lparr>Dst = 3, Src = 1, Tmp = False\<rparr>, \<lparr>Dst = 4, Src = 1, Tmp = True\<rparr>,
      \<lparr>Dst = 1, Src = 2, Tmp = False\<rparr>, \<lparr>Dst = 2, Src = 4, Tmp = False\<rparr>], r', c')" by simp
  from sequentialize_typed [OF this, of "\<lparr>Dst = 4, Src = 1, Tmp = True\<rparr>"] show ?thesis
    by (simp add: r copy.truncate_def)
qed

end
