(* ===== verification/SsaSolver.thy ===== *)
theory SsaSolver
  imports Runs OriginStep "HOL-Library.List_Lexorder" "HOL-Library.Char_ord"
begin

text \<open>
  \<open>Build\<close> of \<open>core/ssabuild/solver.go\<close>: the worklist that solves the frames and the origins of a
  method, block by block, and the assignment of phis. The counter is never nil here (\<open>Build\<close>
  makes one), the arithmetic on floating-point constants is the argument \<open>fl\<close> of the frame
  transfer, and \<open>pick\<close> is what \<open>rng.Intn\<close> answers: for the amount of work done and the length of
  the queue, a position of it.
\<close>

section \<open>Blocks and edges of a snapshot\<close>

text \<open>The maps that are filled in a loop over the blocks: the last entry wins.\<close>

definition block_at :: "MethodIR \<Rightarrow> u16 \<rightharpoonup> BlockID" where
  "block_at ir = map_of (rev (map (\<lambda>b. (FirstPC b, B_ID b)) (M_Blocks ir)))"

definition block_index :: "MethodIR \<Rightarrow> BlockID \<rightharpoonup> nat" where
  "block_index ir = map_of (rev (zip (map B_ID (M_Blocks ir)) [0..<length (M_Blocks ir)]))"

definition entry_edge :: "MethodIR \<Rightarrow> ir_edge" where
  "entry_edge ir =
     \<lparr>E_ID = \<lparr>ID_From = M_EntryPC ir, ID_To = M_EntryPC ir, ID_Kind = EntryEdgeKind, ID_CaseValue = 0, ID_HandlerOrder = 0\<rparr>,
      E_From = M_EntryPC ir, E_To = M_EntryPC ir, E_Kind = EntryEdgeKind, E_CaseValue = 0, E_HandlerOrder = 0, E_CatchType = 0\<rparr>"

text \<open>The edges into a block, sorted by the text of their identities, and those out of an instruction.\<close>

definition sort_edges :: "ir_edge list \<Rightarrow> ir_edge list" where
  "sort_edges es = sort_key (\<lambda>e. EdgeID_String (E_ID e)) es"

definition block_incoming :: "MethodIR \<Rightarrow> BlockID \<Rightarrow> ir_edge list" where
  "block_incoming ir bid =
     sort_edges ((if block_at ir (M_EntryPC ir) = Some bid then [entry_edge ir] else []) @
       filter (\<lambda>e. block_at ir (E_To e) = Some bid) (M_Edges ir))"

definition outgoing :: "MethodIR \<Rightarrow> InstrID \<Rightarrow> ir_edge list" where
  "outgoing ir iid = filter (\<lambda>e. E_From e = iid) (M_Edges ir)"

section \<open>The state of the worklist\<close>

record edgeFrames =
  EF_normal :: "EdgeID \<rightharpoonup> frame"
  EF_orig :: "EdgeID \<rightharpoonup> Origin list"

record worklist =
  W_blocks :: "BlockFrame list"
  W_ef :: edgeFrames
  W_pending :: "BlockID list"
  W_inQ :: "BlockID \<Rightarrow> bool"
  W_records :: "u16 \<rightharpoonup> InstructionValues"
  W_work :: u64

text \<open>A Go slice that is missing in a map is empty.\<close>

definition origins_at :: "edgeFrames \<Rightarrow> EdgeID \<Rightarrow> Origin list" where
  "origins_at ef i = (case EF_orig ef i of None \<Rightarrow> [] | Some og \<Rightarrow> og)"

section \<open>The join of the edges into a block\<close>

text \<open>What has been joined so far, and how many edges contributed.\<close>

fun join_edges ::
    "edgeFrames \<Rightarrow> ir_edge list \<Rightarrow> (frame \<times> Origin list) option \<Rightarrow> nat \<Rightarrow>
     (LimitCounter, (frame \<times> Origin list) option \<times> nat) run" where
  "join_edges ef [] joined n = r_ret (joined, n)"
| "join_edges ef (e # es) joined n =
     (case EF_normal ef (E_ID e) of
        None \<Rightarrow> join_edges ef es joined n
      | Some fr \<Rightarrow>
          let og = origins_at ef (E_ID e) in
          r_bind (c_charge (word_of_nat (1 + length og))) (\<lambda>_.
            case joined of
              None \<Rightarrow> join_edges ef es (Some (fr, og)) (n + 1)
            | Some (j, origins) \<Rightarrow>
                r_bind (r_lift (frame_err (JoinFrames j fr))) (\<lambda>j.
                  if length origins \<noteq> length og then r_fail ''invalid_input: origin join shape mismatch''
                  else join_edges ef es (Some (j, origins)) (n + 1))))"

definition phi_origin :: "u16 \<Rightarrow> BlockID \<Rightarrow> nat \<Rightarrow> Origin" where
  "phi_origin pc bid i = \<lparr>O_Kind = OriginPhi, O_PC = pc, O_Slot = int i, O_Aux = uint bid\<rparr>"

definition entry_origins :: "ir_block \<Rightarrow> frame \<Rightarrow> Origin list \<Rightarrow> nat \<Rightarrow> Origin list" where
  "entry_origins b f origins contributors =
     normalizeOrigins f
       (if contributors > 1 then map (phi_origin (FirstPC b) (B_ID b)) [0..<length origins] else origins)"

section \<open>The frames out of an instruction\<close>

text \<open>
  The origins of a handler's frame: the locals keep the origins they had before the instruction and
  the thrown value is the instruction's.
\<close>

definition handler_origins :: "u16 \<Rightarrow> frame \<Rightarrow> frame \<Rightarrow> Origin list \<Rightarrow> Origin list" where
  "handler_origins pc fr before beforeOrig =
     (let og = originsFromFrame fr \<lparr>O_Kind = OriginInstr, O_PC = pc, O_Slot = - 1, O_Aux = 0\<rparr>;
          src = take (length (Locals before)) beforeOrig;
          k = min (length (Locals fr)) (length src)
      in normalizeOrigins fr (take k src @ drop k og))"

definition edge_state ::
    "u16 \<Rightarrow> frame \<Rightarrow> Origin list \<Rightarrow> frame \<Rightarrow> Origin list \<Rightarrow> frame option \<Rightarrow> ir_edge \<Rightarrow> ssa_error + frame \<times> Origin list" where
  "edge_state pc before beforeOrig after afterOrig ex e =
     (if E_Kind e = EdgeException then
        (case ex of
           None \<Rightarrow> Inl ''invalid_input: exception edge from nonthrowing pc %d''
         | Some fr \<Rightarrow>
             res_bind (frame_err (Validate fr)) (\<lambda>_. Inr (fr, handler_origins pc fr before beforeOrig)))
      else Inr (after, afterOrig))"

text \<open>An edge whose state has changed is stored, and its target is queued.\<close>

definition enqueue :: "BlockID \<Rightarrow> worklist \<Rightarrow> worklist" where
  "enqueue tb w =
     (if W_inQ w tb then w
      else w\<lparr>W_inQ := (W_inQ w)(tb := True), W_pending := W_pending w @ [tb]\<rparr>)"

definition same_state :: "edgeFrames \<Rightarrow> EdgeID \<Rightarrow> frame \<Rightarrow> Origin list \<Rightarrow> bool" where
  "same_state ef i fr og \<longleftrightarrow>
     (case EF_normal ef i of None \<Rightarrow> False | Some old \<Rightarrow> FrameEqual old fr \<and> originsEqual (origins_at ef i) og)"

definition block_or_zero :: "MethodIR \<Rightarrow> u16 \<Rightarrow> BlockID" where
  "block_or_zero ir pc = (case block_at ir pc of None \<Rightarrow> 0 | Some b \<Rightarrow> b)"

definition put_edge :: "MethodIR \<Rightarrow> ir_edge \<Rightarrow> frame \<Rightarrow> Origin list \<Rightarrow> worklist \<Rightarrow> worklist" where
  "put_edge ir e fr og w =
     (if same_state (W_ef w) (E_ID e) fr og then w
      else enqueue (block_or_zero ir (E_To e))
        (w\<lparr>W_ef := \<lparr>EF_normal = (EF_normal (W_ef w))(E_ID e \<mapsto> fr), EF_orig = (EF_orig (W_ef w))(E_ID e \<mapsto> og)\<rparr>\<rparr>))"

fun flow_edges ::
    "MethodIR \<Rightarrow> (ir_edge \<Rightarrow> ssa_error + frame \<times> Origin list) \<Rightarrow> ir_edge list \<Rightarrow> worklist \<Rightarrow>
     (LimitCounter, worklist) run" where
  "flow_edges ir st [] w = r_ret w"
| "flow_edges ir st (e # es) w =
     r_bind (c_charge 1) (\<lambda>_.
       r_bind (r_lift (st e)) (\<lambda>(fr, og). flow_edges ir st es (put_edge ir e fr og w)))"

section \<open>The instructions of a block\<close>

definition instr_record :: "u16 \<Rightarrow> frame \<Rightarrow> Origin list \<Rightarrow> Origin list \<Rightarrow> Origin list \<Rightarrow> InstructionValues" where
  "instr_record pc before beforeOrig used results =
     \<lparr>IV_PC = pc, Before = before, BeforeOrigins = beforeOrig, Uses = used, Results = results, UseIDs = [], ResultIDs = []\<rparr>"

fun run_instrs ::
    "float_ops \<Rightarrow> MethodIR \<Rightarrow> InstrID list \<Rightarrow> frame \<Rightarrow> Origin list \<Rightarrow> worklist \<Rightarrow>
     (LimitCounter, frame \<times> Origin list \<times> worklist) run" where
  "run_instrs fl ir [] cur curOrig w = r_ret (cur, curOrig, w)"
| "run_instrs fl ir (iid # iids) cur curOrig w =
     r_bind (c_charge (word_of_nat (1 + length curOrig))) (\<lambda>_.
       case InstrByID (Some ir) iid of
         None \<Rightarrow> r_fail ''invalid_input: missing instr %d''
       | Some ins \<Rightarrow>
           r_bind (r_lift (frame_err (Transfer fl cur (solver_instr ins)))) (\<lambda>(after, ex).
             r_bind (r_lift (transferOrigins curOrig cur after ins)) (\<lambda>(afterOrig, used, results).
               let w = w\<lparr>W_records := (W_records w)(I_PC ins \<mapsto> instr_record (I_PC ins) cur curOrig used results)\<rparr> in
               r_bind (flow_edges ir (edge_state (I_PC ins) cur curOrig after afterOrig ex) (outgoing ir iid) w)
                 (run_instrs fl ir iids after afterOrig))))"

section \<open>One block\<close>

definition solve_block :: "float_ops \<Rightarrow> MethodIR \<Rightarrow> BlockID \<Rightarrow> worklist \<Rightarrow> (LimitCounter, worklist) run" where
  "solve_block fl ir bid w =
     (let bi = (case block_index ir bid of None \<Rightarrow> 0 | Some i \<Rightarrow> i); b = M_Blocks ir ! bi in
      r_bind (join_edges (W_ef w) (block_incoming ir bid) None 0) (\<lambda>(joined, contributors).
        case joined of
          None \<Rightarrow> r_ret w
        | Some (f, origins) \<Rightarrow>
            let og = entry_origins b f origins contributors; bf = W_blocks w ! bi in
            if Reachable bf \<and> FrameEqual (BF_In bf) f \<and> originsEqual (InOrig bf) og then r_ret w
            else
              let w = w\<lparr>W_blocks := (W_blocks w)[bi := bf\<lparr>Reachable := True, BF_In := f, InOrig := og\<rparr>]\<rparr> in
              r_bind (run_instrs fl ir (InstrIDs b) f og w) (\<lambda>(out, outOrig, w).
                r_ret (w\<lparr>W_blocks := (W_blocks w)[bi := (W_blocks w ! bi)\<lparr>BF_Out := out, OutOrig := outOrig\<rparr>]\<rparr>))))"

section \<open>The loop\<close>

datatype order = FIFO | LIFO | Shuffle

definition queue_index :: "order \<Rightarrow> (u64 \<Rightarrow> nat \<Rightarrow> nat) \<Rightarrow> u64 \<Rightarrow> nat \<Rightarrow> nat" where
  "queue_index ord pick work n =
     (case ord of FIFO \<Rightarrow> 0 | LIFO \<Rightarrow> n - 1 | Shuffle \<Rightarrow> if n > 1 then pick work n else 0)"

definition dequeue :: "nat \<Rightarrow> worklist \<Rightarrow> BlockID \<times> worklist" where
  "dequeue qi w =
     (let bid = W_pending w ! qi in
      (bid, w\<lparr>W_pending := take qi (W_pending w) @ drop (qi + 1) (W_pending w), W_inQ := (W_inQ w)(bid := False)\<rparr>))"

definition solve_step ::
    "float_ops \<Rightarrow> MethodIR \<Rightarrow> order \<Rightarrow> (u64 \<Rightarrow> nat \<Rightarrow> nat) \<Rightarrow> worklist \<Rightarrow> (LimitCounter, worklist) run" where
  "solve_step fl ir ord pick w =
     r_bind (c_charge 1) (\<lambda>_.
       let w = w\<lparr>W_work := W_work w + 1\<rparr>;
           (bid, w) = dequeue (queue_index ord pick (W_work w) (length (W_pending w))) w
       in solve_block fl ir bid w)"

lemma spends_join: "spends (join_edges ef es joined n)"
proof (induction es arbitrary: joined n)
  case (Cons e es)
  then show ?case
    by (auto simp: Let_def intro!: kept_bind spends_charge [rule_format] split: option.split)
qed simp

lemma spends_flow: "spends (flow_edges ir st es w)"
proof (induction es arbitrary: w)
  case (Cons e es)
  then show ?case by (auto intro!: kept_bind spends_charge [rule_format])
qed simp

lemma spends_instrs: "spends (run_instrs fl ir iids cur curOrig w)"
proof (induction iids arbitrary: cur curOrig w)
  case (Cons j js)
  then show ?case
    by (auto simp: Let_def intro!: kept_bind spends_charge [rule_format] spends_flow [rule_format] split: option.split)
qed simp

lemma spends_block: "spends (solve_block fl ir bid w)"
  by (auto simp: solve_block_def Let_def intro!: kept_bind spends_join [rule_format] spends_instrs [rule_format]
      split: option.split)

lemma solve_step_spends:
  assumes "solve_step fl ir ord pick w c = (r, c')" and "r = Inr w'"
  shows "unat (CUsed c) < unat (CUsed c')"
proof -
  let ?w = "w\<lparr>W_work := W_work w + 1\<rparr>"
  obtain bid w1 where d: "dequeue (queue_index ord pick (W_work ?w) (length (W_pending ?w))) ?w = (bid, w1)"
    by (cases "dequeue (queue_index ord pick (W_work ?w) (length (W_pending ?w))) ?w")
  from assms obtain c1 where c1: "c_charge 1 c = (Inr (), c1)" and s: "solve_block fl ir bid w1 c1 = (Inr w', c')"
    by (auto simp: solve_step_def r_bind_Inr Let_def d [simplified])
  from c_charge_Inr [OF c1] have "unat (CUsed c1) = unat (CUsed c) + 1" by simp
  with spends_le [OF spends_block s] show ?thesis by simp
qed

text \<open>The loop ends because the counter is finite: every round is charged.\<close>

function solve_loop ::
    "float_ops \<Rightarrow> MethodIR \<Rightarrow> order \<Rightarrow> (u64 \<Rightarrow> nat \<Rightarrow> nat) \<Rightarrow> worklist \<Rightarrow> (LimitCounter, worklist) run" where
  "solve_loop fl ir ord pick w c =
     (if W_pending w = [] then r_ret w c
      else r_bind (solve_step fl ir ord pick w) (solve_loop fl ir ord pick) c)"
  by pat_completeness auto

termination
proof (relation "measure (\<lambda>(fl, ir, ord, pick, w, c). 2 ^ 64 - unat (CUsed c))")
  fix fl ir ord pick w c w' c'
  assume "solve_step fl ir ord pick w c = (Inr w', c')"
  then have "unat (CUsed c) < unat (CUsed c')" by (rule solve_step_spends) simp
  moreover have "unat (CUsed c') < 2 ^ 64" using unsigned_less [of "CUsed c'", where 'a = nat] by simp
  ultimately show "((fl, ir, ord, pick, w', c'), fl, ir, ord, pick, w, c)
      \<in> measure (\<lambda>(fl, ir, ord, pick, w, c). 2 ^ 64 - unat (CUsed c))" by simp
qed simp

declare solve_loop.simps [simp del]

definition empty_block :: "ir_block \<Rightarrow> BlockFrame" where
  "empty_block b =
     (let none = \<lparr>Locals = [], Stack = [], maxStack = 0, hasLimits = False, ThisUninitialized = False,
                  ThisClass = [], DirectSuperClass = []\<rparr>
      in \<lparr>Reachable = False, BF_ID = B_ID b, First = FirstPC b, BF_In = none, BF_Out = none, InOrig = [], OutOrig = []\<rparr>)"

definition start_worklist :: "MethodIR \<Rightarrow> BlockID \<Rightarrow> frame \<Rightarrow> worklist" where
  "start_worklist ir entryID entry =
     (let i = E_ID (entry_edge ir) in
      \<lparr>W_blocks = map empty_block (M_Blocks ir),
       W_ef = \<lparr>EF_normal = [i \<mapsto> entry], EF_orig = [i \<mapsto> paramOrigins entry]\<rparr>,
       W_pending = [entryID], W_inQ = (\<lambda>b. b = entryID), W_records = Map.empty, W_work = 0\<rparr>)"

text \<open>From the snapshot to the solved worklist: the checks of \<open>Build\<close> and the loop.\<close>

definition solve :: "float_ops \<Rightarrow> MethodIR \<Rightarrow> order \<Rightarrow> (u64 \<Rightarrow> nat \<Rightarrow> nat) \<Rightarrow> (LimitCounter, worklist) run" where
  "solve fl ir ord pick =
     (case block_at ir (M_EntryPC ir) of
        None \<Rightarrow> r_fail ''invalid_input: missing entry block''
      | Some entryID \<Rightarrow>
          r_bind (r_lift (initialFrame ir)) (\<lambda>entry.
            if \<exists>e\<in>set (M_Edges ir). block_at ir (E_To e) = None
            then r_fail ''invalid_input: edge target is not a block entry''
            else solve_loop fl ir ord pick (start_worklist ir entryID entry)))"

end
