(* ===== verification/SsaReads.thy ===== *)
theory SsaReads
  imports SsaSolver
begin

text \<open>
  The reads of a solved function that \<open>core/ssabuild/ssa.go\<close> offers, with and without a work counter:
  the phis of a block and the edges into and out of it. A slice is sorted by \<open>sort.Slice\<close>; the keys are
  the identities of phis and edges, which are not given twice, so that the order is determined.
\<close>

section \<open>The phis of a block\<close>

definition PhisOf :: "ssa_fun \<Rightarrow> BlockID \<Rightarrow> Phi list" where
  "PhisOf f b = filter (\<lambda>p. P_Block p = b) (Phis f)"

text \<open>One charge for every phi of the function.\<close>

fun phis_scan :: "'w charger \<Rightarrow> BlockID \<Rightarrow> Phi list \<Rightarrow> Phi list \<Rightarrow> ('w, Phi list) run" where
  "phis_scan ch b [] out = r_ret out"
| "phis_scan ch b (p # ps) out =
     r_bind (ch 1) (\<lambda>_. phis_scan ch b ps (if P_Block p = b then out @ [p] else out))"

definition PhisOfWithCounter :: "'w charger \<Rightarrow> ssa_fun option \<Rightarrow> BlockID \<Rightarrow> ('w, Phi list) run" where
  "PhisOfWithCounter ch f b =
     (case f of
        None \<Rightarrow> r_ret []
      | Some f \<Rightarrow>
          r_bind (phis_scan ch b (Phis f) []) (\<lambda>out.
            r_bind (ch (sortWorkEstimate (slen out))) (\<lambda>_. r_ret (sort_key P_ID out))))"

section \<open>The edges of a block\<close>

text \<open>The index by block that the solver has left, or a scan of the edges.\<close>

definition edges_into :: "ssa_fun \<Rightarrow> MethodIR \<Rightarrow> u16 \<Rightarrow> ir_edge list" where
  "edges_into f ir pc =
     (case entryEdge f of None \<Rightarrow> [] | Some e \<Rightarrow> if E_To e = pc then [e] else []) @ filter (\<lambda>e. E_To e = pc) (M_Edges ir)"

definition Incoming :: "ssa_fun option \<Rightarrow> u16 \<Rightarrow> ir_edge list" where
  "Incoming fp pc =
     (case fp of
        None \<Rightarrow> []
      | Some f \<Rightarrow>
          (case F_IR f of
             None \<Rightarrow> []
           | Some ir \<Rightarrow>
               (case incoming f of
                  Some inc \<Rightarrow> inc pc
                | None \<Rightarrow> sort_edges (edges_into f ir pc))))"

fun count_into :: "u16 \<Rightarrow> ir_edge list \<Rightarrow> u64 \<Rightarrow> ssa_error + u64" where
  "count_into pc [] n = Inr n"
| "count_into pc (e # es) n =
     (if E_To e = pc then
        if n = - 1 then Inl ''analysis_budget_exceeded: incoming edge count overflow'' else count_into pc es (n + 1)
      else count_into pc es n)"

definition IncomingWithCounter :: "'w charger \<Rightarrow> ssa_fun option \<Rightarrow> u16 \<Rightarrow> ('w, ir_edge list) run" where
  "IncomingWithCounter ch fp pc =
     (case fp of
        None \<Rightarrow> r_ret []
      | Some f \<Rightarrow>
          (case F_IR f of
             None \<Rightarrow> r_ret []
           | Some ir \<Rightarrow>
               (case incoming f of
                  Some inc \<Rightarrow> r_bind (ch (word_of_int (slen (inc pc)))) (\<lambda>_. r_ret (inc pc))
                | None \<Rightarrow>
                    let entry = (case entryEdge f of None \<Rightarrow> 0 | Some e \<Rightarrow> if E_To e = pc then 1 else 0) in
                    r_bind (ch (word_of_int (slen (M_Edges ir)))) (\<lambda>_.
                      r_bind (r_lift (count_into pc (M_Edges ir) entry)) (\<lambda>n.
                        if n > drop_bit 1 (- 1) then r_fail ''analysis_budget_exceeded: incoming edge count overflow''
                        else r_bind (ch n) (\<lambda>_.
                          r_bind (ch (sortWorkEstimate (slen (edges_into f ir pc)))) (\<lambda>_.
                            r_ret (sort_edges (edges_into f ir pc)))))))))"

definition Outgoing :: "MethodIR \<Rightarrow> InstrID \<Rightarrow> ir_edge list" where
  "Outgoing ir from = filter (\<lambda>e. E_From e = from) (M_Edges ir)"

section \<open>The counter only counts\<close>

text \<open>A read that succeeds under a counter answers what the plain read answers.\<close>

lemma phis_scan_Inr: "phis_scan ch b ps out w = (Inr qs, w') \<Longrightarrow> qs = out @ filter (\<lambda>p. P_Block p = b) ps"
  by (induction ch b ps out arbitrary: w rule: phis_scan.induct) (auto simp: r_bind_Inr split: if_splits)

lemma PhisOfWithCounter_Inr:
  "PhisOfWithCounter ch (Some f) b w = (Inr ps, w') \<Longrightarrow> ps = sort_key P_ID (PhisOf f b)"
  by (auto simp: PhisOfWithCounter_def PhisOf_def r_bind_Inr dest: phis_scan_Inr)

lemma IncomingWithCounter_Inr: "IncomingWithCounter ch fp pc w = (Inr es, w') \<Longrightarrow> es = Incoming fp pc"
  by (auto simp: IncomingWithCounter_def Incoming_def r_bind_Inr Let_def split: option.splits if_splits)

lemma kept_phis:
  assumes "\<And>u. kept P (ch u)"
  shows "kept P (PhisOfWithCounter ch f b)"
proof -
  have "kept P (phis_scan ch b ps out)" for ps out
    by (induction ps arbitrary: out) (auto intro!: kept_bind assms)
  then show ?thesis by (auto simp: PhisOfWithCounter_def intro!: kept_bind assms split: option.split)
qed

end
