(* ===== verification/LowerPlan.thy ===== *)
theory LowerPlan
  imports SsaReads RegistryProps
begin

text \<open>
  \<open>core/ssalower/plan.go\<close> and the protected ranges of \<open>lower.go\<close>: what must be copied before an
  instruction that may throw, so that the handler finds its phis, and the binding of the thrown
  value. \<open>ch\<close> is \<open>chargeWork\<close> on the counter and \<open>rd\<close> the \<open>charge\<close> that the reads of \<open>ssabuild\<close> use. A map of Go
  that is iterated or measured is an association list.
\<close>

section \<open>Protected ranges\<close>

record Range =
  R_Start :: u16
  R_End :: u16
  R_Handler :: u16
  R_CatchType :: u16
  R_Order :: int

type_synonym coverage = "(u16 \<times> Range list) list"

definition ranges_at :: "coverage \<Rightarrow> u16 \<Rightarrow> Range list" where
  "ranges_at cov pc = (case map_of cov pc of None \<Rightarrow> [] | Some rs \<Rightarrow> rs)"

definition handler_range :: "Handler \<Rightarrow> Range" where
  "handler_range h =
     \<lparr>R_Start = H_StartPC h, R_End = H_EndPC h, R_Handler = H_HandlerPC h, R_CatchType = H_CatchType h, R_Order = H_Order h\<rparr>"

definition covers :: "Handler \<Rightarrow> ir_instr \<Rightarrow> bool" where
  "covers h ins \<longleftrightarrow> I_PC ins \<ge> H_StartPC h \<and> I_PC ins < H_EndPC h \<and> I_MayThrow ins"

fun cover_instrs :: "'c charger \<Rightarrow> Handler \<Rightarrow> ir_instr list \<Rightarrow> coverage \<Rightarrow> ('c, coverage) run" where
  "cover_instrs ch h [] out = r_ret out"
| "cover_instrs ch h (ins # is) out =
     r_bind (ch 1) (\<lambda>_.
       if covers h ins then
         r_bind (ch 1) (\<lambda>_.
           cover_instrs ch h is (AList.update (I_PC ins) (ranges_at out (I_PC ins) @ [handler_range h]) out))
       else cover_instrs ch h is out)"

fun cover_handlers :: "'c charger \<Rightarrow> ir_instr list \<Rightarrow> Handler list \<Rightarrow> coverage \<Rightarrow> ('c, coverage) run" where
  "cover_handlers ch is [] out = r_ret out"
| "cover_handlers ch is (h # hs) out =
     r_bind (ch 1) (\<lambda>_. r_bind (cover_instrs ch h is out) (cover_handlers ch is hs))"

definition coverageMapWithCounter :: "'c charger \<Rightarrow> MethodIR option \<Rightarrow> ('c, coverage) run" where
  "coverageMapWithCounter ch mp =
     (case mp of None \<Rightarrow> r_ret [] | Some ir \<Rightarrow> cover_handlers ch (M_Instrs ir) (M_Handlers ir) [])"

definition rangesForPCWithCounter :: "'c charger \<Rightarrow> coverage \<Rightarrow> u16 \<Rightarrow> ('c, Range list) run" where
  "rangesForPCWithCounter ch cov pc =
     (let rs = ranges_at cov pc in
      r_bind (ch (word_of_int (slen rs) + sortWork (slen rs))) (\<lambda>_. r_ret (sort_key R_Order rs)))"

section \<open>The plan\<close>

record Spill =
  SP_Handler :: BlockID
  SP_Destination :: VarID
  SP_Source :: VarID
  SP_LocalSlot :: int
  SP_Type :: ftype

record SpillSite =
  SS_PC :: u16
  SS_Coverage :: "Range list"
  SS_Spills :: "Spill list"
  SS_Moves :: "move list"

record CatchBinding =
  CB_Handler :: BlockID
  CB_Destination :: VarID
  CB_Type :: ftype

record ExceptionPlan =
  EP_Sites :: "SpillSite list"
  EP_Catch :: "CatchBinding list"

definition spillType :: "ftype \<Rightarrow> bool" where
  "spillType t \<longleftrightarrow> Computational t \<and> Kind t \<noteq> UninitNewK \<and> Kind t \<noteq> UninitThisK"

definition plan_fail :: "string \<Rightarrow> ('w, 'a) run" where
  "plan_fail m = r_fail (''unsupported: exception phi: '' @ m)"

definition live :: "ssa_fun \<Rightarrow> EdgeID \<Rightarrow> bool" where
  "live fn i \<longleftrightarrow> EdgeStates fn i \<noteq> None"

text \<open>The edges by identity, and the blocks that live exception edges enter.\<close>

record edge_index =
  X_byEdge :: "EdgeID \<rightharpoonup> ir_edge"
  X_handlers :: "BlockID set"

fun index_edges :: "'c charger \<Rightarrow> ssa_fun \<Rightarrow> MethodIR \<Rightarrow> ir_edge list \<Rightarrow> edge_index \<Rightarrow> ('c, edge_index) run" where
  "index_edges ch fn ir [] x = r_ret x"
| "index_edges ch fn ir (e # es) x =
     r_bind (ch 1) (\<lambda>_.
       if X_byEdge x (E_ID e) \<noteq> None then plan_fail ''duplicate edge %s''
       else
         let x = x\<lparr>X_byEdge := (X_byEdge x)(E_ID e \<mapsto> e)\<rparr> in
         if E_Kind e \<noteq> EdgeException \<or> \<not> live fn (E_ID e) then index_edges ch fn ir es x
         else
           (case BlockOf (Some ir) (E_To e) of
              None \<Rightarrow> plan_fail ''handler block missing''
            | Some b \<Rightarrow> index_edges ch fn ir es (x\<lparr>X_handlers := insert (B_ID b) (X_handlers x)\<rparr>)))"

fun index_before :: "'c charger \<Rightarrow> InstructionValues list \<Rightarrow> (u16 \<rightharpoonup> InstructionValues) \<Rightarrow> ('c, u16 \<rightharpoonup> InstructionValues) run" where
  "index_before ch [] m = r_ret m"
| "index_before ch (x # xs) m = r_bind (ch 1) (\<lambda>_. index_before ch xs (m(IV_PC x \<mapsto> x)))"

section \<open>The operands of a phi\<close>

text \<open>A handler is entered by exceptions only; the live edges into it are the operands it expects.\<close>

fun only_exceptions :: "'c charger \<Rightarrow> ssa_fun \<Rightarrow> ir_edge list \<Rightarrow> ('c, unit) run" where
  "only_exceptions ch fn [] = r_ret ()"
| "only_exceptions ch fn (e # es) =
     r_bind (ch 1) (\<lambda>_.
       if live fn (E_ID e) \<and> E_Kind e \<noteq> EdgeException
       then plan_fail ''handler %d has normal or entry predecessor''
       else only_exceptions ch fn es)"

fun live_edges :: "'c charger \<Rightarrow> ssa_fun \<Rightarrow> ir_edge list \<Rightarrow> EdgeID list \<Rightarrow> ('c, EdgeID list) run" where
  "live_edges ch fn [] acc = r_ret acc"
| "live_edges ch fn (e # es) acc =
     r_bind (ch 1) (\<lambda>_. live_edges ch fn es (if live fn (E_ID e) then List.insert (E_ID e) acc else acc))"

text \<open>What a missing edge state reads as.\<close>

definition state_at :: "ssa_fun \<Rightarrow> EdgeID \<Rightarrow> EdgeState" where
  "state_at fn i =
     (case EdgeStates fn i of
        None \<Rightarrow>
          \<lparr>ES_Frame = \<lparr>Locals = [], Stack = [], maxStack = 0, hasLimits = False, ThisUninitialized = False,
             ThisClass = [], DirectSuperClass = []\<rparr>, ES_Origins = []\<rparr>
      | Some s \<Rightarrow> s)"

fun check_operands :: "'c charger \<Rightarrow> ssa_fun \<Rightarrow> Phi \<Rightarrow> EdgeID list \<Rightarrow> PhiOperand list \<Rightarrow> EdgeID set \<Rightarrow> ('c, unit) run" where
  "check_operands ch fn p expected [] used = r_ret ()"
| "check_operands ch fn p expected (op # ops) used =
     r_bind (ch 1) (\<lambda>_.
       if PO_Edge op \<notin> set expected \<or> PO_Edge op \<in> used then plan_fail ''phi %d operand/edge mismatch''
       else
         let state = state_at fn (PO_Edge op);
             slot = (if S_Local (P_Slot p) then S_Index (P_Slot p)
                     else S_Index (P_Slot p) + slen (Locals (ES_Frame state)))
         in if slot < 0 \<or> slot \<ge> slen (ES_Origins state) \<or> ES_Origins state ! nat slot \<noteq> PO_Origin op
            then plan_fail ''phi %d operand does not match edge snapshot''
            else check_operands ch fn p expected ops (insert (PO_Edge op) used))"

section \<open>Spills\<close>

record plan_state =
  PS_Catch :: "CatchBinding list"
  PS_Sites :: "(u16 \<times> SpillSite) list"
  PS_Spills :: "u16 \<Rightarrow> VarID \<rightharpoonup> Spill"
  PS_Count :: int

definition source_pc :: "edge_index \<Rightarrow> EdgeID \<Rightarrow> u16" where
  "source_pc x i = (case X_byEdge x i of None \<Rightarrow> 0 | Some e \<Rightarrow> E_From e)"

text \<open>The checks on the local that an operand reads before the instruction throws.\<close>

definition spill_error :: "ssa_fun \<Rightarrow> (u16 \<rightharpoonup> InstructionValues) \<Rightarrow> u16 \<Rightarrow> Phi \<Rightarrow> PhiOperand \<Rightarrow> string option" where
  "spill_error fn before pc p op =
     (let state = state_at fn (PO_Edge op); slot = S_Index (P_Slot p) in
      case before pc of
        None \<Rightarrow> Some ''PC %d lacks pre-throw local snapshot''
      | Some pre \<Rightarrow>
          if slot < 0 \<or> slot \<ge> slen (Locals (Before pre)) \<or> slot \<ge> slen (BeforeOrigins pre) \<or>
             slot \<ge> slen (Locals (ES_Frame state)) \<or> slot \<ge> slen (ES_Origins state)
          then Some ''PC %d lacks pre-throw local snapshot''
          else
            let typ = Locals (Before pre) ! nat slot in
            if \<not> spillType typ \<or> \<not> TypeEqual (DropValue typ) (DropValue (P_Type p)) \<or>
               \<not> TypeEqual (DropValue (Locals (ES_Frame state) ! nat slot)) (DropValue typ)
            then Some ''PC %d local %d requires type conversion or initialization''
            else if BeforeOrigins pre ! nat slot \<noteq> PO_Origin op \<or> ES_Origins state ! nat slot \<noteq> PO_Origin op
            then Some ''PC %d operand is not before-state local %d''
            else None)"

text \<open>A site is opened when its first operand is met.\<close>

definition open_site :: "'c charger \<Rightarrow> coverage \<Rightarrow> u16 \<Rightarrow> plan_state \<Rightarrow> ('c, plan_state) run" where
  "open_site ch cov pc s =
     (if map_of (PS_Sites s) pc \<noteq> None then r_ret s
      else
        r_bind (rangesForPCWithCounter ch cov pc) (\<lambda>rs.
          r_ret (s\<lparr>PS_Sites := PS_Sites s @ [(pc, \<lparr>SS_PC = pc, SS_Coverage = rs, SS_Spills = [], SS_Moves = []\<rparr>)],
                   PS_Spills := (PS_Spills s)(pc := Map.empty)\<rparr>)))"

definition add_spill :: "u16 \<Rightarrow> Spill \<Rightarrow> plan_state \<Rightarrow> plan_state" where
  "add_spill pc sp s =
     s\<lparr>PS_Sites := map (\<lambda>(k, site). (k, if k = pc then site\<lparr>SS_Spills := SS_Spills site @ [sp]\<rparr> else site)) (PS_Sites s),
       PS_Spills := (PS_Spills s)(pc := (PS_Spills s pc)(SP_Destination sp \<mapsto> sp)), PS_Count := PS_Count s + 1\<rparr>"

definition put_spill :: "'c charger \<Rightarrow> int \<Rightarrow> u16 \<Rightarrow> Spill \<Rightarrow> plan_state \<Rightarrow> ('c, plan_state) run" where
  "put_spill ch maxSpills pc sp s =
     (case PS_Spills s pc (SP_Destination sp) of
        Some old \<Rightarrow>
          if SP_Source old \<noteq> SP_Source sp \<or> SP_LocalSlot old \<noteq> SP_LocalSlot sp
          then plan_fail ''PC %d conflicting destination %d'' else r_ret s
      | None \<Rightarrow>
          if PS_Count s \<ge> maxSpills then plan_fail ''spill budget exceeded''
          else r_bind (ch 1) (\<lambda>_. r_ret (add_spill pc sp s)))"

definition plan_operand ::
    "'c charger \<Rightarrow> ssa_fun \<Rightarrow> ValueRegistry \<Rightarrow> coverage \<Rightarrow> int \<Rightarrow> edge_index \<Rightarrow> (u16 \<rightharpoonup> InstructionValues) \<Rightarrow>
     BlockID \<Rightarrow> Phi \<Rightarrow> VarID \<Rightarrow> PhiOperand \<Rightarrow> plan_state \<Rightarrow> ('c, plan_state) run" where
  "plan_operand ch fn vr cov maxSpills x before bid p dst op s =
     r_bind (ch 1) (\<lambda>_.
       let pc = source_pc x (PO_Edge op) in
       case spill_error fn before pc p op of
         Some e \<Rightarrow> plan_fail e
       | None \<Rightarrow>
           r_bind (r_lift (OriginID (Some vr) (PO_Origin op))) (\<lambda>src.
             r_bind (open_site ch cov pc s) (\<lambda>s.
               put_spill ch maxSpills pc
                 \<lparr>SP_Handler = bid, SP_Destination = dst, SP_Source = src, SP_LocalSlot = S_Index (P_Slot p),
                  SP_Type = DropValue (P_Type p)\<rparr> s)))"

fun each_run :: "('x \<Rightarrow> 's \<Rightarrow> ('w, 's) run) \<Rightarrow> 'x list \<Rightarrow> 's \<Rightarrow> ('w, 's) run" where
  "each_run f [] s = r_ret s"
| "each_run f (x # xs) s = r_bind (f x s) (each_run f xs)"

section \<open>Phis and handlers\<close>

definition plan_phi ::
    "'c charger \<Rightarrow> ssa_fun \<Rightarrow> ValueRegistry \<Rightarrow> coverage \<Rightarrow> int \<Rightarrow> edge_index \<Rightarrow> (u16 \<rightharpoonup> InstructionValues) \<Rightarrow>
     BlockID \<Rightarrow> ir_edge list \<Rightarrow> VarID \<Rightarrow> Phi \<Rightarrow> plan_state \<Rightarrow> ('c, plan_state) run" where
  "plan_phi ch fn vr cov maxSpills x before bid inc catchID p s =
     r_bind (ch 1) (\<lambda>_. r_bind (ch (word_of_int (slen inc))) (\<lambda>_.
       r_bind (live_edges ch fn inc []) (\<lambda>expected.
         if expected = [] \<or> length (Operands p) \<noteq> length expected
         then plan_fail ''phi %d missing predecessor operand''
         else
           r_bind (check_operands ch fn p expected (Operands p) {}) (\<lambda>_.
             r_bind (r_lift (PhiID (Some vr) p)) (\<lambda>dst.
               if \<not> S_Local (P_Slot p) then
                 if S_Index (P_Slot p) \<noteq> 0 \<or> dst \<noteq> catchID then plan_fail ''phi %d is not catch binding'' else r_ret s
               else if \<not> spillType (P_Type p) then plan_fail ''phi %d has uninitialized or noncomputational type''
               else each_run (plan_operand ch fn vr cov maxSpills x before bid p dst) (Operands p) s)))))"

definition plan_block ::
    "'c charger \<Rightarrow> 'c charger \<Rightarrow> ssa_fun \<Rightarrow> ValueRegistry \<Rightarrow> coverage \<Rightarrow> int \<Rightarrow> edge_index \<Rightarrow> (u16 \<rightharpoonup> InstructionValues) \<Rightarrow>
     BlockFrame \<Rightarrow> plan_state \<Rightarrow> ('c, plan_state) run" where
  "plan_block ch rd fn vr cov maxSpills x before b s =
     r_bind (ch 1) (\<lambda>_.
       if BF_ID b \<notin> X_handlers x then r_ret s
       else
         r_bind (IncomingWithCounter rd (Some fn) (First b)) (\<lambda>inc.
           r_bind (only_exceptions ch fn inc) (\<lambda>_.
             if length (Stack (BF_In b)) \<noteq> 1 \<or> Kind (Stack (BF_In b) ! 0) \<noteq> RefK \<or>
                length (InOrig b) \<noteq> length (Locals (BF_In b)) + 1
             then plan_fail ''handler %d lacks one typed catch stack value''
             else
               r_bind (r_lift (OriginID (Some vr) (InOrig b ! length (Locals (BF_In b))))) (\<lambda>catchID.
                 r_bind (ch 1) (\<lambda>_.
                   let s = s\<lparr>PS_Catch := PS_Catch s @
                     [\<lparr>CB_Handler = BF_ID b, CB_Destination = catchID, CB_Type = DropValue (Stack (BF_In b) ! 0)\<rparr>]\<rparr> in
                   r_bind (PhisOfWithCounter rd (Some fn) (BF_ID b)) (\<lambda>phis.
                     each_run (plan_phi ch fn vr cov maxSpills x before (BF_ID b) inc catchID) phis s))))))"

section \<open>Scheduling the spills\<close>

text \<open>A step on the counter alone, where the registry is part of the state.\<close>

definition on_counter :: "('c, 'a) run \<Rightarrow> (ValueRegistry \<times> 'c, 'a) run" where
  "on_counter m w = (case w of (r, c) \<Rightarrow> (case m c of (res, c) \<Rightarrow> (res, r, c)))"

definition spill_copy :: "Spill \<Rightarrow> copy" where
  "spill_copy sp = \<lparr>Dst = SP_Destination sp, Src = SP_Source sp\<rparr>"

definition finish_site :: "'c charger \<Rightarrow> SpillSite \<Rightarrow> SpillSite list \<Rightarrow> (ValueRegistry \<times> 'c, SpillSite list) run" where
  "finish_site ch site out =
     r_bind (on_counter (ch 1)) (\<lambda>_.
       r_bind (on_counter (ch (sortWork (slen (SS_Spills site)) + word_of_int (slen (SS_Spills site))))) (\<lambda>_.
         let spills = sort_key SP_Destination (SS_Spills site) in
         r_bind (on_counter (charge_each ch spills)) (\<lambda>_.
           r_bind (sequentializeWithCounter ch (map spill_copy spills)) (\<lambda>ms.
             r_ret (out @ [site\<lparr>SS_Spills := spills, SS_Moves := ms\<rparr>])))))"

definition sites_of ::
    "'c charger \<Rightarrow> 'c charger \<Rightarrow> ssa_fun \<Rightarrow> MethodIR \<Rightarrow> ValueRegistry \<Rightarrow> coverage \<Rightarrow> int \<Rightarrow> ('c, plan_state) run" where
  "sites_of ch rd fn ir vr cov maxSpills =
     (if maxSpills \<le> 0 then plan_fail ''positive spill budget required''
      else
        r_bind (ch (word_of_int (slen (M_Edges ir)))) (\<lambda>_.
          r_bind (index_edges ch fn ir (M_Edges ir) \<lparr>X_byEdge = Map.empty, X_handlers = {}\<rparr>) (\<lambda>x.
            r_bind (index_before ch (Instructions fn) Map.empty) (\<lambda>before.
              r_bind (ch (word_of_int (slen (F_Blocks fn)) + sortWork (slen (F_Blocks fn)))) (\<lambda>_.
                each_run (plan_block ch rd fn vr cov maxSpills x before) (sort_key BF_ID (F_Blocks fn))
                  \<lparr>PS_Catch = [], PS_Sites = [], PS_Spills = (\<lambda>_. Map.empty), PS_Count = 0\<rparr>)))))"

definition exceptionPlan ::
    "'c charger \<Rightarrow> 'c charger \<Rightarrow> ssa_fun \<Rightarrow> MethodIR \<Rightarrow> coverage \<Rightarrow> int \<Rightarrow> (ValueRegistry \<times> 'c, ExceptionPlan) run" where
  "exceptionPlan ch rd fn ir cov maxSpills w =
     r_bind (on_counter (sites_of ch rd fn ir (fst w) cov maxSpills)) (\<lambda>s.
       let sites = map snd (sort_key fst (PS_Sites s)) in
       r_bind (on_counter (ch (word_of_int (slen sites) * 2 + sortWork (slen sites)))) (\<lambda>_.
         r_bind (each_run (finish_site ch) sites []) (\<lambda>out.
           r_ret \<lparr>EP_Sites = out, EP_Catch = PS_Catch s\<rparr>))) w"

end
