(* ===== verification/Lowering.thy ===== *)
theory Lowering
  imports LowerPlan "HOL-Library.Product_Lexorder"
begin

text \<open>
  \<open>core/ssalower/lower.go\<close>: a solved function without phis. Every live edge gets the moves that its
  phis ask for, on a block of its own where the edge is critical; an exception edge gets none, since its copies
  are the spills of the exception plan. \<open>ch\<close>, \<open>rd\<close> and the association lists are those of \<open>LowerPlan\<close>.
\<close>

section \<open>The result\<close>

record EdgeAssign =
  A_Edge :: EdgeID
  A_From :: InstrID
  A_To :: InstrID
  A_Kind :: EdgeKind
  A_Moves :: "move list"
  A_Split :: bool
  A_SplitID :: int
  A_Coverage :: "Range list"
  A_OriginPC :: u16

record SplitBlock =
  SB_ID :: int
  SB_Edge :: EdgeID
  SB_From :: InstrID
  SB_To :: InstrID
  SB_Kind :: EdgeKind
  SB_Moves :: "move list"
  SB_Coverage :: "Range list"
  SB_OriginPC :: u16

record Lowered =
  L_EntryMoves :: "move list"
  L_Values :: ValueRegistry
  L_Exception :: ExceptionPlan
  L_IR :: MethodIR
  L_SSA :: ssa_fun
  L_Assigns :: "EdgeAssign list"
  L_Splits :: "SplitBlock list"
  L_Temps :: int
  L_Coverage :: coverage

section \<open>The copies of an edge\<close>

fun find_operands ::
    "'c charger \<Rightarrow> ValueRegistry \<Rightarrow> ir_edge \<Rightarrow> Phi \<Rightarrow> PhiOperand list \<Rightarrow> bool \<Rightarrow> copy list \<Rightarrow> ('c, bool \<times> copy list) run" where
  "find_operands ch vr e p [] found copies = r_ret (found, copies)"
| "find_operands ch vr e p (op # ops) found copies =
     r_bind (ch 1) (\<lambda>_.
       if PO_Edge op = E_ID e then
         if found then r_fail ''invalid_input: duplicate phi operand''
         else
           r_bind (r_lift (PhiID (Some vr) p)) (\<lambda>dst.
             r_bind (r_lift (OriginID (Some vr) (PO_Origin op))) (\<lambda>src.
               find_operands ch vr e p ops True (copies @ [\<lparr>Dst = dst, Src = src\<rparr>])))
       else find_operands ch vr e p ops found copies)"

definition phi_copy :: "'c charger \<Rightarrow> ValueRegistry \<Rightarrow> ir_edge \<Rightarrow> Phi \<Rightarrow> copy list \<Rightarrow> ('c, copy list) run" where
  "phi_copy ch vr e p copies =
     r_bind (ch 1) (\<lambda>_.
       r_bind (find_operands ch vr e p (Operands p) False copies) (\<lambda>(found, copies).
         if found then r_ret copies else r_fail ''invalid_input: phi %d missing edge %s''))"

definition phiCopiesCheckedWithCounter ::
    "'c charger \<Rightarrow> 'c charger \<Rightarrow> ssa_fun \<Rightarrow> MethodIR \<Rightarrow> ValueRegistry \<Rightarrow> ir_edge \<Rightarrow> ('c, copy list) run" where
  "phiCopiesCheckedWithCounter ch rd fn ir vr e =
     (case BlockOf (Some ir) (E_To e) of
        None \<Rightarrow> r_fail ''invalid_input: edge target missing''
      | Some bl \<Rightarrow>
          r_bind (PhisOfWithCounter rd (Some fn) (B_ID bl)) (\<lambda>phis.
            r_bind (each_run (phi_copy ch vr e) phis []) (\<lambda>copies.
              r_bind (ch (sortWork (slen copies))) (\<lambda>_. r_ret (sort_key Dst copies)))))"

text \<open>The moves of an edge, with the temporaries they took from the registry.\<close>

definition edge_moves ::
    "'c charger \<Rightarrow> 'c charger \<Rightarrow> ssa_fun \<Rightarrow> MethodIR \<Rightarrow> ir_edge \<Rightarrow> (ValueRegistry \<times> 'c, move list) run" where
  "edge_moves ch rd fn ir e w =
     r_bind (on_counter (phiCopiesCheckedWithCounter ch rd fn ir (fst w) e)) (sequentializeWithCounter ch) w"

section \<open>The edges\<close>

text \<open>How many live edges leave and enter an instruction.\<close>

fun count_ends ::
    "'c charger \<Rightarrow> ssa_fun \<Rightarrow> ir_edge list \<Rightarrow> (InstrID \<Rightarrow> int) \<times> (InstrID \<Rightarrow> int) \<Rightarrow> ('c, (InstrID \<Rightarrow> int) \<times> (InstrID \<Rightarrow> int)) run" where
  "count_ends ch fn [] n = r_ret n"
| "count_ends ch fn (e # es) n =
     r_bind (ch 1) (\<lambda>_.
       count_ends ch fn es
         (if live fn (E_ID e) then ((fst n)(E_From e := fst n (E_From e) + 1), (snd n)(E_To e := snd n (E_To e) + 1))
          else n))"

fun entry_moves ::
    "'c charger \<Rightarrow> 'c charger \<Rightarrow> ssa_fun \<Rightarrow> MethodIR \<Rightarrow> ir_edge list \<Rightarrow> move list \<Rightarrow> (ValueRegistry \<times> 'c, move list) run" where
  "entry_moves ch rd fn ir [] ms = r_ret ms"
| "entry_moves ch rd fn ir (e # es) ms =
     (if E_Kind e \<noteq> EntryEdgeKind then entry_moves ch rd fn ir es ms
      else r_bind (edge_moves ch rd fn ir e) (entry_moves ch rd fn ir es))"

definition plain_assign :: "ir_edge \<Rightarrow> Range list \<Rightarrow> EdgeAssign" where
  "plain_assign e rs =
     \<lparr>A_Edge = E_ID e, A_From = E_From e, A_To = E_To e, A_Kind = E_Kind e, A_Moves = [], A_Split = False,
      A_SplitID = 0, A_Coverage = rs, A_OriginPC = E_From e\<rparr>"

definition split_block :: "int \<Rightarrow> ir_edge \<Rightarrow> Range list \<Rightarrow> move list \<Rightarrow> SplitBlock" where
  "split_block n e rs ms =
     \<lparr>SB_ID = n, SB_Edge = E_ID e, SB_From = E_From e, SB_To = E_To e, SB_Kind = E_Kind e, SB_Moves = ms,
      SB_Coverage = rs, SB_OriginPC = E_From e\<rparr>"

text \<open>The loop over the edges: the number of splits, the splits and the assignments so far.\<close>

type_synonym emitted = "SplitBlock list \<times> EdgeAssign list"

definition emit_edge ::
    "'c charger \<Rightarrow> 'c charger \<Rightarrow> ssa_fun \<Rightarrow> MethodIR \<Rightarrow> coverage \<Rightarrow> (InstrID \<Rightarrow> int) \<times> (InstrID \<Rightarrow> int) \<Rightarrow>
     ir_edge \<Rightarrow> emitted \<Rightarrow> (ValueRegistry \<times> 'c, emitted) run" where
  "emit_edge ch rd fn ir cov n e out =
     r_bind (on_counter (ch 1)) (\<lambda>_.
       if \<not> live fn (E_ID e) then r_ret out
       else
         r_bind (on_counter (rangesForPCWithCounter ch cov (E_From e))) (\<lambda>rs.
           let ea = plain_assign e rs in
           if E_Kind e = EdgeException then
             r_bind (on_counter (ch 1)) (\<lambda>_. r_ret (fst out, snd out @ [ea]))
           else
             r_bind (edge_moves ch rd fn ir e) (\<lambda>ms.
               if fst n (E_From e) > 1 \<and> snd n (E_To e) > 1 \<and> ms \<noteq> [] then
                 r_bind (on_counter (ch 2)) (\<lambda>_.
                   let split = split_block (slen (fst out) + 1) e rs ms in
                   r_bind (on_counter (ch 1)) (\<lambda>_.
                     r_ret (fst out @ [split], snd out @ [ea\<lparr>A_Split := True, A_SplitID := SB_ID split\<rparr>])))
               else
                 r_bind (on_counter (ch 1)) (\<lambda>_. r_ret (fst out, snd out @ [ea\<lparr>A_Moves := ms\<rparr>])))))"

text \<open>The assignments sorted by edge, then by split, then by their number of moves.\<close>

definition assign_order :: "EdgeAssign \<Rightarrow> string \<times> int \<times> bool \<times> nat" where
  "assign_order a = (EdgeID_String (A_Edge a), A_SplitID a, A_Split a, length (A_Moves a))"

section \<open>Destroy\<close>

definition lower_with ::
    "'c charger \<Rightarrow> 'c charger \<Rightarrow> ssa_fun \<Rightarrow> MethodIR \<Rightarrow> coverage \<Rightarrow> (InstrID \<Rightarrow> int) \<times> (InstrID \<Rightarrow> int) \<Rightarrow> int \<Rightarrow>
     (ValueRegistry \<times> 'c, Lowered) run" where
  "lower_with ch rd fn ir cov n maxSpills =
     r_bind (exceptionPlan ch rd fn ir cov maxSpills) (\<lambda>plan.
       r_bind (on_counter (IncomingWithCounter rd (Some fn) (M_EntryPC ir))) (\<lambda>inc.
         r_bind (entry_moves ch rd fn ir inc []) (\<lambda>ems.
           r_bind (each_run (emit_edge ch rd fn ir cov n) (M_Edges ir) ([], [])) (\<lambda>(splits, assigns).
             r_bind (on_counter (ch (sortWork (slen assigns)))) (\<lambda>_ (vr, c).
               (Inr \<lparr>L_EntryMoves = ems, L_Values = vr, L_Exception = plan, L_IR = ir, L_SSA = fn,
                     L_Assigns = sort_key assign_order assigns, L_Splits = splits, L_Temps = temps vr, L_Coverage = cov\<rparr>,
                vr, c))))))"

text \<open>\<open>edge_states\<close> are the states in the order in which the map of edge states yields them.\<close>

definition DestroyWithWorkCounter ::
    "'c charger \<Rightarrow> 'c charger \<Rightarrow> ssa_fun option \<Rightarrow> EdgeState list \<Rightarrow> int \<Rightarrow> ('c, Lowered) run" where
  "DestroyWithWorkCounter ch rd fp edge_states maxSpills =
     (case fp of
        None \<Rightarrow> r_fail ''invalid_input: nil SSA''
      | Some fn \<Rightarrow>
          (case F_IR fn of
             None \<Rightarrow> r_fail ''invalid_input: nil SSA''
           | Some ir \<Rightarrow>
               r_bind (coverageMapWithCounter ch (Some ir)) (\<lambda>cov.
                 r_bind (count_ends ch fn (M_Edges ir) (\<lambda>_. 0, \<lambda>_. 0)) (\<lambda>n.
                   r_bind (registryForWithCounter ch fn edge_states) (\<lambda>vr c.
                     case lower_with ch rd fn ir cov n maxSpills (vr, c) of (res, _, c) \<Rightarrow> (res, c))))))"

definition DestroyWithOptions :: "ssa_fun option \<Rightarrow> EdgeState list \<Rightarrow> int \<Rightarrow> ssa_error + Lowered" where
  "DestroyWithOptions fp edge_states maxSpills =
     fst (DestroyWithWorkCounter (\<lambda>_. r_ret ()) (\<lambda>_. r_ret ()) fp edge_states maxSpills ())"

definition Destroy :: "ssa_fun option \<Rightarrow> EdgeState list \<Rightarrow> ssa_error + Lowered" where
  "Destroy fp edge_states = DestroyWithOptions fp edge_states 100000"

section \<open>Reading the result\<close>

definition SplitFor :: "Lowered \<Rightarrow> EdgeID \<Rightarrow> SplitBlock option" where
  "SplitFor l i = find (\<lambda>s. SB_Edge s = i) (L_Splits l)"

definition MovesOn :: "Lowered \<Rightarrow> EdgeID \<Rightarrow> move list" where
  "MovesOn l i =
     (case SplitFor l i of
        Some s \<Rightarrow> SB_Moves s
      | None \<Rightarrow> (case find (\<lambda>a. A_Edge a = i) (L_Assigns l) of None \<Rightarrow> [] | Some a \<Rightarrow> A_Moves a))"

definition CoverageEqual :: "Range list \<Rightarrow> Range list \<Rightarrow> bool" where
  "CoverageEqual a b \<longleftrightarrow> length a = length b \<and> list_all2 (=) a b"

definition CoverageMapsEqual :: "coverage \<Rightarrow> coverage \<Rightarrow> bool" where
  "CoverageMapsEqual a b \<longleftrightarrow> length a = length b \<and> list_all (\<lambda>(pc, rs). CoverageEqual rs (ranges_at b pc)) a"

definition identityMoves :: "move list \<Rightarrow> bool" where
  "identityMoves ms \<longleftrightarrow> list_all (\<lambda>m. Dst m = Src m) ms"

fun maps_equal :: "'c charger \<Rightarrow> coverage \<Rightarrow> coverage \<Rightarrow> ('c, bool) run" where
  "maps_equal ch [] b = r_ret True"
| "maps_equal ch ((pc, rs) # a) b =
     r_bind (ch (word_of_int (slen rs) + 1)) (\<lambda>_.
       if CoverageEqual rs (ranges_at b pc) then maps_equal ch a b else r_ret False)"

definition coverageMapsEqualWithCounter :: "'c charger \<Rightarrow> coverage \<Rightarrow> coverage \<Rightarrow> ('c, bool) run" where
  "coverageMapsEqualWithCounter ch a b = (if length a \<noteq> length b then r_ret False else maps_equal ch a b)"

definition coverageEqualWithCounter :: "'c charger \<Rightarrow> Range list \<Rightarrow> Range list \<Rightarrow> ('c, bool) run" where
  "coverageEqualWithCounter ch a b = r_bind (ch (word_of_int (slen a))) (\<lambda>_. r_ret (CoverageEqual a b))"

fun assigns_unmoved :: "'c charger \<Rightarrow> coverage \<Rightarrow> EdgeAssign list \<Rightarrow> ('c, bool) run" where
  "assigns_unmoved ch orig [] = r_ret True"
| "assigns_unmoved ch orig (a # as) =
     r_bind (ch 1) (\<lambda>_.
       if A_Kind a \<noteq> EdgeException then assigns_unmoved ch orig as
       else
         r_bind (rangesForPCWithCounter ch orig (A_OriginPC a)) (\<lambda>expected.
           r_bind (coverageEqualWithCounter ch (A_Coverage a) expected) (\<lambda>same.
             if \<not> same then r_ret False
             else
               r_bind (ch (word_of_int (slen (A_Moves a)))) (\<lambda>_.
                 if identityMoves (A_Moves a) then assigns_unmoved ch orig as else r_ret False))))"

fun splits_unmoved :: "'c charger \<Rightarrow> coverage \<Rightarrow> SplitBlock list \<Rightarrow> ('c, bool) run" where
  "splits_unmoved ch orig [] = r_ret True"
| "splits_unmoved ch orig (s # ss) =
     r_bind (ch 1) (\<lambda>_.
       if SB_Kind s = EdgeException then r_ret False
       else
         r_bind (rangesForPCWithCounter ch orig (SB_OriginPC s)) (\<lambda>expected.
           r_bind (coverageEqualWithCounter ch (SB_Coverage s) expected) (\<lambda>same.
             if same then splits_unmoved ch orig ss else r_ret False)))"

definition ThrowsUnmovedWithCounter :: "'c charger \<Rightarrow> Lowered option \<Rightarrow> ('c, bool) run" where
  "ThrowsUnmovedWithCounter ch lp =
     (case lp of
        None \<Rightarrow> r_ret True
      | Some l \<Rightarrow>
          r_bind (coverageMapWithCounter ch (Some (L_IR l))) (\<lambda>orig.
            r_bind (coverageMapsEqualWithCounter ch orig (L_Coverage l)) (\<lambda>same.
              if \<not> same then r_ret False
              else
                r_bind (assigns_unmoved ch orig (L_Assigns l)) (\<lambda>ok.
                  if ok then splits_unmoved ch orig (L_Splits l) else r_ret False))))"

definition ThrowsUnmoved :: "Lowered option \<Rightarrow> bool" where
  "ThrowsUnmoved lp = (case fst (ThrowsUnmovedWithCounter (\<lambda>_. r_ret ()) lp ()) of Inl _ \<Rightarrow> False | Inr ok \<Rightarrow> ok)"

end
