(* ===== verification/LowerEdges.thy ===== *)
theory LowerEdges
  imports Lowering
begin

text \<open>
  What lowering puts on the edges: the moves of an edge give every phi of its target the value of the
  operand of that edge, change no other value of the function, stand on a block of their own exactly where the
  edge is critical, and no exception edge carries any.
\<close>

section \<open>Identities that are drawn\<close>

locale drawn_temps = kept_runs P ch nextTemp
  for P :: "'w \<Rightarrow> bool" and ch :: "'w charger" and nextTemp :: "('w \<Rightarrow> VarID \<times> 'w) option" +
  fixes Q :: "VarID \<Rightarrow> bool"
  assumes drawn: "nextTemp = Some draw \<Longrightarrow> P w \<Longrightarrow> draw w = (t, w') \<Longrightarrow> 0 < t \<Longrightarrow> Q t"
begin

lemma break_drawn:
  assumes "break_cycle ch nextTemp s w = (Inr s', w')" and "P w" and "\<forall>t\<in>temps_of (moves s). Q t"
  shows "\<forall>t\<in>temps_of (moves s'). Q t"
  using assms drawn by (auto simp: break_cycle_Inr redirect_def Let_def)

lemma round_drawn:
  assumes "sched_round ch nextTemp s w = (Inr s', w')" and "P w" and "\<forall>t\<in>temps_of (moves s). Q t"
  shows "\<forall>t\<in>temps_of (moves s'). Q t"
proof -
  from assms(1) obtain s1 w1 w2 where c: "ch 1 w = (Inr (), w1)" and d: "drain ch s w1 = (Inr s1, w2)"
    and r: "(if pending s1 = [] then r_ret s1 else break_cycle ch nextTemp s1) w2 = (Inr s', w')"
    by (auto simp: sched_round_def r_bind_Inr)
  have "P w1" using ch [of 1] c assms(2) by (auto simp: kept_def dest: spec [of _ w])
  then have "P w2" using drain_kept [of s] d by (auto simp: kept_def dest: spec [of _ w1])
  moreover have "\<forall>t\<in>temps_of (moves s1). Q t"
    using drain_keeps [of "\<lambda>s. \<forall>t\<in>temps_of (moves s). Q t", OF _ d assms(3)] take_ready_temps by auto
  ultimately show ?thesis using r break_drawn by (auto split: if_splits)
qed

lemma loop_drawn:
  "sched_loop ch nextTemp s w = (Inr s', w') \<Longrightarrow> P w \<Longrightarrow> \<forall>t\<in>temps_of (moves s). Q t \<Longrightarrow> \<forall>t\<in>temps_of (moves s'). Q t"
proof (induction "if pending s = [] then 0 else Suc (length (all_ids s))" arbitrary: s w rule: less_induct)
  case less
  show ?case
  proof (cases "pending s = []")
    case True
    then show ?thesis using less.prems by (simp add: sched_loop.simps [of ch nextTemp s])
  next
    case False
    with less.prems(1) obtain s1 w1 where r: "sched_round ch nextTemp s w = (Inr s1, w1)"
      and l: "sched_loop ch nextTemp s1 w1 = (Inr s', w')"
      by (auto simp: sched_loop.simps [of ch nextTemp s] r_bind_Inr)
    have "P w1" using round_kept [of s] r less.prems(2) by (auto simp: kept_def dest: spec [of _ w])
    moreover have "\<forall>t\<in>temps_of (moves s1). Q t" using round_drawn [OF r] less.prems by blast
    moreover have "(if pending s1 = [] then 0 else Suc (length (all_ids s1)))
        < (if pending s = [] then 0 else Suc (length (all_ids s)))"
      using sched_round_decreases [OF r] False by auto
    ultimately show ?thesis using less.hyps l by blast
  qed
qed

lemma sequentialize_drawn:
  assumes "sequentializeChecked ch nextTemp cs w = (Inr ms, w')" and "P w"
  shows "\<forall>t\<in>temps_of ms. Q t"
proof -
  from assms(1) obtain s w1 w2 w3 where c: "chargeScaledWork ch (slen cs) 4 w = (Inr (), w1)"
    and sc: "scan_copies ch cs {} no_sched w1 = (Inr s, w2)"
    and c': "chargeScaledWork ch (slen (pending s)) 2 w2 = (Inr (), w3)"
    and l: "r_bind (sched_loop ch nextTemp (seed_heaps s)) (\<lambda>s. r_ret (moves s)) w3 = (Inr ms, w')"
    by (auto simp: sequentializeChecked_def r_bind_Inr)
  then have "P w3" using scaled_kept scan_kept assms(2) unfolding kept_def by (metis snd_conv)
  moreover have "moves (seed_heaps s) = []"
    using scan_copies_Inr [OF sc] begun_good(5) by (auto simp: begun_def good_copies_def)
  ultimately show ?thesis using l loop_drawn by (auto simp: r_bind_Inr temps_of_def)
qed

end

section \<open>What lowering leaves of the registry\<close>

text \<open>
  The registry \<open>r\<close> lowering starts with is kept: its keys, the data of its values, and above them there are
  temporaries only.
\<close>

definition extends_registry :: "ValueRegistry \<Rightarrow> ValueRegistry \<Rightarrow> bool" where
  "extends_registry r r' \<longleftrightarrow>
     ids r' = ids r \<and> next_id r \<le> next_id r' \<and> (\<forall>x<next_id r. Info r' x = Info r x) \<and>
     (\<forall>x\<ge>next_id r. \<forall>i. Info r' x = Some i \<longrightarrow> Temporary i)"

interpretation next_ids: drawn_temps "\<lambda>w. n \<le> next_id (fst w)" "seq_charge ch" "Some seq_fresh" "\<lambda>t. n \<le> t"
  for n ch
  by unfold_locales
    (auto simp: kept_def seq_charge_def seq_fresh_def Fresh_def split: prod.splits sum.splits if_splits)

lemma tag_temps_keeps:
  "tag_temps ch ms (r, c) = (res, r', c') \<Longrightarrow>
   ids r' = ids r \<and> next_id r' = next_id r \<and> (\<forall>x. x \<notin> temps_of ms \<longrightarrow> Info r' x = Info r x) \<and>
   (\<forall>x i. Info r' x = Some i \<longrightarrow> Info r x = Some i \<or> Temporary i)"
proof (induction ms arbitrary: r c)
  case (Cons m ms)
  have t: "temps_of (m # ms) = (if Tmp m then insert (Dst m) (temps_of ms) else temps_of ms)"
    by (auto simp: temps_of_def)
  show ?case
  proof (cases "\<exists>c1 i. ch 1 c = (Inr (), c1) \<and> Tmp m \<and> Info r (Src m) = Some i \<and> I_Width i \<noteq> 0")
    case True
    then obtain c1 i where 1: "ch 1 c = (Inr (), c1)" "Tmp m" "Info r (Src m) = Some i" "I_Width i \<noteq> 0" by blast
    let ?r = "r\<lparr>Info := (Info r)(Dst m \<mapsto> i\<lparr>Temporary := True, I_Source := Src m\<rparr>)\<rparr>"
    from Cons.prems 1 have "tag_temps ch ms (?r, c1) = (res, r', c')" by simp
    note ih = Cons.IH [OF this]
    have "Temporary j" if "Info ?r x = Some j" "Info r x \<noteq> Some j" for x j
      using that by (auto split: if_splits)
    then show ?thesis using ih 1(2) t by auto (metis fun_upd_other)+
  next
    case False
    then show ?thesis using Cons t by (auto split: prod.splits sum.splits if_splits option.splits)
  qed
qed simp

lemma sequentialize_extends:
  assumes "sequentializeWithCounter ch cs (r1, c) = (Inr ms, r2, c')" and "extends_registry r r1"
  shows "extends_registry r r2" and "\<forall>t\<in>temps_of ms. next_id r \<le> t"
proof -
  obtain r3 c1 c2 where sq: "sequentializeChecked (seq_charge ch) (Some seq_fresh) cs (r1, None, c1) = (Inr ms, r3, None, c2)"
    and tag: "tag_temps ch ms (r3, c2) = (Inr (), r2, c')"
    by (rule sequentialize_registry_Inr [OF assms(1)])
  have n: "next_id r \<le> next_id r1" using assms(2) by (simp add: extends_registry_def)
  with next_ids.sequentialize_drawn [OF sq, of "next_id r"] show t: "\<forall>t\<in>temps_of ms. next_id r \<le> t" by simp
  have "next_id r \<le> next_id r3"
    using next_ids.sequentialize_kept [of "next_id r" ch cs] sq n unfolding kept_def by (metis fst_conv snd_conv)
  moreover note seq_keeps_info [OF sq] tag_temps_keeps [OF tag]
  ultimately show "extends_registry r r2"
    using assms(2) t unfolding extends_registry_def by (metis leD)
qed

section \<open>The copies of an edge\<close>

text \<open>The copy that a phi asks for: it has one operand for the edge.\<close>

definition phi_copy_of :: "ValueRegistry \<Rightarrow> EdgeID \<Rightarrow> Phi \<Rightarrow> copy \<Rightarrow> bool" where
  "phi_copy_of r i p c \<longleftrightarrow>
     (\<exists>op. filter (\<lambda>op. PO_Edge op = i) (Operands p) = [op] \<and> PhiID (Some r) p = Inr (Dst c) \<and>
        OriginID (Some r) (PO_Origin op) = Inr (Src c))"

lemma find_operands_Inr:
  "find_operands ch r e p ops found cs w = (Inr (f, cs'), w') \<Longrightarrow>
   (case filter (\<lambda>op. PO_Edge op = E_ID e) ops of
      [] \<Rightarrow> f = found \<and> cs' = cs
    | op # ops' \<Rightarrow> ops' = [] \<and> \<not> found \<and> f \<and>
        (\<exists>c. cs' = cs @ [c] \<and> PhiID (Some r) p = Inr (Dst c) \<and> OriginID (Some r) (PO_Origin op) = Inr (Src c)))"
proof (induction ops arbitrary: found cs w)
  case (Cons op ops)
  show ?case
  proof (cases "PO_Edge op = E_ID e")
    case True
    with Cons.prems obtain w1 d s where n: "\<not> found" "PhiID (Some r) p = Inr d" "OriginID (Some r) (PO_Origin op) = Inr s"
      and "find_operands ch r e p ops True (cs @ [\<lparr>Dst = d, Src = s\<rparr>]) w1 = (Inr (f, cs'), w')"
      by (auto simp: r_bind_Inr split: if_splits)
    from Cons.IH [OF this(4)] show ?thesis using True n by (auto split: list.splits)
  next
    case False
    with Cons.prems obtain w1 where "find_operands ch r e p ops found cs w1 = (Inr (f, cs'), w')"
      by (auto simp: r_bind_Inr)
    from Cons.IH [OF this] show ?thesis using False by simp
  qed
qed simp

lemma phi_copy_Inr:
  assumes "phi_copy ch r e p cs w = (Inr cs', w')"
  shows "\<exists>c. cs' = cs @ [c] \<and> phi_copy_of r (E_ID e) p c"
proof -
  from assms obtain w1 where "find_operands ch r e p (Operands p) False cs w1 = (Inr (True, cs'), w')"
    by (auto simp: phi_copy_def r_bind_Inr split: if_splits)
  from find_operands_Inr [OF this] show ?thesis by (auto simp: phi_copy_of_def split: list.splits)
qed

lemma phi_copies_each:
  "each_run (phi_copy ch r e) ps cs w = (Inr cs', w') \<Longrightarrow> \<exists>new. cs' = cs @ new \<and> list_all2 (phi_copy_of r (E_ID e)) ps new"
proof (induction ps arbitrary: cs w)
  case (Cons p ps)
  then obtain cs1 w1 where p: "phi_copy ch r e p cs w = (Inr cs1, w1)" and r: "each_run (phi_copy ch r e) ps cs1 w1 = (Inr cs', w')"
    by (auto simp: r_bind_Inr)
  from Cons.IH [OF r] phi_copy_Inr [OF p] show ?case by fastforce
qed simp

lemma phiCopies_Inr:
  assumes "phiCopiesCheckedWithCounter ch rd fn ir r e w = (Inr cs, w')"
  obtains b where "BlockOf (Some ir) (E_To e) = Some b"
    "\<And>p. p \<in> set (PhisOf fn (B_ID b)) \<Longrightarrow> \<exists>c\<in>set cs. phi_copy_of r (E_ID e) p c"
    "\<And>c. c \<in> set cs \<Longrightarrow> \<exists>p\<in>set (PhisOf fn (B_ID b)). phi_copy_of r (E_ID e) p c"
proof -
  from assms obtain b ps w1 cs1 w2 where b: "BlockOf (Some ir) (E_To e) = Some b"
    and ps: "PhisOfWithCounter rd (Some fn) (B_ID b) w = (Inr ps, w1)"
    and e: "each_run (phi_copy ch r e) ps [] w1 = (Inr cs1, w2)" and cs: "cs = sort_key Dst cs1"
    by (auto simp: phiCopiesCheckedWithCounter_def r_bind_Inr split: option.splits)
  from phi_copies_each [OF e] have l: "list_all2 (phi_copy_of r (E_ID e)) ps cs1" by simp
  have s: "set ps = set (PhisOf fn (B_ID b))" "set cs = set cs1"
    using PhisOfWithCounter_Inr [OF ps] cs by simp_all
  show ?thesis
    by (rule that [OF b]) (use l s in \<open>metis in_set_conv_nth list_all2_conv_all_nth\<close>)+
qed

section \<open>The moves of an edge\<close>

text \<open>
  \<open>carries fn ir r e ms\<close>: the moves give each phi of the target block the value that its operand for
  the edge had, and leave every other registered value.
\<close>

definition carries :: "ssa_fun \<Rightarrow> MethodIR \<Rightarrow> ValueRegistry \<Rightarrow> ir_edge \<Rightarrow> move list \<Rightarrow> bool" where
  "carries fn ir r e ms \<longleftrightarrow>
     (\<exists>b. BlockOf (Some ir) (E_To e) = Some b \<and>
        (\<forall>p\<in>set (PhisOf fn (B_ID b)). \<exists>c. phi_copy_of r (E_ID e) p c \<and>
           (\<forall>st. read_var (SerialEval ms st) (Dst c) = read_var st (Src c))) \<and>
        (\<forall>x<next_id r. (\<forall>p\<in>set (PhisOf fn (B_ID b)). PhiID (Some r) p \<noteq> Inr x) \<longrightarrow>
           (\<forall>st. read_var (SerialEval ms st) x = read_var st x)))"

lemma IDs_cong: "ids r = ids r' \<Longrightarrow> PhiID (Some r) = PhiID (Some r') \<and> OriginID (Some r) = OriginID (Some r')"
  by (auto simp: PhiID_def OriginID_def Lookup_def fun_eq_iff)

lemma on_counter_Inr: "on_counter m (r, c) = (Inr a, w') \<longleftrightarrow> (\<exists>c'. m c = (Inr a, c') \<and> w' = (r, c'))"
  by (auto simp: on_counter_def split: prod.splits)

lemma edge_moves_carry:
  assumes "edge_moves ch rd fn ir e (r1, c) = (Inr ms, r2, c')" and x: "extends_registry r r1"
  shows "extends_registry r r2 \<and> carries fn ir r e ms"
proof -
  from assms(1) obtain cs c1 where pc: "phiCopiesCheckedWithCounter ch rd fn ir r1 e c = (Inr cs, c1)"
    and sq: "sequentializeWithCounter ch cs (r1, c1) = (Inr ms, r2, c')"
    by (auto simp: edge_moves_def r_bind_Inr on_counter_Inr)
  note ext = sequentialize_extends [OF sq x]
  have same: "phi_copy_of r1 = phi_copy_of r" "PhiID (Some r1) = PhiID (Some r)"
    using x IDs_cong [of r1 r] by (auto simp: phi_copy_of_def extends_registry_def fun_eq_iff)
  obtain b where b: "BlockOf (Some ir) (E_To e) = Some b"
    and all: "\<And>p. p \<in> set (PhisOf fn (B_ID b)) \<Longrightarrow> \<exists>c\<in>set cs. phi_copy_of r (E_ID e) p c"
    and only: "\<And>c. c \<in> set cs \<Longrightarrow> \<exists>p\<in>set (PhisOf fn (B_ID b)). phi_copy_of r (E_ID e) p c"
    by (rule phiCopies_Inr [OF pc, unfolded same]) (rule that; assumption)
  obtain r3 c2 c3 where sc: "sequentializeChecked (seq_charge ch) (Some seq_fresh) cs (r1, None, c2) = (Inr ms, r3, None, c3)"
    by (rule sequentialize_registry_Inr [OF sq])
  have g: "distinct (map Dst cs)" by (rule sequentialize_Inr [OF sc]) (simp add: good_copies_def)
  have op: "temps_of ms \<inter> operands cs = {}" by (rule sequentialize_made_of(3) [OF sc])
  have "\<exists>c. phi_copy_of r (E_ID e) p c \<and> (\<forall>st. read_var (SerialEval ms st) (Dst c) = read_var st (Src c))"
    if "p \<in> set (PhisOf fn (B_ID b))" for p
  proof -
    from all [OF that] obtain c where c: "c \<in> set cs" "phi_copy_of r (E_ID e) p c" by blast
    then have "Dst c \<notin> temps_of ms" using op by (auto simp: operands_def)
    from scheduled_state [OF sc this] wanted_dst [OF g c(1)] show ?thesis using c(2) by (auto simp: wanted_def)
  qed
  moreover have "read_var (SerialEval ms st) x = read_var st x"
    if "x < next_id r" and "\<forall>p\<in>set (PhisOf fn (B_ID b)). PhiID (Some r) p \<noteq> Inr x" for x st
  proof -
    from that(1) ext(2) have t: "x \<notin> temps_of ms" by force
    have "x \<notin> Dst ` set cs" using only that(2) by (auto simp: phi_copy_of_def)
    with scheduled_state [OF sc t] wanted_other [of x cs st] show ?thesis by (simp add: wanted_def)
  qed
  ultimately show ?thesis using ext(1) b by (auto simp: carries_def)
qed

section \<open>The exception plan and the entry\<close>

lemma each_run_keeps:
  assumes "\<And>x s w s' w'. x \<in> set xs \<Longrightarrow> f x s w = (Inr s', w') \<Longrightarrow> I s w \<Longrightarrow> I s' w'"
  shows "each_run f xs s w = (Inr s', w') \<Longrightarrow> I s w \<Longrightarrow> I s' w'"
  using assms
proof (induction xs arbitrary: s w)
  case (Cons x xs)
  from Cons.prems(1) obtain s1 w1 where "f x s w = (Inr s1, w1)" "each_run f xs s1 w1 = (Inr s', w')"
    by (auto simp: r_bind_Inr)
  with Cons show ?case by (metis list.set_intros)
qed simp

lemma index_edges_distinct:
  "index_edges ch fn ir es x w = (Inr x', w') \<Longrightarrow>
   distinct (map E_ID es) \<and> (\<forall>e\<in>set es. X_byEdge x (E_ID e) = None) \<and>
   (\<forall>e\<in>set es. X_byEdge x' (E_ID e) = Some e) \<and> (\<forall>i. i \<notin> E_ID ` set es \<longrightarrow> X_byEdge x' i = X_byEdge x i)"
proof (induction es arbitrary: x w)
  case (Cons e es)
  then have n: "X_byEdge x (E_ID e) = None" by (auto simp: r_bind_Inr plan_fail_def split: if_splits)
  have "\<exists>y w1. index_edges ch fn ir es y w1 = (Inr x', w') \<and> X_byEdge y = (X_byEdge x)(E_ID e \<mapsto> e)"
    using Cons.prems by (fastforce simp: r_bind_Inr Let_def plan_fail_def split: if_splits option.splits)
  then obtain y w1 where r: "index_edges ch fn ir es y w1 = (Inr x', w')" and y: "X_byEdge y = (X_byEdge x)(E_ID e \<mapsto> e)"
    by blast
  have "E_ID e \<notin> E_ID ` set es" using Cons.IH [OF r] y by auto
  with Cons.IH [OF r] n show ?case
    unfolding y by (auto split: if_splits)
qed simp

lemma finish_site_extends:
  assumes "finish_site ch site out (r1, c) = (Inr out', r2, c')" and "extends_registry r r1"
  shows "extends_registry r r2"
proof -
  from assms(1) obtain cs c1 ms where "sequentializeWithCounter ch cs (r1, c1) = (Inr ms, r2, c')"
    by (auto simp: finish_site_def r_bind_Inr on_counter_Inr Let_def)
  then show ?thesis using assms(2) by (rule sequentialize_extends)
qed

lemma exceptionPlan_Inr:
  assumes "exceptionPlan ch rd fn ir cov maxSpills (r, c) = (Inr plan, r', c')"
  shows "extends_registry r r \<Longrightarrow> extends_registry r r'" and "distinct (map E_ID (M_Edges ir))"
proof -
  from assms obtain s c1 c2 out where s: "sites_of ch rd fn ir r cov maxSpills c = (Inr s, c1)"
    and e: "each_run (finish_site ch) (map snd (sort_key fst (PS_Sites s))) [] (r, c2) = (Inr out, r', c')"
    by (auto simp: exceptionPlan_def r_bind_Inr on_counter_Inr Let_def)
  have "extends_registry r (fst w')"
    if "finish_site ch site out w = (Inr out', w')" "extends_registry r (fst w)" for site out out' w w'
    using finish_site_extends that by (cases w; cases w') auto
  then show "extends_registry r r'" if "extends_registry r r"
    using each_run_keeps [of _ _ "\<lambda>_ w. extends_registry r (fst w)", OF _ e] that by simp
  show "distinct (map E_ID (M_Edges ir))"
  proof -
    from s obtain x w1 w2 where "index_edges ch fn ir (M_Edges ir) \<lparr>X_byEdge = Map.empty, X_handlers = {}\<rparr> w1 = (Inr x, w2)"
      by (auto simp: sites_of_def r_bind_Inr plan_fail_def split: if_splits)
    then show ?thesis by (rule conjunct1 [OF index_edges_distinct])
  qed
qed

lemma entry_moves_extends:
  "entry_moves ch rd fn ir es ms (r1, c) = (Inr ms', r2, c') \<Longrightarrow> extends_registry r r1 \<Longrightarrow> extends_registry r r2"
proof (induction es arbitrary: ms r1 c)
  case (Cons e es)
  show ?case
  proof (cases "E_Kind e = EntryEdgeKind")
    case True
    with Cons.prems(1) obtain ms1 r3 c3 where m: "edge_moves ch rd fn ir e (r1, c) = (Inr ms1, r3, c3)"
      and "entry_moves ch rd fn ir es ms1 (r3, c3) = (Inr ms', r2, c')"
      by (auto simp: r_bind_Inr)
    with Cons.IH edge_moves_carry [OF m Cons.prems(2)] show ?thesis by blast
  qed (use Cons in simp)
qed simp

section \<open>The loop over the edges\<close>

lemma count_ends_Inr:
  "count_ends ch fn es n w = (Inr n', w') \<Longrightarrow>
   fst n' i = fst n i + slen (filter (\<lambda>e. live fn (E_ID e) \<and> E_From e = i) es) \<and>
   snd n' i = snd n i + slen (filter (\<lambda>e. live fn (E_ID e) \<and> E_To e = i) es)"
proof (induction es arbitrary: n w)
  case (Cons e es)
  let ?n = "if live fn (E_ID e) then ((fst n)(E_From e := fst n (E_From e) + 1), (snd n)(E_To e := snd n (E_To e) + 1)) else n"
  from Cons.prems obtain w1 where "count_ends ch fn es ?n w1 = (Inr n', w')" by (auto simp: r_bind_Inr)
  from Cons.IH [OF this] show ?case by (auto simp: slen_def)
qed (simp add: slen_def)

definition critical :: "ssa_fun \<Rightarrow> MethodIR \<Rightarrow> ir_edge \<Rightarrow> bool" where
  "critical fn ir e \<longleftrightarrow>
     (\<exists>e'\<in>set (M_Edges ir). E_ID e' \<noteq> E_ID e \<and> live fn (E_ID e') \<and> E_From e' = E_From e) \<and>
     (\<exists>e'\<in>set (M_Edges ir). E_ID e' \<noteq> E_ID e \<and> live fn (E_ID e') \<and> E_To e' = E_To e)"

text \<open>What the loop has emitted for one edge.\<close>

definition assigned :: "ssa_fun \<Rightarrow> MethodIR \<Rightarrow> coverage \<Rightarrow> ValueRegistry \<Rightarrow> SplitBlock list \<Rightarrow> EdgeAssign \<Rightarrow> ir_edge \<Rightarrow> bool" where
  "assigned fn ir cov r splits a e \<longleftrightarrow>
     A_Edge a = E_ID e \<and> A_Kind a = E_Kind e \<and> A_OriginPC a = E_From e \<and> live fn (E_ID e) \<and>
     A_Coverage a = sort_key R_Order (ranges_at cov (E_From e)) \<and>
     (if E_Kind e = EdgeException then A_Moves a = [] \<and> \<not> A_Split a
      else if A_Split a then \<exists>s\<in>set splits. SB_Edge s = E_ID e
      else carries fn ir r e (A_Moves a) \<and> (critical fn ir e \<longrightarrow> A_Moves a = []))"

definition split_ok :: "ssa_fun \<Rightarrow> MethodIR \<Rightarrow> coverage \<Rightarrow> ValueRegistry \<Rightarrow> SplitBlock \<Rightarrow> ir_edge \<Rightarrow> bool" where
  "split_ok fn ir cov r s e \<longleftrightarrow>
     SB_Edge s = E_ID e \<and> SB_Kind s = E_Kind e \<and> SB_OriginPC s = E_From e \<and> E_Kind e \<noteq> EdgeException \<and>
     SB_Coverage s = sort_key R_Order (ranges_at cov (E_From e)) \<and>
     carries fn ir r e (SB_Moves s) \<and> SB_Moves s \<noteq> [] \<and> critical fn ir e"

definition emitted_ok :: "ssa_fun \<Rightarrow> MethodIR \<Rightarrow> coverage \<Rightarrow> ValueRegistry \<Rightarrow> ir_edge list \<Rightarrow> emitted \<Rightarrow> bool" where
  "emitted_ok fn ir cov r es out \<longleftrightarrow>
     (\<forall>e\<in>set es. live fn (E_ID e) \<longrightarrow> (\<exists>a\<in>set (snd out). A_Edge a = E_ID e)) \<and>
     (\<forall>a\<in>set (snd out). \<exists>e\<in>set es. assigned fn ir cov r (fst out) a e) \<and>
     (\<forall>s\<in>set (fst out). \<exists>e\<in>set es. split_ok fn ir cov r s e)"

lemma emitted_mono:
  assumes "assigned fn ir cov r splits a e" and "set splits \<subseteq> set splits'"
  shows "assigned fn ir cov r splits' a e"
  using assms by (auto simp: assigned_def split: if_splits)

lemma rangesForPC_Inr: "rangesForPCWithCounter ch cov pc w = (Inr rs, w') \<Longrightarrow> rs = sort_key R_Order (ranges_at cov pc)"
  by (auto simp: rangesForPCWithCounter_def r_bind_Inr Let_def)

lemma two_of:
  assumes "distinct (map E_ID es)" and "e \<in> set es" and "P e"
  shows "1 < slen (filter P es) \<longleftrightarrow> (\<exists>e'\<in>set es. E_ID e' \<noteq> E_ID e \<and> P e')"
proof -
  have inj: "inj_on E_ID (set es)" and d: "distinct (filter P es)" using assms(1) by (simp_all add: distinct_map)
  have "1 < length (filter P es) \<longleftrightarrow> (\<exists>e'\<in>set (filter P es). e' \<noteq> e)"
  proof
    assume l: "1 < length (filter P es)"
    then have "filter P es ! 0 \<noteq> filter P es ! 1" using nth_eq_iff_index_eq [OF d] by (metis less_trans zero_less_one zero_neq_one)
    then show "\<exists>e'\<in>set (filter P es). e' \<noteq> e" using l by (metis nth_mem less_trans zero_less_one)
  next
    assume "\<exists>e'\<in>set (filter P es). e' \<noteq> e"
    then obtain e' where "{e, e'} \<subseteq> set (filter P es)" "e' \<noteq> e" using assms(2,3) by auto
    then have "card {e, e'} \<le> card (set (filter P es))" by (intro card_mono) auto
    then show "1 < length (filter P es)" using \<open>e' \<noteq> e\<close> distinct_card [OF d] by simp
  qed
  also have "\<dots> \<longleftrightarrow> (\<exists>e'\<in>set es. E_ID e' \<noteq> E_ID e \<and> P e')"
    using inj assms(2) by (auto simp: inj_on_def)
  finally show ?thesis by (simp add: slen_def)
qed

text \<open>One round keeps the registry and emits for its edge what is expected.\<close>

lemma emit_edge_Inr:
  assumes run: "emit_edge ch rd fn ir cov n e out (r1, c) = (Inr out', r2, c')" and x: "extends_registry r r1"
    and e: "e \<in> set (M_Edges ir)" and d: "distinct (map E_ID (M_Edges ir))"
    and n: "count_ends ch fn (M_Edges ir) (\<lambda>_. 0, \<lambda>_. 0) w0 = (Inr n, w1)"
    and ok: "emitted_ok fn ir cov r es out"
  shows "extends_registry r r2 \<and> emitted_ok fn ir cov r (es @ [e]) out'"
proof (cases "live fn (E_ID e)")
  case False
  with run have "out' = out" "r2 = r1" by (auto simp: emit_edge_def r_bind_Inr on_counter_Inr)
  then show ?thesis using x ok False by (auto simp: emitted_ok_def)
next
  case live: True
  let ?rs = "sort_key R_Order (ranges_at cov (E_From e))"
  have old: "assigned fn ir cov r (fst out') a e'" if "assigned fn ir cov r (fst out) a e'" "set (fst out) \<subseteq> set (fst out')" for a e'
    using that by (rule emitted_mono)
  have step: "emitted_ok fn ir cov r (es @ [e]) out'"
    if new: "snd out' = snd out @ [a]" "assigned fn ir cov r (fst out') a e" "fst out' = fst out @ new"
      "\<forall>s\<in>set new. split_ok fn ir cov r s e" for a new
    unfolding emitted_ok_def
  proof (intro conjI ballI impI)
    note ok1 = ok [unfolded emitted_ok_def]
    fix e' assume "e' \<in> set (es @ [e])" "live fn (E_ID e')"
    then show "\<exists>a\<in>set (snd out'). A_Edge a = E_ID e'" using ok1 new(1,2) by (auto simp: assigned_def)
  next
    fix a' assume "a' \<in> set (snd out')"
    then consider "a' \<in> set (snd out)" | "a' = a" using new(1) by auto
    then show "\<exists>e'\<in>set (es @ [e]). assigned fn ir cov r (fst out') a' e'"
    proof cases
      case 1
      then obtain e' where "e' \<in> set es" "assigned fn ir cov r (fst out) a' e'" using ok unfolding emitted_ok_def by blast
      with old [of a' e'] new(3) show ?thesis by auto
    qed (use new(2) in simp)
  next
    fix s assume "s \<in> set (fst out')"
    then have "s \<in> set (fst out) \<or> s \<in> set new" using new(3) by auto
    then show "\<exists>e'\<in>set (es @ [e]). split_ok fn ir cov r s e'" using ok new(4) unfolding emitted_ok_def by auto
  qed
  have crit: "1 < fst n (E_From e) \<and> 1 < snd n (E_To e) \<longleftrightarrow> critical fn ir e"
    using count_ends_Inr [OF n, of "E_From e"] count_ends_Inr [OF n, of "E_To e"] live
      two_of [OF d e, of "\<lambda>e'. live fn (E_ID e') \<and> E_From e' = E_From e"]
      two_of [OF d e, of "\<lambda>e'. live fn (E_ID e') \<and> E_To e' = E_To e"]
    by (simp add: critical_def)
  show ?thesis
  proof (cases "E_Kind e = EdgeException")
    case True
    with run live have "out' = (fst out, snd out @ [plain_assign e ?rs])" "r2 = r1"
      by (auto simp: emit_edge_def r_bind_Inr on_counter_Inr dest!: rangesForPC_Inr)
    then show ?thesis using x step [of "plain_assign e ?rs" "[]"] True live by (auto simp: assigned_def plain_assign_def)
  next
    case False
    with run live obtain ms c1 c2 where m: "edge_moves ch rd fn ir e (r1, c1) = (Inr ms, r2, c2)"
      and out': "out' = (if 1 < fst n (E_From e) \<and> 1 < snd n (E_To e) \<and> ms \<noteq> []
        then (fst out @ [split_block (slen (fst out) + 1) e ?rs ms],
              snd out @ [(plain_assign e ?rs)\<lparr>A_Split := True, A_SplitID := slen (fst out) + 1\<rparr>])
        else (fst out, snd out @ [(plain_assign e ?rs)\<lparr>A_Moves := ms\<rparr>]))"
      by (fastforce simp: emit_edge_def r_bind_Inr on_counter_Inr Let_def split_block_def dest!: rangesForPC_Inr split: if_splits)
    from edge_moves_carry [OF m x] have x2: "extends_registry r r2" and cr: "carries fn ir r e ms" by simp_all
    show ?thesis
    proof (cases "critical fn ir e \<and> ms \<noteq> []")
      case True
      with crit out' have o: "out' = (fst out @ [split_block (slen (fst out) + 1) e ?rs ms],
          snd out @ [(plain_assign e ?rs)\<lparr>A_Split := True, A_SplitID := slen (fst out) + 1\<rparr>])" by simp
      show ?thesis using x2 cr True False live
          step [of "(plain_assign e ?rs)\<lparr>A_Split := True, A_SplitID := slen (fst out) + 1\<rparr>"
            "[split_block (slen (fst out) + 1) e ?rs ms]"]
        unfolding o by (auto simp: assigned_def split_ok_def plain_assign_def split_block_def)
    next
      case no_split: False
      with crit out' have o: "out' = (fst out, snd out @ [(plain_assign e ?rs)\<lparr>A_Moves := ms\<rparr>])" by auto
      show ?thesis using x2 cr no_split False live step [of "(plain_assign e ?rs)\<lparr>A_Moves := ms\<rparr>" "[]"]
        unfolding o by (auto simp: assigned_def plain_assign_def)
    qed
  qed
qed

lemma emit_edges_Inr:
  assumes "distinct (map E_ID (M_Edges ir))"
    and "count_ends ch fn (M_Edges ir) (\<lambda>_. 0, \<lambda>_. 0) w0 = (Inr n, w1)"
  shows "each_run (emit_edge ch rd fn ir cov n) todo out (r1, c) = (Inr out', r2, c') \<Longrightarrow>
    extends_registry r r1 \<Longrightarrow> set todo \<subseteq> set (M_Edges ir) \<Longrightarrow> emitted_ok fn ir cov r es out \<Longrightarrow>
    extends_registry r r2 \<and> emitted_ok fn ir cov r (es @ todo) out'"
proof (induction todo arbitrary: es out r1 c)
  case (Cons e todo)
  from Cons.prems(1) obtain out1 r3 c3 where 1: "emit_edge ch rd fn ir cov n e out (r1, c) = (Inr out1, r3, c3)"
    and 2: "each_run (emit_edge ch rd fn ir cov n) todo out1 (r3, c3) = (Inr out', r2, c')"
    by (auto simp: r_bind_Inr)
  from emit_edge_Inr [OF 1 Cons.prems(2) _ assms Cons.prems(4)] Cons.prems(3)
  have "extends_registry r r3 \<and> emitted_ok fn ir cov r (es @ [e]) out1" by simp
  then show ?case using Cons.IH [OF 2, of "es @ [e]"] Cons.prems(3) by simp
qed simp

section \<open>Destroy\<close>

lemma registry_extends:
  assumes "registryForWithCounter ch fn es w = (Inr r, w')"
  shows "extends_registry r r"
proof -
  have "\<forall>x\<in>dom (Info r). x < next_id r" by (rule registry_phis [OF assms]) blast
  then have "x < next_id r" if "Info r x = Some i" for x i using that by blast
  then show ?thesis by (force simp: extends_registry_def)
qed

lemma lower_with_Inr:
  assumes "lower_with ch rd fn ir cov n maxSpills (r1, c) = (Inr l, w')" and "extends_registry r r1"
    and n: "count_ends ch fn (M_Edges ir) (\<lambda>_. 0, \<lambda>_. 0) w0 = (Inr n, w1)"
    and r: "r = r1"
  shows "distinct (map E_ID (M_Edges ir)) \<and> extends_registry r (L_Values l) \<and> L_IR l = ir \<and> L_SSA l = fn \<and>
    L_Coverage l = cov \<and> emitted_ok fn ir cov r (M_Edges ir) (L_Splits l, L_Assigns l)"
proof -
  from assms(1) obtain plan r2 c2 inc c3 ems r4 c4 splits assigns r5 c5 c6 where
    p: "exceptionPlan ch rd fn ir cov maxSpills (r1, c) = (Inr plan, r2, c2)"
    and em: "entry_moves ch rd fn ir inc [] (r2, c3) = (Inr ems, r4, c4)"
    and e: "each_run (emit_edge ch rd fn ir cov n) (M_Edges ir) ([], []) (r4, c4) = (Inr (splits, assigns), r5, c5)"
    and l: "l = \<lparr>L_EntryMoves = ems, L_Values = r5, L_Exception = plan, L_IR = ir, L_SSA = fn,
      L_Assigns = sort_key assign_order assigns, L_Splits = splits, L_Temps = temps r5, L_Coverage = cov\<rparr>"
    by (auto simp: lower_with_def r_bind_Inr on_counter_Inr split: prod.splits)
  note plan = exceptionPlan_Inr [OF p]
  have "extends_registry r r2" using plan(1) assms(2) r by simp
  from entry_moves_extends [OF em this] have x4: "extends_registry r r4" .
  have "emitted_ok fn ir cov r [] ([], [])" by (simp add: emitted_ok_def)
  from emit_edges_Inr [OF plan(2) n e x4 subset_refl this] plan(2) show ?thesis
    by (simp add: l emitted_ok_def)
qed

lemma destroy_Inr:
  assumes "DestroyWithWorkCounter ch rd (Some fn) es maxSpills c = (Inr l, c')" and "F_IR fn = Some ir"
  obtains cov r w w' where "coverageMapWithCounter ch (Some ir) c = (Inr cov, w)"
    "registryForWithCounter ch fn es w' = (Inr r, snd (registryForWithCounter ch fn es w'))"
    "distinct (map E_ID (M_Edges ir))" "extends_registry r (L_Values l)" "L_IR l = ir" "L_SSA l = fn"
    "L_Coverage l = cov" "emitted_ok fn ir cov r (M_Edges ir) (L_Splits l, L_Assigns l)"
proof -
  from assms obtain cov n r w w1 w2 where cov: "coverageMapWithCounter ch (Some ir) c = (Inr cov, w)"
    and n: "count_ends ch fn (M_Edges ir) (\<lambda>_. 0, \<lambda>_. 0) w = (Inr n, w1)"
    and r: "registryForWithCounter ch fn es w1 = (Inr r, w2)"
    and "(case lower_with ch rd fn ir cov n maxSpills (r, w2) of (res, _, c) \<Rightarrow> (res, c)) = (Inr l, c')"
    by (fastforce simp: DestroyWithWorkCounter_def r_bind_Inr)
  then obtain w3 where l: "lower_with ch rd fn ir cov n maxSpills (r, w2) = (Inr l, w3)" by (auto split: prod.splits)
  from lower_with_Inr [OF l registry_extends [OF r] n refl] show ?thesis using that [OF cov, of w1 r] r by simp
qed

lemma edge_of_assign:
  assumes "emitted_ok fn ir cov r (M_Edges ir) (L_Splits l, L_Assigns l)" and "distinct (map E_ID (M_Edges ir))"
    and "e \<in> set (M_Edges ir)"
  shows "\<lbrakk>a \<in> set (L_Assigns l); A_Edge a = E_ID e\<rbrakk> \<Longrightarrow> assigned fn ir cov r (L_Splits l) a e"
    and "\<lbrakk>s \<in> set (L_Splits l); SB_Edge s = E_ID e\<rbrakk> \<Longrightarrow> split_ok fn ir cov r s e"
proof -
  have inj: "E_ID e' = E_ID e \<Longrightarrow> e' \<in> set (M_Edges ir) \<Longrightarrow> e' = e" for e'
    using assms(2,3) by (auto simp: distinct_map inj_on_def)
  show "assigned fn ir cov r (L_Splits l) a e" if "a \<in> set (L_Assigns l)" "A_Edge a = E_ID e"
    using assms(1) that inj unfolding emitted_ok_def assigned_def by (metis fst_conv snd_conv)
  show "split_ok fn ir cov r s e" if "s \<in> set (L_Splits l)" "SB_Edge s = E_ID e"
    using assms(1) that inj unfolding emitted_ok_def split_ok_def by (metis fst_conv)
qed

lemma find_Some_iff_in: "find P xs = Some x \<Longrightarrow> x \<in> set xs \<and> P x"
  by (induction xs) (auto split: if_splits)

text \<open>Where an edge finds its moves.\<close>

lemma moves_on_edge:
  assumes ok: "emitted_ok fn ir cov r (M_Edges ir) (L_Splits l, L_Assigns l)" and d: "distinct (map E_ID (M_Edges ir))"
    and e: "e \<in> set (M_Edges ir)" and live: "live fn (E_ID e)"
  shows "if E_Kind e = EdgeException then MovesOn l (E_ID e) = [] \<and> SplitFor l (E_ID e) = None
    else carries fn ir r e (MovesOn l (E_ID e)) \<and>
      (SplitFor l (E_ID e) = None \<longrightarrow> critical fn ir e \<longrightarrow> MovesOn l (E_ID e) = []) \<and>
      (SplitFor l (E_ID e) \<noteq> None \<longrightarrow> MovesOn l (E_ID e) \<noteq> [] \<and> critical fn ir e)"
proof (cases "SplitFor l (E_ID e)")
  case (Some s)
  then have "s \<in> set (L_Splits l)" "SB_Edge s = E_ID e" unfolding SplitFor_def by (auto dest: find_Some_iff_in)
  from edge_of_assign(2) [OF ok d e this] show ?thesis using Some by (simp add: MovesOn_def split_ok_def)
next
  case None
  from ok e live obtain a where "a \<in> set (L_Assigns l)" "A_Edge a = E_ID e" by (auto simp: emitted_ok_def)
  then obtain a where f: "find (\<lambda>a. A_Edge a = E_ID e) (L_Assigns l) = Some a"
    by (metis (mono_tags, lifting) find_None_iff not_Some_eq)
  then have "a \<in> set (L_Assigns l)" "A_Edge a = E_ID e" by (auto dest: find_Some_iff_in)
  from edge_of_assign(1) [OF ok d e this] have as: "assigned fn ir cov r (L_Splits l) a e" .
  have "\<not> (\<exists>s\<in>set (L_Splits l). SB_Edge s = E_ID e)" using None by (auto simp: SplitFor_def find_None_iff)
  with as None f show ?thesis by (auto simp: MovesOn_def assigned_def split: if_splits)
qed

end
