(* ===== verification/SolverFixpoint.thy ===== *)
theory SolverFixpoint
  imports SsaSolver
begin

text \<open>
  The worklist answers a solution of the data-flow equations, whatever the order in which blocks
  are taken: where it succeeds, every block's entry state is the join of the states on its edges,
  and every edge carries what the block's instructions make of that entry state.
\<close>

section \<open>The equations\<close>

text \<open>The join and the run over a block, without the counter and the queue.\<close>

fun join_spec ::
    "edgeFrames \<Rightarrow> ir_edge list \<Rightarrow> (frame \<times> Origin list) option \<Rightarrow> nat \<Rightarrow>
     ssa_error + (frame \<times> Origin list) option \<times> nat" where
  "join_spec ef [] joined n = Inr (joined, n)"
| "join_spec ef (e # es) joined n =
     (case EF_normal ef (E_ID e) of
        None \<Rightarrow> join_spec ef es joined n
      | Some fr \<Rightarrow>
          let og = origins_at ef (E_ID e) in
          (case joined of
             None \<Rightarrow> join_spec ef es (Some (fr, og)) (n + 1)
           | Some (j, origins) \<Rightarrow>
               res_bind (frame_err (JoinFrames j fr)) (\<lambda>j.
                 if length origins \<noteq> length og then Inl ''invalid_input: origin join shape mismatch''
                 else join_spec ef es (Some (j, origins)) (n + 1))))"

type_synonym edge_flow = "ir_edge \<times> frame \<times> Origin list"

fun edge_states :: "(ir_edge \<Rightarrow> ssa_error + frame \<times> Origin list) \<Rightarrow> ir_edge list \<Rightarrow> ssa_error + edge_flow list" where
  "edge_states st [] = Inr []"
| "edge_states st (e # es) =
     res_bind (st e) (\<lambda>(fr, og). res_bind (edge_states st es) (\<lambda>r. Inr ((e, fr, og) # r)))"

fun flow_spec ::
    "float_ops \<Rightarrow> MethodIR \<Rightarrow> InstrID list \<Rightarrow> frame \<Rightarrow> Origin list \<Rightarrow>
     ssa_error + edge_flow list \<times> frame \<times> Origin list" where
  "flow_spec fl ir [] cur curOrig = Inr ([], cur, curOrig)"
| "flow_spec fl ir (iid # iids) cur curOrig =
     (case InstrByID (Some ir) iid of
        None \<Rightarrow> Inl ''invalid_input: missing instr %d''
      | Some ins \<Rightarrow>
          res_bind (frame_err (Transfer fl cur (solver_instr ins))) (\<lambda>(after, ex).
            res_bind (transferOrigins curOrig cur after ins) (\<lambda>(afterOrig, _).
              res_bind (edge_states (edge_state (I_PC ins) cur curOrig after afterOrig ex) (outgoing ir iid)) (\<lambda>sts.
                res_bind (flow_spec fl ir iids after afterOrig) (\<lambda>(sts', out, outOrig).
                  Inr (sts @ sts', out, outOrig))))))"

definition settled :: "MethodIR \<Rightarrow> worklist \<Rightarrow> nat \<Rightarrow> bool" where
  "settled ir w i \<longleftrightarrow>
     (let b = M_Blocks ir ! i; bf = W_blocks w ! i in
      case join_spec (W_ef w) (block_incoming ir (B_ID b)) None 0 of
        Inl e \<Rightarrow> False
      | Inr (None, n) \<Rightarrow> True
      | Inr (Some (f, og), n) \<Rightarrow>
          Reachable bf \<and> FrameEqual (BF_In bf) f \<and> originsEqual (InOrig bf) (entry_origins b f og n))"

definition flows :: "float_ops \<Rightarrow> MethodIR \<Rightarrow> worklist \<Rightarrow> nat \<Rightarrow> bool" where
  "flows fl ir w i \<longleftrightarrow>
     (let b = M_Blocks ir ! i; bf = W_blocks w ! i in
      Reachable bf \<longrightarrow>
        (\<exists>sts. flow_spec fl ir (InstrIDs b) (BF_In bf) (InOrig bf) = Inr (sts, BF_Out bf, OutOrig bf) \<and>
           (\<forall>(e, fr, og)\<in>set sts. same_state (W_ef w) (E_ID e) fr og)))"

text \<open>What a snapshot of a control-flow graph guarantees: no identity is given twice.\<close>

definition good_ir :: "MethodIR \<Rightarrow> bool" where
  "good_ir ir \<longleftrightarrow>
     distinct (map B_ID (M_Blocks ir)) \<and> distinct (map FirstPC (M_Blocks ir)) \<and>
     distinct (concat (map InstrIDs (M_Blocks ir))) \<and> distinct (map E_ID (M_Edges ir)) \<and>
     (\<forall>e\<in>set (M_Edges ir). E_ID e \<noteq> E_ID (entry_edge ir))"

section \<open>The counter and the queue are no part of the equations\<close>

lemma join_edges_spec: "join_edges ef es joined n c = (Inr r, c') \<Longrightarrow> join_spec ef es joined n = Inr r"
proof (induction es arbitrary: joined n c)
  case (Cons e es)
  then show ?case
    by (auto simp: r_bind_Inr Let_def split: option.splits prod.splits if_splits)
qed simp

lemma put_edge_records [simp]: "put_edge ir e fr og (w\<lparr>W_records := R\<rparr>) = (put_edge ir e fr og w)\<lparr>W_records := R\<rparr>"
  by (simp add: put_edge_def enqueue_def)

definition put_all :: "MethodIR \<Rightarrow> edge_flow list \<Rightarrow> worklist \<Rightarrow> worklist" where
  "put_all ir sts w = fold (\<lambda>(e, fr, og). put_edge ir e fr og) sts w"

lemma put_all_simps [simp]:
  "put_all ir [] w = w" "put_all ir ((e, fr, og) # sts) w = put_all ir sts (put_edge ir e fr og w)"
  "put_all ir (sts @ sts') w = put_all ir sts' (put_all ir sts w)"
  by (simp_all add: put_all_def)

lemma put_all_records [simp]: "put_all ir sts (w\<lparr>W_records := R\<rparr>) = (put_all ir sts w)\<lparr>W_records := R\<rparr>"
  by (induction sts arbitrary: w) auto

lemma flow_edges_spec:
  "flow_edges ir st es w c = (Inr w', c') \<Longrightarrow> \<exists>sts. edge_states st es = Inr sts \<and> w' = put_all ir sts w"
proof (induction es arbitrary: w c)
  case (Cons e es)
  then obtain fr og c1 where "st e = Inr (fr, og)" "flow_edges ir st es (put_edge ir e fr og w) c1 = (Inr w', c')"
    by (auto simp: r_bind_Inr)
  with Cons.IH [of "put_edge ir e fr og w" c1] show ?case by auto
qed simp

lemma run_instrs_spec:
  "run_instrs fl ir iids cur curOrig w c = (Inr (out, outOrig, w'), c') \<Longrightarrow>
   \<exists>sts R. flow_spec fl ir iids cur curOrig = Inr (sts, out, outOrig) \<and> w' = (put_all ir sts w)\<lparr>W_records := R\<rparr>"
proof (induction iids arbitrary: cur curOrig w c)
  case Nil
  then show ?case by (auto intro!: exI [of _ "W_records w"])
next
  case (Cons iid iids)
  then obtain ins after ex afterOrig used results w1 c1 c2 R where i: "InstrByID (Some ir) iid = Some ins"
    and t: "frame_err (Transfer fl cur (solver_instr ins)) = Inr (after, ex)"
    and o: "transferOrigins curOrig cur after ins = Inr (afterOrig, used, results)"
    and f: "flow_edges ir (edge_state (I_PC ins) cur curOrig after afterOrig ex) (outgoing ir iid) (w\<lparr>W_records := R\<rparr>) c1 = (Inr w1, c2)"
    and r: "run_instrs fl ir iids after afterOrig w1 c2 = (Inr (out, outOrig, w'), c')"
    by (auto simp: r_bind_Inr Let_def split: option.splits)
  from flow_edges_spec [OF f] obtain sts where s: "edge_states (edge_state (I_PC ins) cur curOrig after afterOrig ex) (outgoing ir iid) = Inr sts"
    and w1: "w1 = (put_all ir sts w)\<lparr>W_records := R\<rparr>" by auto
  from Cons.IH [OF r] obtain sts' R' where "flow_spec fl ir iids after afterOrig = Inr (sts', out, outOrig)"
    and "w' = (put_all ir sts' w1)\<lparr>W_records := R'\<rparr>" by auto
  then show ?case using i t o s w1 by auto
qed

lemma edge_states_edges: "edge_states st es = Inr sts \<Longrightarrow> map fst sts = es"
  by (induction es arbitrary: sts) auto

lemma flow_spec_edges:
  "flow_spec fl ir iids cur curOrig = Inr (sts, out, outOrig) \<Longrightarrow> map fst sts = concat (map (outgoing ir) iids)"
  by (induction iids arbitrary: cur curOrig sts) (auto simp: edge_states_edges split: option.splits)

section \<open>What storing an edge changes\<close>

lemma FrameEqual_refl [simp]: "FrameEqual f f"
  by (simp add: FrameEqual_def list_all2_same TypeEqual_refl)

lemma originsEqual_refl [simp]: "originsEqual og og"
  by (simp add: originsEqual_def list_all2_same)

lemma join_spec_cong:
  assumes "\<And>e. e \<in> set es \<Longrightarrow> EF_normal ef (E_ID e) = EF_normal ef' (E_ID e) \<and> EF_orig ef (E_ID e) = EF_orig ef' (E_ID e)"
  shows "join_spec ef es joined n = join_spec ef' es joined n"
  using assms
proof (induction es arbitrary: joined n)
  case (Cons e es)
  then have "EF_normal ef (E_ID e) = EF_normal ef' (E_ID e)" "origins_at ef (E_ID e) = origins_at ef' (E_ID e)"
    by (simp_all add: origins_at_def)
  moreover have "join_spec ef es = join_spec ef' es" using Cons by (intro ext) simp
  ultimately show ?case by (simp only: join_spec.simps)
qed simp

lemma put_edge_ef:
  "i \<noteq> E_ID e \<Longrightarrow> EF_normal (W_ef (put_edge ir e fr og w)) i = EF_normal (W_ef w) i \<and>
     EF_orig (W_ef (put_edge ir e fr og w)) i = EF_orig (W_ef w) i"
  by (simp add: put_edge_def enqueue_def)

lemma put_edge_blocks [simp]: "W_blocks (put_edge ir e fr og w) = W_blocks w"
  by (simp add: put_edge_def enqueue_def)

lemma put_edge_same: "same_state (W_ef (put_edge ir e fr og w)) (E_ID e) fr og"
  by (simp add: put_edge_def enqueue_def same_state_def origins_at_def)

lemma put_edge_inQ: "W_inQ w b \<Longrightarrow> W_inQ (put_edge ir e fr og w) b"
  by (simp add: put_edge_def enqueue_def)

lemma put_all_blocks [simp]: "W_blocks (put_all ir sts w) = W_blocks w"
  by (induction sts arbitrary: w) auto

lemma put_edge_blocks_comm [simp]:
  "put_edge ir e fr og (w\<lparr>W_blocks := B\<rparr>) = (put_edge ir e fr og w)\<lparr>W_blocks := B\<rparr>"
  by (simp add: put_edge_def enqueue_def)

lemma put_all_blocks_comm: "put_all ir sts (w\<lparr>W_blocks := B\<rparr>) = (put_all ir sts w)\<lparr>W_blocks := B\<rparr>"
  by (induction sts arbitrary: w) auto

lemma put_all_ef:
  "i \<notin> (E_ID \<circ> fst) ` set sts \<Longrightarrow> EF_normal (W_ef (put_all ir sts w)) i = EF_normal (W_ef w) i \<and>
     EF_orig (W_ef (put_all ir sts w)) i = EF_orig (W_ef w) i"
  by (induction sts arbitrary: w) (auto simp: put_edge_ef)

lemma same_state_cong:
  "EF_normal ef i = EF_normal ef' i \<Longrightarrow> EF_orig ef i = EF_orig ef' i \<Longrightarrow> same_state ef i fr og = same_state ef' i fr og"
proof -
  assume n: "EF_normal ef i = EF_normal ef' i" and "EF_orig ef i = EF_orig ef' i"
  then have "origins_at ef i = origins_at ef' i" by (simp add: origins_at_def)
  with n show ?thesis by (simp add: same_state_def cong: option.case_cong)
qed

lemma put_all_same:
  "distinct (map (E_ID \<circ> fst) sts) \<Longrightarrow> (e, fr, og) \<in> set sts \<Longrightarrow> same_state (W_ef (put_all ir sts w)) (E_ID e) fr og"
proof (induction sts arbitrary: w)
  case (Cons s sts)
  obtain e' fr' og' where s: "s = (e', fr', og')" by (cases s)
  show ?case
  proof (cases "(e, fr, og) = s")
    case True
    then have "E_ID e \<notin> (E_ID \<circ> fst) ` set sts" using Cons.prems(1) s by auto
    from put_all_ef [OF this, of ir "put_edge ir e' fr' og' w"] show ?thesis
      using True s put_edge_same [of ir e fr og w] same_state_cong by (metis prod.inject put_all_simps(2))
  qed (use Cons s in auto)
qed simp

section \<open>The edges of a block\<close>

lemma block_incoming_edge:
  "e \<in> set (block_incoming ir bid) \<longleftrightarrow>
     e = entry_edge ir \<and> block_at ir (M_EntryPC ir) = Some bid \<or> e \<in> set (M_Edges ir) \<and> block_at ir (E_To e) = Some bid"
  by (auto simp: block_incoming_def sort_edges_def)

lemma good_ir_edge:
  assumes "good_ir ir" and "e \<in> set (M_Edges ir)" and "e' \<in> set (block_incoming ir bid)" and "E_ID e = E_ID e'"
  shows "block_at ir (E_To e) = Some bid"
proof -
  from assms have "e' \<in> set (M_Edges ir)" and t: "block_at ir (E_To e') = Some bid"
    by (auto simp: block_incoming_edge good_ir_def)
  with assms have "e = e'" by (auto simp: good_ir_def distinct_map inj_on_def)
  with t show ?thesis by simp
qed

lemma outgoing_edge: "e \<in> set (concat (map (outgoing ir) iids)) \<longleftrightarrow> e \<in> set (M_Edges ir) \<and> E_From e \<in> set iids"
  by (auto simp: outgoing_def)

lemma distinct_outgoing:
  assumes "distinct (map E_ID (M_Edges ir))" and "distinct iids"
  shows "distinct (map E_ID (concat (map (outgoing ir) iids)))"
  using assms(2)
proof (induction iids)
  case (Cons iid iids)
  have "distinct (map E_ID (outgoing ir iid))"
    using assms(1) by (simp add: outgoing_def distinct_map inj_on_def)
  moreover have "E_ID e \<noteq> E_ID e'"
    if "e \<in> set (outgoing ir iid)" and "e' \<in> set (concat (map (outgoing ir) iids))" for e e'
  proof
    assume "E_ID e = E_ID e'"
    moreover from that have "e \<in> set (M_Edges ir)" "e' \<in> set (M_Edges ir)" by (auto simp: outgoing_def)
    ultimately have "e = e'" using assms(1) by (auto simp: distinct_map inj_on_def)
    then show False using that Cons.prems by (auto simp: outgoing_def)
  qed
  ultimately show ?case using Cons by fastforce
qed simp

lemma flow_spec_distinct:
  assumes "good_ir ir" and "i < length (M_Blocks ir)"
    and "flow_spec fl ir (InstrIDs (M_Blocks ir ! i)) cur og = Inr (sts, out, og')"
  shows "distinct (map (E_ID \<circ> fst) sts)"
proof -
  from assms(1,2) have "distinct (InstrIDs (M_Blocks ir ! i))"
    by (simp add: good_ir_def distinct_concat_iff)
  then show ?thesis
    using distinct_outgoing [of ir "InstrIDs (M_Blocks ir ! i)"] assms(1)
    by (simp add: good_ir_def flow_spec_edges [OF assms(3), symmetric])
qed

lemma distinct_concat_disjoint:
  "distinct (concat xs) \<Longrightarrow> i < length xs \<Longrightarrow> j < length xs \<Longrightarrow> i \<noteq> j \<Longrightarrow> set (xs ! i) \<inter> set (xs ! j) = {}"
proof (induction xs arbitrary: i j)
  case (Cons x xs)
  have "set x \<inter> set (xs ! k) = {}" if "k < length xs" for k
    using Cons.prems(1) nth_mem [OF that] by (auto simp: disjoint_iff)
  with Cons show ?case by (cases i; cases j) (auto simp: Int_commute)
qed simp

text \<open>The edges out of one block are none of those out of another.\<close>

lemma flow_spec_disjoint:
  assumes g: "good_ir ir" and i: "i < length (M_Blocks ir)" and j: "j < length (M_Blocks ir)" and ij: "i \<noteq> j"
    and si: "flow_spec fl ir (InstrIDs (M_Blocks ir ! i)) f1 og1 = Inr (sts, r)"
    and sj: "flow_spec fl ir (InstrIDs (M_Blocks ir ! j)) f2 og2 = Inr (sts', r')"
    and e: "e \<in> set (map fst sts)" and e': "e' \<in> set (map fst sts')"
  shows "E_ID e \<noteq> E_ID e'"
proof
  assume eq: "E_ID e = E_ID e'"
  obtain o1 o2 o3 o4 where r: "r = (o1, o2)" "r' = (o3, o4)" by (cases r; cases r')
  from e flow_spec_edges [OF si [unfolded r]]
  have 1: "e \<in> set (M_Edges ir)" "E_From e \<in> set (InstrIDs (M_Blocks ir ! i))"
    by (simp_all only: outgoing_edge)
  from e' flow_spec_edges [OF sj [unfolded r]]
  have 2: "e' \<in> set (M_Edges ir)" "E_From e' \<in> set (InstrIDs (M_Blocks ir ! j))"
    by (simp_all only: outgoing_edge)
  from eq 1 2 g have "e = e'" by (auto simp: good_ir_def distinct_map inj_on_def)
  moreover have "set (InstrIDs (M_Blocks ir ! i)) \<inter> set (InstrIDs (M_Blocks ir ! j)) = {}"
    using distinct_concat_disjoint [of "map InstrIDs (M_Blocks ir)" i j] g i j ij by (simp add: good_ir_def)
  ultimately show False using 1 2 by auto
qed

section \<open>The invariant of the loop\<close>

definition targets_ok :: "MethodIR \<Rightarrow> bool" where
  "targets_ok ir \<longleftrightarrow> (\<forall>e\<in>set (M_Edges ir). block_at ir (E_To e) \<noteq> None)"

text \<open>A block whose incoming edges may have changed is in the queue.\<close>

abbreviation settled_or_queued :: "MethodIR \<Rightarrow> worklist \<Rightarrow> nat \<Rightarrow> bool" where
  "settled_or_queued ir w i \<equiv> W_inQ w (B_ID (M_Blocks ir ! i)) \<or> settled ir w i"

definition queue_ok :: "MethodIR \<Rightarrow> worklist \<Rightarrow> bool" where
  "queue_ok ir w \<longleftrightarrow>
     (\<forall>b. W_inQ w b \<longrightarrow> b \<in> set (W_pending w)) \<and> set (W_pending w) \<subseteq> set (map B_ID (M_Blocks ir))"

lemma settled_cong:
  assumes "W_blocks w ! i = W_blocks w' ! i"
    and "\<And>e. e \<in> set (block_incoming ir (B_ID (M_Blocks ir ! i))) \<Longrightarrow>
      EF_normal (W_ef w) (E_ID e) = EF_normal (W_ef w') (E_ID e) \<and> EF_orig (W_ef w) (E_ID e) = EF_orig (W_ef w') (E_ID e)"
  shows "settled ir w i = settled ir w' i"
  using join_spec_cong [OF assms(2)] assms(1) by (simp add: settled_def Let_def)

lemma put_edge_settled:
  assumes g: "good_ir ir" and t: "targets_ok ir" and e: "e \<in> set (M_Edges ir)" and ok: "settled_or_queued ir w i"
  shows "settled_or_queued ir (put_edge ir e fr og w) i"
proof (cases "same_state (W_ef w) (E_ID e) fr og")
  case False
  from t e obtain tb where tb: "block_at ir (E_To e) = Some tb" by (auto simp: targets_ok_def)
  show ?thesis
  proof (cases "tb = B_ID (M_Blocks ir ! i)")
    case True
    then show ?thesis using False tb by (simp add: put_edge_def enqueue_def block_or_zero_def)
  next
    case other: False
    have "E_ID e' \<noteq> E_ID e" if "e' \<in> set (block_incoming ir (B_ID (M_Blocks ir ! i)))" for e'
      using good_ir_edge [OF g e that] tb other by auto
    then have "settled ir (put_edge ir e fr og w) i = settled ir w i"
      by (intro settled_cong) (auto simp: put_edge_ef)
    with ok show ?thesis by (auto intro: put_edge_inQ)
  qed
qed (use ok in \<open>simp add: put_edge_def\<close>)

lemma block_at_ID: "block_at ir pc = Some b \<Longrightarrow> b \<in> set (map B_ID (M_Blocks ir))"
  by (force simp: block_at_def dest!: map_of_SomeD)

lemma put_edge_queue:
  assumes t: "targets_ok ir" and e: "e \<in> set (M_Edges ir)" and q: "queue_ok ir w"
  shows "queue_ok ir (put_edge ir e fr og w)"
proof -
  from t e obtain tb where "block_at ir (E_To e) = Some tb" by (auto simp: targets_ok_def)
  then show ?thesis using q block_at_ID [of ir "E_To e" tb]
    by (auto simp: queue_ok_def put_edge_def enqueue_def block_or_zero_def)
qed

lemma put_all_kept:
  assumes "\<And>e fr og w. e \<in> set (M_Edges ir) \<Longrightarrow> P w \<Longrightarrow> P (put_edge ir e fr og w)"
    and "set (map fst sts) \<subseteq> set (M_Edges ir)" and "P w"
  shows "P (put_all ir sts w)"
  using assms(2,3)
proof (induction sts arbitrary: w)
  case (Cons s sts)
  then show ?case using assms(1) by (cases s) auto
qed simp

definition solver_inv :: "float_ops \<Rightarrow> MethodIR \<Rightarrow> worklist \<Rightarrow> bool" where
  "solver_inv fl ir w \<longleftrightarrow>
     length (W_blocks w) = length (M_Blocks ir) \<and> queue_ok ir w \<and>
     (\<forall>i<length (M_Blocks ir). settled_or_queued ir w i \<and> flows fl ir w i)"

text \<open>What is left when block \<open>i\<close> has been taken from the queue.\<close>

definition taken_inv :: "float_ops \<Rightarrow> MethodIR \<Rightarrow> nat \<Rightarrow> worklist \<Rightarrow> bool" where
  "taken_inv fl ir i w \<longleftrightarrow>
     length (W_blocks w) = length (M_Blocks ir) \<and> queue_ok ir w \<and> i < length (M_Blocks ir) \<and>
     (\<forall>j<length (M_Blocks ir). (j \<noteq> i \<longrightarrow> settled_or_queued ir w j) \<and> flows fl ir w j)"

lemma block_index_nth:
  assumes "good_ir ir" and "i < length (M_Blocks ir)"
  shows "block_index ir (B_ID (M_Blocks ir ! i)) = Some i"
proof -
  let ?z = "zip (map B_ID (M_Blocks ir)) [0..<length (M_Blocks ir)]"
  have "distinct (map fst (rev ?z))" using assms(1) by (simp add: good_ir_def rev_map [symmetric])
  moreover have "(B_ID (M_Blocks ir ! i), i) \<in> set (rev ?z)" using assms(2) by (auto simp: set_zip intro!: exI [of _ i])
  ultimately show ?thesis unfolding block_index_def by (rule map_of_is_SomeI)
qed

lemma settled_blocks_cong:
  "W_ef w = W_ef w' \<Longrightarrow> W_blocks w ! i = W_blocks w' ! i \<Longrightarrow> settled ir w i = settled ir w' i"
  by (rule settled_cong) simp_all

lemma flows_cong:
  assumes "W_blocks w ! i = W_blocks w' ! i"
    and "\<And>sts r e fr og. flow_spec fl ir (InstrIDs (M_Blocks ir ! i)) (BF_In (W_blocks w ! i)) (InOrig (W_blocks w ! i)) = Inr (sts, r) \<Longrightarrow>
      (e, fr, og) \<in> set sts \<Longrightarrow> same_state (W_ef w) (E_ID e) fr og \<Longrightarrow> same_state (W_ef w') (E_ID e) fr og"
    and "flows fl ir w i"
  shows "flows fl ir w' i"
  using assms by (fastforce simp: flows_def Let_def)

text \<open>The new state of a block, its edges stored.\<close>

definition store_block :: "MethodIR \<Rightarrow> nat \<Rightarrow> frame \<Rightarrow> Origin list \<Rightarrow> edge_flow list \<Rightarrow> frame \<Rightarrow> Origin list \<Rightarrow> worklist \<Rightarrow> worklist" where
  "store_block ir i f og sts out outOrig w =
     put_all ir sts (w\<lparr>W_blocks := (W_blocks w)[i := (W_blocks w ! i)\<lparr>Reachable := True, BF_In := f, InOrig := og, BF_Out := out, OutOrig := outOrig\<rparr>]\<rparr>)"

lemma store_block_settled:
  assumes g: "good_ir ir" and t: "targets_ok ir" and inv: "taken_inv fl ir i w" and j: "j < length (M_Blocks ir)"
    and join: "join_spec (W_ef w) (block_incoming ir (B_ID (M_Blocks ir ! i))) None 0 = Inr (Some (f, og0), n)"
    and og: "og = entry_origins (M_Blocks ir ! i) f og0 n"
    and sts: "set (map fst sts) \<subseteq> set (M_Edges ir)"
  shows "settled_or_queued ir (store_block ir i f og sts out outOrig w) j"
  unfolding store_block_def
proof (rule put_all_kept [where P = "\<lambda>w. settled_or_queued ir w j"])
  let ?w = "w\<lparr>W_blocks := (W_blocks w)[i := (W_blocks w ! i)\<lparr>Reachable := True, BF_In := f, InOrig := og, BF_Out := out, OutOrig := outOrig\<rparr>]\<rparr>"
  from inv have i: "i < length (W_blocks w)" by (simp add: taken_inv_def)
  show "settled_or_queued ir ?w j"
  proof (cases "j = i")
    case True
    then show ?thesis using i join og by (simp add: settled_def Let_def)
  next
    case False
    then have "settled ir ?w j = settled ir w j" by (intro settled_blocks_cong) simp_all
    then show ?thesis using inv j False by (auto simp: taken_inv_def)
  qed
qed (use put_edge_settled [OF g t] sts in auto)

lemma store_block_flows:
  assumes g: "good_ir ir" and inv: "taken_inv fl ir i w" and j: "j < length (M_Blocks ir)"
    and flow: "flow_spec fl ir (InstrIDs (M_Blocks ir ! i)) f og = Inr (sts, out, outOrig)"
  shows "flows fl ir (store_block ir i f og sts out outOrig w) j"
proof (cases "j = i")
  case True
  from inv have i: "i < length (W_blocks w)" and i': "i < length (M_Blocks ir)" by (simp_all add: taken_inv_def)
  have "same_state (W_ef (store_block ir i f og sts out outOrig w)) (E_ID e) fr og'" if "(e, fr, og') \<in> set sts" for e fr og'
    unfolding store_block_def using flow_spec_distinct [OF g i' flow] that by (rule put_all_same)
  moreover have "W_blocks (store_block ir i f og sts out outOrig w) ! i
      = (W_blocks w ! i)\<lparr>Reachable := True, BF_In := f, InOrig := og, BF_Out := out, OutOrig := outOrig\<rparr>"
    using i by (simp add: store_block_def)
  ultimately show ?thesis using True flow by (auto simp: flows_def Let_def)
next
  case False
  show ?thesis
  proof (rule flows_cong)
    show "W_blocks w ! j = W_blocks (store_block ir i f og sts out outOrig w) ! j" using False by (simp add: store_block_def)
    show "flows fl ir w j" using inv j by (simp add: taken_inv_def)
  next
    fix sts' r e fr og'
    assume flow': "flow_spec fl ir (InstrIDs (M_Blocks ir ! j)) (BF_In (W_blocks w ! j)) (InOrig (W_blocks w ! j)) = Inr (sts', r)"
      and e: "(e, fr, og') \<in> set sts'" and same: "same_state (W_ef w) (E_ID e) fr og'"
    from inv have i: "i < length (M_Blocks ir)" by (simp add: taken_inv_def)
    from e have "e \<in> set (map fst sts')" by force
    then have "E_ID e \<noteq> E_ID e'" if "e' \<in> set (map fst sts)" for e'
      using flow_spec_disjoint [OF g i j False [symmetric] flow flow' that \<open>e \<in> set (map fst sts')\<close>] by simp
    then have "E_ID e \<notin> (E_ID \<circ> fst) ` set sts" by auto
    from put_all_ef [OF this] show "same_state (W_ef (store_block ir i f og sts out outOrig w)) (E_ID e) fr og'"
      unfolding store_block_def using same same_state_cong by (metis worklist.select_convs(2) worklist.surjective worklist.update_convs(1))
  qed
qed

text \<open>One block is solved.\<close>

lemma solve_block_inv:
  assumes g: "good_ir ir" and t: "targets_ok ir" and inv: "taken_inv fl ir i w"
    and "solve_block fl ir (B_ID (M_Blocks ir ! i)) w c = (Inr w', c')"
  shows "solver_inv fl ir w'"
proof -
  from inv have i: "i < length (M_Blocks ir)" by (simp add: taken_inv_def)
  have bi: "block_index ir (B_ID (M_Blocks ir ! i)) = Some i" using g i by (rule block_index_nth)
  from inv have others: "settled ir w i \<Longrightarrow> solver_inv fl ir w"
    by (auto simp: taken_inv_def solver_inv_def)
  from assms(4) obtain r c1 where jn: "join_edges (W_ef w) (block_incoming ir (B_ID (M_Blocks ir ! i))) None 0 c = (Inr r, c1)"
    by (auto simp: solve_block_def bi Let_def r_bind_Inr)
  note join = join_edges_spec [OF jn]
  show ?thesis
  proof (cases "fst r")
    case None
    with join have "settled ir w i" by (cases r) (simp add: settled_def Let_def)
    moreover from None assms(4) jn have "w' = w" by (cases r) (simp add: solve_block_def bi r_bind_step Let_def)
    ultimately show ?thesis using others by simp
  next
    case (Some s)
    then obtain f og0 n where r: "r = (Some (f, og0), n)" by (cases r; cases s) auto
    let ?bf = "W_blocks w ! i" and ?og = "entry_origins (M_Blocks ir ! i) f og0 n"
    let ?w = "w\<lparr>W_blocks := (W_blocks w)[i := ?bf\<lparr>Reachable := True, BF_In := f, InOrig := ?og\<rparr>]\<rparr>"
    show ?thesis
    proof (cases "Reachable ?bf \<and> FrameEqual (BF_In ?bf) f \<and> originsEqual (InOrig ?bf) ?og")
      case True
      with join r have "settled ir w i" by (simp add: settled_def Let_def)
      moreover from True assms(4) jn r have "w' = w" by (simp add: solve_block_def bi r_bind_step Let_def)
      ultimately show ?thesis using others by simp
    next
      case False
      with assms(4) jn r obtain out outOrig w1 c2 where
        run: "run_instrs fl ir (InstrIDs (M_Blocks ir ! i)) f ?og ?w c1 = (Inr (out, outOrig, w1), c2)"
        and w': "w' = w1\<lparr>W_blocks := (W_blocks w1)[i := (W_blocks w1 ! i)\<lparr>BF_Out := out, OutOrig := outOrig\<rparr>]\<rparr>"
        by (auto simp: solve_block_def bi r_bind_step Let_def r_bind_Inr simp del: de_Morgan_conj)
      from run_instrs_spec [OF run] obtain sts R where
        flow: "flow_spec fl ir (InstrIDs (M_Blocks ir ! i)) f ?og = Inr (sts, out, outOrig)"
        and w1: "w1 = (put_all ir sts ?w)\<lparr>W_records := R\<rparr>" by blast
      have sts: "set (map fst sts) \<subseteq> set (M_Edges ir)"
        by (simp only: flow_spec_edges [OF flow]) (auto simp: outgoing_def)
      let ?w2 = "store_block ir i f ?og sts out outOrig w"
      have "w' = ?w2\<lparr>W_records := R\<rparr>" using w' w1 inv by (simp add: store_block_def put_all_blocks_comm taken_inv_def)
      moreover have "solver_inv fl ir ?w2"
        unfolding solver_inv_def
      proof (intro conjI allI impI)
        show "length (W_blocks ?w2) = length (M_Blocks ir)" using inv by (simp add: store_block_def taken_inv_def)
        show "queue_ok ir ?w2"
          unfolding store_block_def using put_edge_queue [OF t] sts inv
          by (intro put_all_kept [where P = "queue_ok ir"]) (auto simp: taken_inv_def queue_ok_def)
      next
        fix j assume j: "j < length (M_Blocks ir)"
        show "settled_or_queued ir ?w2 j"
          by (rule store_block_settled [OF g t inv j _ refl sts]) (use join r in simp)
        show "flows fl ir ?w2 j" by (rule store_block_flows [OF g inv j flow])
      qed
      ultimately show ?thesis by (simp add: solver_inv_def queue_ok_def settled_def flows_def Let_def)
    qed
  qed
qed

section \<open>The loop\<close>

text \<open>What \<open>rng.Intn(n)\<close> answers is below \<open>n\<close>.\<close>

definition pick_ok :: "(u64 \<Rightarrow> nat \<Rightarrow> nat) \<Rightarrow> bool" where
  "pick_ok pick \<longleftrightarrow> (\<forall>work n. 1 < n \<longrightarrow> pick work n < n)"

lemma queue_index_less: "pick_ok pick \<Longrightarrow> 0 < n \<Longrightarrow> queue_index ord pick work n < n"
  by (auto simp: queue_index_def pick_ok_def split: order.split)

lemma dequeue_inv:
  assumes g: "good_ir ir" and inv: "solver_inv fl ir w" and qi: "qi < length (W_pending w)" and d: "dequeue qi w = (bid, w')"
  obtains i where "bid = B_ID (M_Blocks ir ! i)" and "taken_inv fl ir i w'"
proof -
  have bid: "bid = W_pending w ! qi" using d by (simp add: dequeue_def Let_def)
  have split: "set (W_pending w) = insert bid (set (take qi (W_pending w) @ drop (qi + 1) (W_pending w)))"
    using id_take_nth_drop [OF qi] bid by (metis Suc_eq_plus1 Un_insert_right list.simps(15) set_append)
  then have "bid \<in> set (map B_ID (M_Blocks ir))"
    using inv by (auto simp: solver_inv_def queue_ok_def)
  then obtain i where i: "i < length (M_Blocks ir)" and b: "bid = B_ID (M_Blocks ir ! i)" by (auto simp: in_set_conv_nth)
  have w': "W_blocks w' = W_blocks w" "W_ef w' = W_ef w" "W_inQ w' = (W_inQ w)(bid := False)"
    "W_pending w' = take qi (W_pending w) @ drop (qi + 1) (W_pending w)"
    using d by (auto simp: dequeue_def Let_def)
  have q: "queue_ok ir w'"
    using inv w' split by (auto simp: solver_inv_def queue_ok_def)
  have "(j \<noteq> i \<longrightarrow> settled_or_queued ir w' j) \<and> flows fl ir w' j" if j: "j < length (M_Blocks ir)" for j
  proof -
    have s: "settled ir w' j = settled ir w j" using w' by (intro settled_blocks_cong) simp_all
    have f: "flows fl ir w' j = flows fl ir w j" using w' by (simp add: flows_def)
    from inv j have "settled_or_queued ir w j \<and> flows fl ir w j" by (simp add: solver_inv_def)
    moreover have "B_ID (M_Blocks ir ! j) \<noteq> bid" if "j \<noteq> i"
      using g i j b that by (auto simp: good_ir_def distinct_conv_nth)
    ultimately show ?thesis using s f w'(3) by auto
  qed
  then show ?thesis using that [of i] b i q inv w' by (simp add: taken_inv_def solver_inv_def)
qed

lemma solver_inv_work [simp]: "solver_inv fl ir (w\<lparr>W_work := k\<rparr>) = solver_inv fl ir w"
  by (simp add: solver_inv_def queue_ok_def settled_def flows_def Let_def)

lemma solve_step_inv:
  assumes g: "good_ir ir" and t: "targets_ok ir" and p: "pick_ok pick"
    and inv: "solver_inv fl ir w" and ne: "W_pending w \<noteq> []"
    and s: "solve_step fl ir ord pick w c = (Inr w', c')"
  shows "solver_inv fl ir w'"
proof -
  let ?w = "w\<lparr>W_work := W_work w + 1\<rparr>"
  let ?qi = "queue_index ord pick (W_work ?w) (length (W_pending ?w))"
  obtain bid w1 where d: "dequeue ?qi ?w = (bid, w1)" by (cases "dequeue ?qi ?w")
  have qi: "?qi < length (W_pending ?w)" using queue_index_less [OF p] ne by simp
  have "solver_inv fl ir ?w" using inv by simp
  from dequeue_inv [OF g this qi d] obtain i where i: "bid = B_ID (M_Blocks ir ! i)" and inv1: "taken_inv fl ir i w1" .
  from s obtain c1 where "solve_block fl ir (B_ID (M_Blocks ir ! i)) w1 c1 = (Inr w', c')"
    by (auto simp: solve_step_def r_bind_Inr Let_def d [simplified] i)
  with g t inv1 show ?thesis by (rule solve_block_inv)
qed

lemma solve_loop_inv:
  assumes "good_ir ir" and "targets_ok ir" and "pick_ok pick"
    and "solver_inv fl ir w" and "solve_loop fl ir ord pick w c = (Inr w', c')"
  shows "solver_inv fl ir w' \<and> W_pending w' = []"
  using assms
proof (induction fl ir ord pick w c rule: solve_loop.induct)
  case (1 fl ir ord pick w c)
  show ?case
  proof (cases "W_pending w = []")
    case True
    have "w' = w" using 1(6) True by (simp add: solve_loop.simps [of fl ir ord pick w])
    with True 1(5) show ?thesis by simp
  next
    case False
    obtain w1 c1 where s: "solve_step fl ir ord pick w c = (Inr w1, c1)"
      and l: "solve_loop fl ir ord pick w1 c1 = (Inr w', c')"
      using 1(6) False by (auto simp: solve_loop.simps [of fl ir ord pick w] r_bind_Inr)
    have "solver_inv fl ir w1" by (rule solve_step_inv [OF 1(2-5) False s])
    then show ?thesis by (rule 1(1) [OF False s 1(2-4) _ l])
  qed
qed

lemma join_spec_absent: "(\<And>e. e \<in> set es \<Longrightarrow> EF_normal ef (E_ID e) = None) \<Longrightarrow> join_spec ef es joined n = Inr (joined, n)"
  by (induction es) auto

lemma start_inv:
  assumes g: "good_ir ir" and e: "block_at ir (M_EntryPC ir) = Some entryID"
  shows "solver_inv fl ir (start_worklist ir entryID entry)"
proof -
  let ?w = "start_worklist ir entryID entry"
  have "settled_or_queued ir ?w i \<and> flows fl ir ?w i" if i: "i < length (M_Blocks ir)" for i
  proof
    show "flows fl ir ?w i" using i by (simp add: flows_def start_worklist_def empty_block_def Let_def)
    show "settled_or_queued ir ?w i"
    proof (cases "B_ID (M_Blocks ir ! i) = entryID")
      case False
      have "EF_normal (W_ef ?w) (E_ID x) = None" if "x \<in> set (block_incoming ir (B_ID (M_Blocks ir ! i)))" for x
        using that g e False by (auto simp: block_incoming_edge good_ir_def start_worklist_def Let_def)
      then show ?thesis by (simp add: settled_def Let_def join_spec_absent)
    qed (simp add: start_worklist_def Let_def)
  qed
  then show ?thesis using block_at_ID [OF e]
    by (auto simp: solver_inv_def queue_ok_def start_worklist_def Let_def)
qed


section \<open>A loop\<close>

definition instr_at :: "u16 \<Rightarrow> int \<Rightarrow> int \<Rightarrow> ir_instr" where
  "instr_at pc op slot =
     \<lparr>I_ID = pc, I_PC = pc, I_Opcode = op, I_Name = [], I_Wide = False, I_Data = [], I_Local = slot, I_IincConst = 0,
      I_CPIndex = 0, I_Class = [], I_Member = [], I_Desc = [],
      I_Const = \<lparr>C_Kind = ConstNone, C_Int = 0, C_Long = 0, C_FloatBits = 0, C_DoubleBits = 0, C_String = [], C_Class = []\<rparr>,
      I_Cases = [], I_DefaultPC = 0, I_MayThrow = False, I_Result = 0\<rparr>"

definition edge_between :: "u16 \<Rightarrow> u16 \<Rightarrow> EdgeKind \<Rightarrow> ir_edge" where
  "edge_between a b k =
     \<lparr>E_ID = \<lparr>ID_From = a, ID_To = b, ID_Kind = k, ID_CaseValue = 0, ID_HandlerOrder = 0\<rparr>,
      E_From = a, E_To = b, E_Kind = k, E_CaseValue = 0, E_HandlerOrder = 0, E_CatchType = 0\<rparr>"

text \<open>\<open>static void f(int x) { for (;;) x++; }\<close>: a block whose own last instruction jumps back to it.\<close>

definition loop_ir :: MethodIR where
  "loop_ir = \<lparr>M_Limits = \<lparr>Present = True, MaxLocals = 1, MaxStack = 0, L_DirectSuperClass = ''java/lang/Object''\<rparr>,
     M_ClassName = ''A'', M_Name = ''f'', M_Descriptor = ''(I)V'', M_IsStatic = True,
     M_Blocks = [\<lparr>B_ID = 0, FirstPC = 0, InstrIDs = [0, 3]\<rparr>],
     M_Instrs = [instr_at 0 132 0, instr_at 3 167 (- 1)], M_Edges = [edge_between 3 0 EdgeTaken], M_Handlers = [],
     M_EntryPC = 0, instrIndex = Some [0 \<mapsto> 0, 3 \<mapsto> 1]\<rparr>"

lemma good_loop_ir: "good_ir loop_ir"
  by code_simp

text \<open>The block is taken twice, the second time from its own jump: the parameter is joined in a phi.\<close>

lemma loop_ir_solved:
  "case solve no_floats loop_ir FIFO (\<lambda>_ _. 0) \<lparr>CMax = 100, CUsed = 0\<rparr> of
     (Inr w, c') \<Rightarrow> W_work w = 2 \<and> CUsed c' = 18 \<and> map InOrig (W_blocks w) = [[phi_origin 0 0 0]] | _ \<Rightarrow> False"
  by code_simp


end
