(* ===== verification/RunSteps.thy ===== *)
theory RunSteps
  imports Runs
begin

text \<open>
  Running steps on concrete input: a counter that never refuses turns every step into \<open>r_ret\<close>, and the simplifier
  carries the value on.
\<close>

section \<open>A counter that never refuses\<close>

definition always :: "('w, 'a) run \<Rightarrow> bool" where
  "always m \<longleftrightarrow> (\<forall>w. \<exists>a w'. m w = (Inr a, w'))"

lemma always_ret [simp]: "always (r_ret a)"
  by (simp add: always_def r_ret_def)

lemma always_bind: "always m \<Longrightarrow> (\<And>a. always (k a)) \<Longrightarrow> always (r_bind m k)"
  unfolding always_def r_bind_def by (metis (no_types, lifting) case_prod_conv old.sum.simps(6))

abbreviation no_charge :: "unit charger" where
  "no_charge \<equiv> \<lambda>_. r_ret ()"

section \<open>Carrying a value on\<close>

lemma ret_bind [simp]: "r_bind (r_ret a) k = k a"
  by (simp add: r_bind_def r_ret_def fun_eq_iff)

lemma fail_bind [simp]: "r_bind (r_fail a) k = r_fail a"
  by (simp add: r_bind_def r_fail_def fun_eq_iff)

lemma lift_ret [simp]: "r_lift (Inr a) = r_ret a" by (simp add: r_lift_def r_ret_def fun_eq_iff)

lemma bind_at: "m w = r_ret a w' \<Longrightarrow> r_bind m k w = k a w'"
  by (simp add: r_bind_def r_ret_def)

lemma bind_bind [simp]: "r_bind (r_bind m k) h = r_bind m (\<lambda>a. r_bind (k a) h)"
  by (auto simp: r_bind_def fun_eq_iff split: prod.split sum.split)

lemma charge_each_free [simp]: "charge_each no_charge xs = r_ret ()"
  by (induction xs) simp_all

end
