(* ===== verification/LoweredLoop.thy ===== *)
theory LoweredLoop
  imports LowerEdges SolverFixpoint RunSteps
begin

text \<open>
  A method with a loop, \<open>for (;;) x++\<close>, is lowered step by step: its registry,
    the moves on its entry and on its
  back edge.
\<close>

section \<open>A loop that is lowered\<close>

definition back_edge :: ir_edge where
  "back_edge = edge_between 3 0 EdgeTaken"

definition one_int :: frame where
  "one_int = (NewFrame 1)\<lparr>Locals := [T IntK]\<rparr>"

definition solved_loop :: ssa_fun where
  "solved_loop = \<lparr>Values = [],
     EdgeStates = [E_ID (entry_edge loop_ir) \<mapsto> \<lparr>ES_Frame = one_int, ES_Origins = [param_origin 0]\<rparr>,
       E_ID back_edge \<mapsto> \<lparr>ES_Frame = one_int, ES_Origins = [instr_origin 0 0]\<rparr>],
     Instructions =
       [\<lparr>IV_PC = 0, Before = one_int, BeforeOrigins = [phi_origin 0 0 0], Uses = [phi_origin 0 0 0], Results =
         [instr_origin 0 0],
         UseIDs = [1], ResultIDs = [2]\<rparr>,
        \<lparr>IV_PC = 3, Before = one_int, BeforeOrigins = [instr_origin 0 0], Uses = [], Results = [], UseIDs =
          [], ResultIDs = []\<rparr>],
     entryEdge = Some (entry_edge loop_ir), incoming = None, F_IR = Some loop_ir,
     F_Blocks = [\<lparr>Reachable = True, BF_ID = 0, First = 0, BF_In = one_int, BF_Out = one_int,
       InOrig = [phi_origin 0 0 0], OutOrig = [instr_origin 0 0]\<rparr>],
     Phis = [\<lparr>P_ID = 1, P_Block = 0, P_Slot = \<lparr>S_Local = True, S_Index = 0\<rparr>, P_Type = T IntK,
       Operands = [\<lparr>PO_Edge = E_ID (entry_edge loop_ir), PO_Origin = param_origin 0, PO_Val = 3\<rparr>,
         \<lparr>PO_Edge = E_ID back_edge, PO_Origin = instr_origin 0 0, PO_Val = 2\<rparr>]\<rparr>],
     Params = [3], Work = 2\<rparr>"

definition loop_states :: "EdgeState list" where
  "loop_states = [\<lparr>ES_Frame = one_int, ES_Origins = [param_origin 0]\<rparr>, \<lparr>ES_Frame =
    one_int, ES_Origins = [instr_origin 0 0]\<rparr>]"

section \<open>Running it\<close>

lemma computational_int [simp]: "Computational (T IntK)" by code_simp

lemma slen_simps [simp]: "slen [] = 0" "slen (x # xs) = 1 + slen xs" by (simp_all add: slen_def)

definition "use_key = origin_value_key (phi_origin 0 0 0)"

definition "incr_key = origin_value_key (instr_origin 0 0)"

definition "param_key = origin_value_key (param_origin 0)"

definition "phi_def_key = PhiKey (hd (Phis solved_loop))"

lemma loop_keys [simp]: "use_key \<noteq> incr_key" "use_key \<noteq> param_key" "use_key \<noteq> phi_def_key"
    "incr_key \<noteq> param_key" "incr_key \<noteq> phi_def_key" "param_key \<noteq> phi_def_key"
   "incr_key \<noteq> use_key" "param_key \<noteq> use_key" "phi_def_key \<noteq> use_key" "param_key \<noteq> incr_key"
     "phi_def_key \<noteq> incr_key" "phi_def_key \<noteq> param_key"
  by code_simp+

lemmas loop_key_folds = use_key_def[symmetric] incr_key_def[symmetric] param_key_def[symmetric] phi_def_key_def[symmetric]

lemma one_int_slots [simp]: "frame_slots one_int = [T IntK]" by code_simp

lemma loop_origin_kinds [simp]: "O_Kind (phi_origin a b c) = OriginPhi" "O_Kind (instr_origin p i) = OriginInstr"
    "O_Kind (param_origin k) = OriginParam"
  by (simp_all add: phi_origin_def instr_origin_def param_origin_def)

definition "loop_block0 = hd (F_Blocks solved_loop)"

lemma run_blocks: "register_blocks no_charge [loop_block0] s =
   r_ret (s\<lparr>s_keys := s_keys s @ [use_key, incr_key],
     s_types := (s_types s)(use_key \<mapsto> value_info (T IntK) (phi_origin 0 0 0),
     incr_key \<mapsto> value_info (T IntK) (instr_origin 0 0))\<rparr>)"
  by (simp add: loop_block0_def solved_loop_def register_value_def add_key_def loop_key_folds Let_def)

lemma run_edges: "register_edges no_charge loop_states s =
   r_ret (s\<lparr>s_keys := s_keys s @ [param_key, incr_key],
     s_types := (s_types s)(param_key \<mapsto> value_info (T IntK) (param_origin 0),
     incr_key \<mapsto> value_info (T IntK) (instr_origin 0 0))\<rparr>)"
  by (simp add: loop_states_def register_value_def add_key_def loop_key_folds Let_def)

lemma run_instrs_keys: "register_instrs no_charge (Instructions solved_loop) s =
   r_ret (s\<lparr>s_keys := s_keys s @ [use_key, use_key, incr_key, incr_key],
     s_types := (s_types s)(use_key \<mapsto> value_info (T IntK) (phi_origin 0 0 0),
     incr_key \<mapsto> value_info (T IntK) (instr_origin 0 0))\<rparr>)"
  by (simp add: solved_loop_def register_value_def add_key_def loop_key_folds Let_def)

definition "loop_phi1 = hd (Phis solved_loop)"

lemma loop_phi1_simps [simp]: "P_ID loop_phi1 = 1" "P_Block loop_phi1 = 0" "S_Local (P_Slot loop_phi1)"
    "S_Index (P_Slot loop_phi1) = 0" "P_Type loop_phi1 = T IntK"
  "Phis solved_loop = [loop_phi1]"
    "Operands loop_phi1 = [\<lparr>PO_Edge = E_ID (entry_edge loop_ir), PO_Origin = param_origin 0, PO_Val = 3\<rparr>,
         \<lparr>PO_Edge = E_ID back_edge, PO_Origin = instr_origin 0 0, PO_Val = 2\<rparr>]"
           "PhiKey loop_phi1 = phi_def_key"
  by (simp_all add: loop_phi1_def solved_loop_def phi_def_key_def)

lemma loop_block0_simps [simp]: "BF_ID loop_block0 = 0" "F_Blocks solved_loop = [loop_block0]"
    "phi_slot loop_phi1 loop_block0 = Some 0" "phi_use_key loop_block0 0 = use_key"
   by (simp add: loop_block0_def solved_loop_def, simp add: loop_block0_def solved_loop_def) code_simp+

definition loop_types1 :: "ValueKey \<rightharpoonup> ValueInfo" where
  "loop_types1 = [use_key \<mapsto> value_info (T IntK) (phi_origin 0 0 0),
    incr_key \<mapsto> value_info (T IntK) (instr_origin 0 0)]"

definition loop_types2 :: "ValueKey \<rightharpoonup> ValueInfo" where
  "loop_types2 = loop_types1(param_key \<mapsto> value_info (T IntK) (param_origin 0),
    incr_key \<mapsto> value_info (T IntK) (instr_origin 0 0))"

definition loop_types3 :: "ValueKey \<rightharpoonup> ValueInfo" where
  "loop_types3 = loop_types2(use_key \<mapsto> value_info (T IntK) (phi_origin 0 0 0),
    incr_key \<mapsto> value_info (T IntK) (instr_origin 0 0))"

definition loop_types :: "ValueKey \<rightharpoonup> ValueInfo" where
  "loop_types = loop_types3(phi_def_key \<mapsto> value_info (T IntK) no_origin)"

lemmas loop_type_folds =
    loop_types1_def [symmetric] loop_types2_def [symmetric] loop_types3_def [symmetric] loop_types_def [symmetric]

lemma loop_types3_simps [simp]: "loop_types3 use_key = Some (value_info (T IntK) (phi_origin 0 0 0))"
    "loop_types3 incr_key = Some (value_info (T IntK) (instr_origin 0 0))"
    "loop_types3 param_key = Some (value_info (T IntK) (param_origin 0))"
  by (simp_all add: loop_types3_def loop_types2_def)

lemma loop_types_simps [simp]: "loop_types use_key = Some (value_info (T IntK) (phi_origin 0 0 0))"
    "loop_types incr_key = Some (value_info (T IntK) (instr_origin 0 0))"
    "loop_types param_key = Some (value_info (T IntK) (param_origin 0))"
    "loop_types phi_def_key = Some (value_info (T IntK) no_origin)"
  by (simp_all add: loop_types_def)

lemma run_phis: "ty param_key \<noteq> None \<Longrightarrow> ty incr_key \<noteq> None \<Longrightarrow>
    register_phis no_charge [loop_block0] [loop_phi1] \<lparr>s_keys = ks, s_aliases = [], s_types = ty, s_seen =
    {}\<rparr> =
   r_ret  \<lparr>s_keys = ks @ [phi_def_key, param_key, incr_key], s_aliases = [(use_key, phi_def_key)], s_types =
     ty(phi_def_key \<mapsto> value_info (T IntK) no_origin), s_seen = {1}\<rparr>"
  by (auto simp add: register_phi_def add_key_def loop_key_folds Let_def)

lemma loop_key_order: "key_order param_key \<le> key_order incr_key" "key_order incr_key \<le> key_order phi_def_key"
    "key_order param_key \<le> key_order phi_def_key" "\<not> key_order incr_key \<le> key_order param_key"
    "\<not> key_order phi_def_key \<le> key_order incr_key" "\<not> key_order phi_def_key \<le> key_order param_key"
  by code_simp+

lemma loop_canonical [simp]: "canonical_key no_charge [(use_key, phi_def_key)] use_key = r_ret phi_def_key"
    "k \<noteq> use_key \<Longrightarrow> canonical_key no_charge [(use_key, phi_def_key)] k = r_ret k"
  by (simp_all add: canonical_key_def)

lemma key_step: "key_set no_charge [(use_key, phi_def_key)] (k # ks) acc =
    key_set no_charge [(use_key, phi_def_key)] ks (List.insert (if k = use_key then phi_def_key else k) acc)"
  by simp

lemma run_key_set: "key_set no_charge [(use_key, phi_def_key)] [use_key, incr_key, param_key, incr_key, use_key, use_key,
    incr_key, incr_key, phi_def_key, param_key, incr_key, use_key, phi_def_key] [] =
    r_ret [param_key, incr_key, phi_def_key]"
  by (simp add: key_step del: key_set.simps(2))

lemma run_sort: "sort_key key_order [param_key, incr_key, phi_def_key] =
    [param_key, incr_key, phi_def_key]" by (simp add: loop_key_order)

lemma run_number_keys: "number_keys no_charge [param_key, incr_key, phi_def_key] \<lparr>ids = Map.empty, Info =
    Map.empty, next_id = 1, temps = 0\<rparr> = r_ret
   \<lparr>ids = [param_key \<mapsto> 1, incr_key \<mapsto> 2, phi_def_key \<mapsto> 3], Info = Map.empty, next_id =
     4, temps = 0\<rparr>"
  by simp

lemma alias_known: "k \<noteq> use_key \<Longrightarrow> ids r k \<noteq> None \<Longrightarrow>
    alias_keys no_charge [(use_key, phi_def_key)] (k # ks) r = alias_keys no_charge [(use_key, phi_def_key)] ks r"
  by (auto simp: id_or_zero_def fun_upd_idem)

lemma alias_new: "ids r phi_def_key = Some x \<Longrightarrow>
    alias_keys no_charge [(use_key, phi_def_key)] (use_key # ks) r =
    alias_keys no_charge [(use_key, phi_def_key)] ks (r\<lparr>ids := (ids r)(use_key \<mapsto> x)\<rparr>)"
  by (auto simp: id_or_zero_def)

lemma run_alias_keys: "alias_keys no_charge [(use_key, phi_def_key)] [use_key, incr_key, param_key, incr_key, use_key,
    use_key, incr_key, incr_key, phi_def_key, param_key, incr_key, use_key, phi_def_key] \<lparr>ids =
    [param_key \<mapsto> 1, incr_key \<mapsto> 2, phi_def_key \<mapsto> 3], Info = Map.empty, next_id = 4, temps =
    0\<rparr> =
   r_ret \<lparr>ids = [param_key \<mapsto> 1, incr_key \<mapsto> 2, phi_def_key \<mapsto> 3, use_key \<mapsto> 3],
     Info = Map.empty, next_id = 4, temps = 0\<rparr>"
  by (simp add: alias_known alias_new del: alias_keys.simps(2))

lemma loop_key_facts [simp]: "K_Domain phi_def_key = 1" "K_Kind param_key = 1" "K_Kind incr_key = 2"
    "K_Domain use_key = 0" "K_Kind use_key = 3"
  by code_simp+

lemma loop_room: "\<not> word_of_int 1 > (- 1 - word_of_int 11) div (2 :: u64)" by code_simp

lemma run_numbers: "newValueRegistry no_charge [use_key, incr_key, param_key, incr_key, use_key, use_key, incr_key,
    incr_key, phi_def_key, param_key, incr_key] [(use_key, phi_def_key)] = r_ret
   \<lparr>ids = [param_key \<mapsto> 1, incr_key \<mapsto> 2, phi_def_key \<mapsto> 3, use_key \<mapsto> 3], Info =
     Map.empty, next_id = 4, temps = 0\<rparr>"
proof -
  have a: "all_keys [use_key, incr_key, param_key, incr_key, use_key, use_key, incr_key, incr_key, phi_def_key,
    param_key, incr_key] [(use_key, phi_def_key)] =
    [use_key, incr_key, param_key, incr_key, use_key, use_key, incr_key, incr_key, phi_def_key, param_key, incr_key,
    use_key, phi_def_key]"
    by (simp add: all_keys_def)
  have s: "slen [use_key, incr_key, param_key, incr_key, use_key, use_key, incr_key, incr_key, phi_def_key, param_key,
    incr_key] = 11" "slen [(use_key, phi_def_key)] = 1" by simp_all
  show ?thesis
   unfolding newValueRegistry_def a s Let_def run_key_set ret_bind run_sort run_number_keys run_alias_keys
   by (simp only: loop_room if_False ret_bind run_key_set run_sort run_number_keys run_alias_keys chargeScaledWork_def
     if_cancel)
qed

definition loop_numbers :: ValueRegistry where "loop_numbers = \<lparr>ids =
    [param_key \<mapsto> 1, incr_key \<mapsto> 2, phi_def_key \<mapsto> 3, use_key \<mapsto> 3], Info =
    Map.empty, next_id = 4, temps = 0\<rparr>"

definition loop_values :: ValueRegistry where "loop_values =
    loop_numbers\<lparr>Info := [3 \<mapsto> value_info (T IntK) no_origin,
            1 \<mapsto> value_info (T IntK) (param_origin 0),
            2 \<mapsto> value_info (T IntK) (instr_origin 0 0)]\<rparr>"

lemma run_info: "fill_info no_charge loop_types [use_key, incr_key, param_key, incr_key, use_key, use_key, incr_key,
    incr_key, phi_def_key, param_key, incr_key] loop_numbers = r_ret loop_values"
  by (simp add: id_or_zero_def loop_values_def loop_numbers_def)

lemma run_phi_info: "fill_phis no_charge loop_types [loop_phi1] loop_values = r_ret loop_values"
  by (simp add: id_or_zero_def) (rule arg_cong [of _ _ r_ret], simp add: loop_values_def loop_numbers_def fun_eq_iff)

lemma run_check: "check_phi_uses no_charge [(use_key, phi_def_key)] [use_key, incr_key, param_key, incr_key, use_key,
    use_key, incr_key, incr_key, phi_def_key, param_key, incr_key] = r_ret ()" by simp

lemma run_registry: "registryForWithCounter no_charge solved_loop loop_states = r_ret loop_values"
  by (simp only: registryForWithCounter_def Let_def run_blocks run_edges run_instrs_keys ret_bind key_scan.select_convs
    key_scan.update_convs append.simps loop_type_folds
    loop_phi1_simps loop_block0_simps charge_each.simps run_phis loop_types3_simps option.distinct not_False_eq_True
      run_numbers [folded loop_numbers_def] run_info run_phi_info run_check)

lemma seq_no_charge [simp]: "seq_charge no_charge u = r_ret ()"
  by (simp add: seq_charge_def r_ret_def fun_eq_iff split: prod.split)

definition "one_pending d s = \<lparr>pending = [(d, s)], readers = (\<lambda>_. [])(s := [d]), occupied =
    {d, s}, ready = [d], all_ids = [d], moves = []\<rparr>"

lemma take_one: "d \<noteq> s \<Longrightarrow>
    take_ready (one_pending d s) = \<lparr>pending = [], readers = (\<lambda>_. []), occupied = {d, s}, ready =
    [], all_ids = [d], moves = [\<lparr>Dst = d, Src = s, Tmp = False\<rparr>]\<rparr>"
  by (simp add: take_ready_def one_pending_def heap_pop_def Let_def heap_push_def) (auto simp: fun_eq_iff)

lemma loop_one: "d \<noteq> s \<Longrightarrow>
    sched_loop (seq_charge no_charge) nt (one_pending d s) w = r_ret (take_ready (one_pending d s)) w"
proof -
  assume "d \<noteq> s"
  from take_one [OF this] have 1: "pending (take_ready (one_pending d s)) = []"
    "ready (take_ready (one_pending d s)) = []" by simp_all
  have 2: "pending (one_pending d s) \<noteq> []" "ready (one_pending d s) \<noteq> []" by (simp_all add: one_pending_def)
  show ?thesis
    by (simp add: sched_loop.simps [of _ _ "one_pending d s"] sched_loop.simps [of _ _ "take_ready (one_pending d s)"] 1
      2 sched_round_def drain.simps [of _ "one_pending d s"] drain.simps [of _ "take_ready (one_pending d s)"])
qed

lemma loop_one_fun: "d \<noteq> s \<Longrightarrow>
    sched_loop (seq_charge no_charge) nt (one_pending d s) = r_ret (take_ready (one_pending d s))"
  by (intro ext) (rule loop_one)

lemma schedule_one: "0 < d \<Longrightarrow> 0 < s \<Longrightarrow> d \<noteq> s \<Longrightarrow>
    sequentializeChecked (seq_charge no_charge) nt [\<lparr>Dst = d, Src = s\<rparr>] = r_ret [\<lparr>Dst = d, Src =
    s, Tmp = False\<rparr>]"

  using loop_one_fun [of d s nt] take_one [of d s]
  by (simp add: sequentializeChecked_def chargeScaledWork_def add_copy_def seed_heaps_def no_sched_def seed_def
    heap_push_def Let_def one_pending_def [symmetric])

lemma on_counter_ret [simp]: "on_counter (r_ret a) = r_ret a"
  by (simp add: on_counter_def r_ret_def fun_eq_iff split: prod.split)

lemma sequentialize_one: "copy_typed r \<lparr>Dst = d, Src = s\<rparr> = None \<Longrightarrow> 0 < d \<Longrightarrow>
    0 < s \<Longrightarrow> d \<noteq> s \<Longrightarrow>
    sequentializeWithCounter no_charge [\<lparr>Dst = d, Src = s\<rparr>] (r, c) = r_ret [\<lparr>Dst = d, Src = s, Tmp =
    False\<rparr>] (r, c)"
  by (simp add: sequentializeWithCounter_def schedule_one r_ret_def r_bind_def)

lemma loop_ids [simp]: "PhiID (Some loop_values) loop_phi1 = Inr 3"
    "OriginID (Some loop_values) (param_origin 0) = Inr 1" "OriginID (Some loop_values) (instr_origin 0 0) = Inr 2"
  by (simp_all add: PhiID_def OriginID_def Lookup_def loop_values_def loop_numbers_def loop_key_folds)

lemma loop_info: "Info loop_values 1 = Some (value_info (T IntK) (param_origin 0))"
    "Info loop_values 2 = Some (value_info (T IntK) (instr_origin 0 0))"
    "Info loop_values 3 = Some (value_info (T IntK) no_origin)"
  by (simp_all add: loop_values_def)

lemma loop_typed [simp]: "copy_typed loop_values \<lparr>Dst = 3, Src = 1\<rparr> = None"
    "copy_typed loop_values \<lparr>Dst = 3, Src = 2\<rparr> = None"
  by (simp_all add: copy_typed_def loop_info value_info_def compatible_def) code_simp+

definition "loop_code = \<lparr>B_ID = 0, FirstPC = 0, InstrIDs = [0, 3]\<rparr>"

lemma loop_target [simp]: "BlockOf (Some loop_ir) 0 = Some loop_code" by code_simp

lemma loop_edge_ends [simp]: "E_To back_edge = 0" "E_To (entry_edge loop_ir) = 0" "E_From back_edge = 3"
    "E_ID back_edge \<noteq> E_ID (entry_edge loop_ir)" "E_ID (entry_edge loop_ir) \<noteq> E_ID back_edge"
    "E_Kind back_edge = EdgeTaken" "E_Kind (entry_edge loop_ir) = EntryEdgeKind" "B_ID loop_code = 0"
  by code_simp+

lemma run_phis_of [simp]: "PhisOfWithCounter no_charge (Some solved_loop) 0 = r_ret [loop_phi1]"
  by (simp add: PhisOfWithCounter_def)

lemma run_copies [simp]: "phiCopiesCheckedWithCounter no_charge no_charge solved_loop loop_ir loop_values back_edge =
    r_ret [\<lparr>Dst = 3, Src = 2\<rparr>]"
   "phiCopiesCheckedWithCounter no_charge no_charge solved_loop loop_ir loop_values (entry_edge loop_ir) =
     r_ret [\<lparr>Dst = 3, Src = 1\<rparr>]"
  by (simp_all add: phiCopiesCheckedWithCounter_def phi_copy_def r_lift_def)

lemma run_edge_moves [simp]: "edge_moves no_charge no_charge solved_loop loop_ir back_edge (loop_values, c) =
    r_ret [\<lparr>Dst = 3, Src = 2, Tmp = False\<rparr>] (loop_values, c)"
   "edge_moves no_charge no_charge solved_loop loop_ir (entry_edge loop_ir) (loop_values, c) = r_ret [\<lparr>Dst =
     3, Src = 1, Tmp = False\<rparr>] (loop_values, c)"
  by (simp_all add: edge_moves_def sequentialize_one)

lemma run_incoming: "IncomingWithCounter no_charge (Some solved_loop) 0 = r_ret [entry_edge loop_ir, back_edge]"
proof -
  have "sort_edges (edges_into solved_loop loop_ir 0) = [entry_edge loop_ir, back_edge]" by code_simp
  moreover have "incoming solved_loop = None" "F_IR solved_loop = Some loop_ir" by (simp_all add: solved_loop_def)
  moreover have "count_into 0 (M_Edges loop_ir) (case entryEdge solved_loop of None \<Rightarrow> 0 | Some e
    \<Rightarrow> if E_To e = 0 then 1 else 0) = Inr 2"
    by code_simp
  moreover have "\<not> mask 63 < (2 :: u64)" by code_simp
  ultimately show ?thesis by (simp add: IncomingWithCounter_def Let_def)
qed

lemma run_coverage: "coverageMapWithCounter no_charge (Some loop_ir) = r_ret []"
  by (simp add: coverageMapWithCounter_def loop_ir_def)

lemma loop_edges [simp]: "M_Edges loop_ir = [back_edge]"
    "M_EntryPC loop_ir = 0" by (simp_all add: loop_ir_def back_edge_def)

lemma run_entry: "entry_moves no_charge no_charge solved_loop loop_ir [entry_edge loop_ir, back_edge] [] (loop_values,
    ()) = r_ret [\<lparr>Dst = 3, Src = 1, Tmp = False\<rparr>] (loop_values, ())"
  by (simp add: r_bind_def r_ret_def EntryEdgeKind_def)

lemma loop_live [simp]: "live solved_loop (E_ID back_edge)" by code_simp

definition "loop_ends = ((\<lambda>_. 0)(3 := 1), (\<lambda>_. 0)(0 := 1)) "

lemma run_ends: "count_ends no_charge solved_loop [back_edge] (\<lambda>_. 0, \<lambda>_. 0) = r_ret loop_ends"
  by (simp add: loop_ends_def)

definition "loop_assign = (plain_assign back_edge [])\<lparr>A_Moves := [\<lparr>Dst = 3, Src = 2, Tmp =
    False\<rparr>]\<rparr>"

lemma run_emit: "each_run (emit_edge no_charge no_charge solved_loop loop_ir [] loop_ends) [back_edge] ([],
    []) (loop_values, ()) = r_ret ([], [loop_assign]) (loop_values, ())"
  by (simp add: emit_edge_def rangesForPCWithCounter_def ranges_at_def Let_def loop_assign_def loop_ends_def bind_at
    [where m = "edge_moves no_charge no_charge solved_loop loop_ir back_edge", OF run_edge_moves(1)])

lemma index_before_ret: "\<exists>m'. index_before no_charge xs m = r_ret m'"
  by (induction xs arbitrary: m) auto

lemma run_plan: "exceptionPlan no_charge no_charge solved_loop loop_ir [] 10 (loop_values, ()) = r_ret \<lparr>EP_Sites =
    [], EP_Catch = []\<rparr> (loop_values, ())"
proof -
  obtain m' where "index_before no_charge (Instructions solved_loop) Map.empty = r_ret m'" using index_before_ret by blast
  then show ?thesis by (simp add: exceptionPlan_def sites_of_def plan_block_def)
qed

definition "lowered_loop = \<lparr>L_EntryMoves = [\<lparr>Dst = 3, Src = 1, Tmp = False\<rparr>], L_Values =
    loop_values, L_Exception = \<lparr>EP_Sites = [], EP_Catch = []\<rparr>, L_IR = loop_ir, L_SSA = solved_loop,
                     L_Assigns = [loop_assign], L_Splits = [], L_Temps = 0, L_Coverage = []\<rparr>"

lemma loop_temps: "temps loop_values = 0" by (simp add: loop_values_def loop_numbers_def)

lemma run_lower: "lower_with no_charge no_charge solved_loop loop_ir [] loop_ends 10 (loop_values, ()) =
    (Inr lowered_loop, loop_values, ())"
  by (simp add: lower_with_def bind_at [where m =
    "exceptionPlan no_charge no_charge solved_loop loop_ir [] 10", OF run_plan] run_incoming
    bind_at [where m = "entry_moves no_charge no_charge solved_loop loop_ir [entry_edge loop_ir, back_edge] []",
      OF run_entry]
    bind_at [where m = "each_run (emit_edge no_charge no_charge solved_loop loop_ir [] loop_ends) [back_edge] ([], [])",
      OF run_emit] r_ret_def lowered_loop_def loop_temps
    del: each_run.simps entry_moves.simps)

lemma run_destroy: "DestroyWithWorkCounter no_charge no_charge (Some solved_loop) loop_states 10 () =
    (Inr lowered_loop, ())"
proof -
  have "F_IR solved_loop = Some loop_ir" by (simp add: solved_loop_def)
  moreover have "registryForWithCounter no_charge solved_loop loop_states () =
    (Inr loop_values, ())" by (simp add: run_registry r_ret_def)
  ultimately show ?thesis using run_lower by (simp add: DestroyWithWorkCounter_def run_coverage run_ends r_bind_step del:
    count_ends.simps)
qed

lemma solved_loop_ir: "F_IR solved_loop = Some loop_ir"
  by (simp add: solved_loop_def)

lemma loop_phis_of: "PhisOf solved_loop 0 = [loop_phi1]"
  by (simp add: PhisOf_def)

lemma lowered_loop_simps:
  "L_Values lowered_loop = loop_values" "MovesOn lowered_loop (E_ID back_edge) = [\<lparr>Dst = 3, Src = 2, Tmp = False\<rparr>]"
  "SplitFor lowered_loop (E_ID back_edge) = None"
  by (simp_all add: lowered_loop_def MovesOn_def SplitFor_def loop_assign_def plain_assign_def)

end
