(* ===== verification/LowerProps.thy ===== *)
theory LowerProps
  imports LoweredLoop
begin

text \<open>The properties of lowering, on the whole of \<open>Destroy\<close>, and a method with a loop that is lowered.\<close>

section \<open>Protected ranges\<close>

text \<open>The ranges of an instruction do not depend on the counter, and no key is given twice.\<close>

lemma cover_instrs_unique:
  "cover_instrs ch h is out w = (Inr a, w') \<Longrightarrow> cover_instrs ch' h is out u = (Inr b, u') \<Longrightarrow> a = b"
  by (induction ch h "is" out arbitrary: w u rule: cover_instrs.induct) (auto simp: r_bind_Inr split: if_splits)

lemma cover_handlers_unique:
  "cover_handlers ch is hs out w = (Inr a, w') \<Longrightarrow> cover_handlers ch' is hs out u = (Inr b, u') \<Longrightarrow> a = b"
proof (induction ch "is" hs out arbitrary: w u rule: cover_handlers.induct)
  case (2 ch "is" h hs out)
  then show ?case by (auto simp: r_bind_Inr) (metis cover_instrs_unique)
qed simp

lemma cover_instrs_distinct: "cover_instrs ch h is out w = (Inr a, w') \<Longrightarrow> distinct (map fst out) \<Longrightarrow> distinct (map fst a)"
  by (induction ch h "is" out arbitrary: w rule: cover_instrs.induct) (auto simp: r_bind_Inr distinct_update split: if_splits)

lemma cover_handlers_distinct: "cover_handlers ch is hs out w = (Inr a, w') \<Longrightarrow> distinct (map fst out) \<Longrightarrow> distinct (map fst a)"
  by (induction ch "is" hs out arbitrary: w rule: cover_handlers.induct) (auto simp: r_bind_Inr dest: cover_instrs_distinct)

lemma coverage_distinct: "coverageMapWithCounter ch mp w = (Inr a, w') \<Longrightarrow> distinct (map fst a)"
  by (auto simp: coverageMapWithCounter_def dest: cover_handlers_distinct split: option.splits)

lemma coverage_unique:
  "coverageMapWithCounter ch mp w = (Inr a, w') \<Longrightarrow> coverageMapWithCounter ch' mp u = (Inr b, u') \<Longrightarrow> a = b"
  by (auto simp: coverageMapWithCounter_def dest: cover_handlers_unique split: option.splits)

lemma CoverageEqual_refl [simp]: "CoverageEqual a a"
  by (simp add: CoverageEqual_def list_all2_same)

lemma maps_equal_same:
  "maps_equal ch a b w = (Inr ok, w') \<Longrightarrow> \<forall>(pc, rs)\<in>set a. ranges_at b pc = rs \<Longrightarrow> ok"
  by (induction ch a b arbitrary: w rule: maps_equal.induct) (auto simp: r_bind_Inr split: if_splits)

lemma maps_equal_refl:
  assumes "distinct (map fst a)" and "coverageMapsEqualWithCounter ch a a w = (Inr ok, w')"
  shows ok
proof -
  have "\<forall>(pc, rs)\<in>set a. ranges_at a pc = rs" using assms(1) by (auto simp: ranges_at_def)
  with assms(2) show ?thesis by (auto simp: coverageMapsEqualWithCounter_def dest: maps_equal_same)
qed

lemma assigns_unmoved_ok:
  "assigns_unmoved ch cov as w = (Inr ok, w') \<Longrightarrow>
   \<forall>a\<in>set as. A_Kind a = EdgeException \<longrightarrow>
     A_Coverage a = sort_key R_Order (ranges_at cov (A_OriginPC a)) \<and> A_Moves a = [] \<Longrightarrow> ok"
proof (induction ch cov as arbitrary: w rule: assigns_unmoved.induct)
  case (2 ch cov a as)
  then show ?case
    by (auto simp: r_bind_Inr coverageEqualWithCounter_def identityMoves_def dest!: rangesForPC_Inr split: if_splits)
qed simp

lemma splits_unmoved_ok:
  "splits_unmoved ch cov ss w = (Inr ok, w') \<Longrightarrow>
   \<forall>s\<in>set ss. SB_Kind s \<noteq> EdgeException \<and> SB_Coverage s = sort_key R_Order (ranges_at cov (SB_OriginPC s)) \<Longrightarrow> ok"
proof (induction ch cov ss arbitrary: w rule: splits_unmoved.induct)
  case (2 ch cov s ss)
  then show ?case
    by (auto simp: r_bind_Inr coverageEqualWithCounter_def dest!: rangesForPC_Inr split: if_splits)
qed simp

lemma always_ranges: "always (rangesForPCWithCounter no_charge cov pc)"
  by (simp add: rangesForPCWithCounter_def Let_def always_bind)

lemma always_coverage: "always (coverageMapWithCounter no_charge mp)"
proof -
  have i: "always (cover_instrs no_charge h is out)" for h "is" out
    by (induction "is" arbitrary: out) (auto intro!: always_bind)
  have "always (cover_handlers no_charge is hs out)" for "is" hs out
    by (induction hs arbitrary: out) (auto intro!: always_bind i)
  then show ?thesis by (simp add: coverageMapWithCounter_def split: option.split)
qed

lemma always_unmoved: "always (ThrowsUnmovedWithCounter no_charge lp)"
proof -
  have m: "always (maps_equal no_charge a b)" for a b
    by (induction a) (auto intro!: always_bind)
  have a: "always (assigns_unmoved no_charge cov as)" for cov as
    by (induction as) (auto intro!: always_bind always_ranges simp: coverageEqualWithCounter_def)
  have s: "always (splits_unmoved no_charge cov ss)" for cov ss
    by (induction ss) (auto intro!: always_bind always_ranges simp: coverageEqualWithCounter_def)
  show ?thesis
    by (auto simp: ThrowsUnmovedWithCounter_def coverageMapsEqualWithCounter_def
        intro!: always_bind always_coverage m a s split: option.split)
qed

section \<open>Properties of lowering\<close>

text \<open>C1: lowering keeps the meaning of phis: after the moves on a live edge that is not exceptional, every
  phi of the block the edge enters holds what its operand for that edge held before, whatever the state, and no
  other value of the function has changed.\<close>

theorem destroy_carries_phis:
  assumes "DestroyWithWorkCounter ch rd (Some fn) es maxSpills c = (Inr l, c')" and "F_IR fn = Some ir"
    and "e \<in> set (M_Edges ir)" and "live fn (E_ID e)" and "E_Kind e \<noteq> EdgeException"
  shows "\<exists>b. BlockOf (Some ir) (E_To e) = Some b \<and>
    (\<forall>p\<in>set (PhisOf fn (B_ID b)). \<exists>d. phi_copy_of (L_Values l) (E_ID e) p d \<and>
       (\<forall>st. read_var (SerialEval (MovesOn l (E_ID e)) st) (Dst d) = read_var st (Src d))) \<and>
    (\<forall>x i. Info (L_Values l) x = Some i \<and> \<not> Temporary i \<and>
       (\<forall>p\<in>set (PhisOf fn (B_ID b)). PhiID (Some (L_Values l)) p \<noteq> Inr x) \<longrightarrow>
       (\<forall>st. read_var (SerialEval (MovesOn l (E_ID e)) st) x = read_var st x))"
proof -
  obtain cov r where d: "distinct (map E_ID (M_Edges ir))" and x: "extends_registry r (L_Values l)"
    and ok: "emitted_ok fn ir cov r (M_Edges ir) (L_Splits l, L_Assigns l)"
    by (rule destroy_Inr [OF assms(1,2)]) (rule that; assumption)
  from moves_on_edge [OF ok d assms(3,4)] assms(5) have "carries fn ir r e (MovesOn l (E_ID e))" by simp
  moreover have "phi_copy_of (L_Values l) = phi_copy_of r" "PhiID (Some (L_Values l)) = PhiID (Some r)"
    using x IDs_cong [of "L_Values l" r] by (auto simp: phi_copy_of_def extends_registry_def fun_eq_iff)
  moreover have "x < next_id r" if "Info (L_Values l) x = Some i" "\<not> Temporary i" for x i
    using x that unfolding extends_registry_def by (meson not_le)
  ultimately show ?thesis unfolding carries_def by auto
qed

text \<open>C13: a live edge gets a block of its own exactly when it has moves and is critical, that is, shares its
  source with another live edge and its target with another one; an exception edge has no moves.\<close>

theorem destroy_splits_critical:
  assumes "DestroyWithWorkCounter ch rd (Some fn) es maxSpills c = (Inr l, c')" and "F_IR fn = Some ir"
    and "e \<in> set (M_Edges ir)" and "live fn (E_ID e)"
  shows "(SplitFor l (E_ID e) \<noteq> None \<longleftrightarrow> MovesOn l (E_ID e) \<noteq> [] \<and> critical fn ir e) \<and>
    (E_Kind e = EdgeException \<longrightarrow> MovesOn l (E_ID e) = [])"
proof -
  obtain cov r where d: "distinct (map E_ID (M_Edges ir))"
    and ok: "emitted_ok fn ir cov r (M_Edges ir) (L_Splits l, L_Assigns l)"
    by (rule destroy_Inr [OF assms(1,2)]) (rule that; assumption)
  from moves_on_edge [OF ok d assms(3,4)] show ?thesis by (auto split: if_splits)
qed

text \<open>C12: lowering moves nothing across a throw: the check that compares the protected ranges of every
  edge and split with those of the method and looks for moves on exception edges passes after every lowering,
  and under a work counter it can only fail for want of budget.\<close>

theorem destroy_throws_unmoved:
  assumes "DestroyWithWorkCounter ch rd (Some fn) es maxSpills c = (Inr l, c')"
  shows "ThrowsUnmoved (Some l) \<and>
    (\<forall>ch' v ok v'. ThrowsUnmovedWithCounter ch' (Some l) v = (Inr ok, v') \<longrightarrow> ok)"
proof -
  from assms obtain ir where ir: "F_IR fn = Some ir"
    by (cases "F_IR fn") (auto simp: DestroyWithWorkCounter_def)
  obtain cov r w where c: "coverageMapWithCounter ch (Some ir) c = (Inr cov, w)" and l: "L_IR l = ir" "L_Coverage l = cov"
    and ok: "emitted_ok fn ir cov r (M_Edges ir) (L_Splits l, L_Assigns l)"
    by (rule destroy_Inr [OF assms ir]) (rule that; assumption)
  have unmoved: ok if "ThrowsUnmovedWithCounter ch' (Some l) v = (Inr ok, v')" for ch' v ok v'
  proof -
    from that l obtain orig v1 same v2 where o: "coverageMapWithCounter ch' (Some ir) v = (Inr orig, v1)"
      and s: "coverageMapsEqualWithCounter ch' orig cov v1 = (Inr same, v2)"
      and r: "(if \<not> same then r_ret False
        else r_bind (assigns_unmoved ch' orig (L_Assigns l)) (\<lambda>ok. if ok then splits_unmoved ch' orig (L_Splits l) else r_ret False)) v2
        = (Inr ok, v')"
      by (auto simp: ThrowsUnmovedWithCounter_def r_bind_Inr)
    have eq: "orig = cov" by (rule coverage_unique [OF o c])
    have same by (rule maps_equal_refl [OF coverage_distinct [OF c] s [unfolded eq]])
    with r obtain a v3 where a: "assigns_unmoved ch' cov (L_Assigns l) v2 = (Inr a, v3)"
      and t: "(if a then splits_unmoved ch' cov (L_Splits l) else r_ret False) v3 = (Inr ok, v')"
      unfolding eq by (auto simp: r_bind_Inr)
    have "a" by (rule assigns_unmoved_ok [OF a]) (use ok in \<open>auto simp: emitted_ok_def assigned_def split: if_splits\<close>)
    with t have "splits_unmoved ch' cov (L_Splits l) v3 = (Inr ok, v')" by simp
    then show ok by (rule splits_unmoved_ok) (use ok in \<open>auto simp: emitted_ok_def split_ok_def\<close>)
  qed
  moreover obtain ok where "fst (ThrowsUnmovedWithCounter no_charge (Some l) ()) = Inr ok"
    using always_unmoved [of "Some l"] unfolding always_def by (metis fst_conv)
  ultimately show ?thesis unfolding ThrowsUnmoved_def
    by (metis (mono_tags, lifting) old.sum.simps(6) prod.collapse)
qed

section \<open>The loop\<close>

text \<open>The back edge carries the incremented value (2) to the phi (3), and stays without a block of its own, the only
  edge out of its instruction.\<close>

theorem destroy_carries_phis_witness:
  "MovesOn lowered_loop (E_ID back_edge) = [\<lparr>Dst = 3, Src = 2, Tmp = False\<rparr>] \<and>
   (\<exists>d. phi_copy_of loop_values (E_ID back_edge) loop_phi1 d \<and>
     (\<forall>st. read_var (SerialEval (MovesOn lowered_loop (E_ID back_edge)) st) (Dst d) = read_var st (Src d)))"
  using destroy_carries_phis [OF run_destroy, of loop_ir back_edge]
  by (simp add: solved_loop_ir lowered_loop_simps loop_phis_of)

theorem destroy_splits_critical_witness:
  "MovesOn lowered_loop (E_ID back_edge) \<noteq> [] \<and> SplitFor lowered_loop (E_ID back_edge) = None \<and>
   \<not> critical solved_loop loop_ir back_edge"
  using destroy_splits_critical [OF run_destroy, of loop_ir back_edge]
  by (simp add: solved_loop_ir lowered_loop_simps)

theorem destroy_throws_unmoved_witness:
  "ThrowsUnmoved (Some lowered_loop)"
  using destroy_throws_unmoved [OF run_destroy] by blast

end
