(* ===== verification/SsaPhis.thy ===== *)
theory SsaPhis
  imports SsaReads "HOL-Library.Product_Lexorder"
begin

text \<open>
  \<open>assignPhis\<close> of \<open>core/ssabuild/solver.go\<close>: after the worklist, a phi for every joined word of a
  reachable block, with the origins that its live edges carry. \<open>ch\<close> is \<open>charge\<close> on the counter.
\<close>

section \<open>The operands of a slot\<close>

text \<open>A frame that is missing in a map has no slots.\<close>

definition frame_at :: "edgeFrames \<Rightarrow> EdgeID \<Rightarrow> frame" where
  "frame_at ef i =
     (case EF_normal ef i of
        None \<Rightarrow> \<lparr>Locals = [], Stack = [], maxStack = 0, hasLimits = False, ThisUninitialized = False,
                 ThisClass = [], DirectSuperClass = []\<rparr>
      | Some fr \<Rightarrow> fr)"

definition slot_at :: "nat \<Rightarrow> nat \<Rightarrow> SlotKey" where
  "slot_at nloc i = \<lparr>S_Local = i < nloc, S_Index = int (if i < nloc then i else i - nloc)\<rparr>"

text \<open>Where the slot is among the origins of an edge.\<close>

definition operand_index :: "edgeFrames \<Rightarrow> SlotKey \<Rightarrow> EdgeID \<Rightarrow> int" where
  "operand_index ef sk i =
     (if S_Local sk then S_Index sk else int (length (Locals (frame_at ef i))) + S_Index sk)"

fun slot_operands ::
    "'w charger \<Rightarrow> edgeFrames \<Rightarrow> SlotKey \<Rightarrow> ir_edge list \<Rightarrow> PhiOperand list \<Rightarrow> ('w, PhiOperand list) run" where
  "slot_operands ch ef sk [] ops = r_ret ops"
| "slot_operands ch ef sk (e # es) ops =
     r_bind (ch 1) (\<lambda>_.
       case EF_orig ef (E_ID e) of
         None \<Rightarrow> slot_operands ch ef sk es ops
       | Some og \<Rightarrow>
           let idx = operand_index ef sk (E_ID e) in
           if 0 \<le> idx \<and> idx < int (length og)
           then slot_operands ch ef sk es (ops @ [\<lparr>PO_Edge = E_ID e, PO_Origin = og ! nat idx, PO_Val = 0\<rparr>])
           else r_fail ''invalid_input: missing reachable phi origin at %d'')"

section \<open>The phis of a block\<close>

definition sort_operands :: "PhiOperand list \<Rightarrow> PhiOperand list" where
  "sort_operands = sort_key (\<lambda>op. EdgeID_String (PO_Edge op))"

definition slot_type :: "BlockFrame \<Rightarrow> nat \<Rightarrow> ftype" where
  "slot_type b i =
     (let nloc = length (Locals (BF_In b)) in
      if i < nloc then Locals (BF_In b) ! i else Stack (BF_In b) ! (i - nloc))"

text \<open>A dead slot and the second half of a pair have no phi; nor has a slot that is not joined.\<close>

definition no_value :: "ftype \<Rightarrow> bool" where
  "no_value t \<longleftrightarrow> Kind t = TopK \<or> IsTail (Kind t)"

fun assign_slots ::
    "'w charger \<Rightarrow> edgeFrames \<Rightarrow> ir_edge list \<Rightarrow> BlockFrame \<Rightarrow> nat list \<Rightarrow> Phi list \<Rightarrow> ('w, Phi list) run" where
  "assign_slots ch ef preds b [] phis = r_ret phis"
| "assign_slots ch ef preds b (i # is) phis =
     (if no_value (slot_type b i) then assign_slots ch ef preds b is phis
      else
        let sk = slot_at (length (Locals (BF_In b))) i in
        r_bind (slot_operands ch ef sk preds []) (\<lambda>ops.
          assign_slots ch ef preds b is
            (if InOrig b ! i \<noteq> phi_origin (First b) (BF_ID b) i then phis
             else phis @ [\<lparr>P_ID = word_of_nat (length phis + 1), P_Block = BF_ID b, P_Slot = sk,
                           P_Type = DropValue (slot_type b i), Operands = sort_operands ops\<rparr>])))"

fun assign_blocks ::
    "'w charger \<Rightarrow> ssa_fun \<Rightarrow> edgeFrames \<Rightarrow> BlockFrame list \<Rightarrow> Phi list \<Rightarrow> ('w, Phi list) run" where
  "assign_blocks ch fn ef [] phis = r_ret phis"
| "assign_blocks ch fn ef (b # bs) phis =
     r_bind (ch (word_of_nat (1 + length (InOrig b)))) (\<lambda>_.
       let preds = Incoming (Some fn) (First b) in
       if \<not> Reachable b \<or> length preds < 2 then assign_blocks ch fn ef bs phis
       else
         r_bind (assign_slots ch ef preds b [0..<length (Locals (BF_In b)) + length (Stack (BF_In b))] phis)
           (assign_blocks ch fn ef bs))"

section \<open>The numbers of the phis\<close>

text \<open>By block, locals before the stack, by index.\<close>

definition phi_order :: "Phi \<Rightarrow> BlockID \<times> bool \<times> int" where
  "phi_order p = (P_Block p, \<not> S_Local (P_Slot p), S_Index (P_Slot p))"

definition number_phis :: "Phi list \<Rightarrow> Phi list" where
  "number_phis ps = map (\<lambda>(i, p). p\<lparr>P_ID := word_of_nat (i + 1)\<rparr>) (zip [0..<length ps] ps)"

definition assignPhis :: "'w charger \<Rightarrow> ssa_fun \<Rightarrow> edgeFrames \<Rightarrow> ('w, ssa_fun) run" where
  "assignPhis ch fn ef =
     r_bind (assign_blocks ch fn ef (F_Blocks fn) [])
       (\<lambda>phis. r_ret (fn\<lparr>Phis := number_phis (sort_key phi_order phis)\<rparr>))"

end
