(* ===== verification/PhiCopies.thy ===== *)
theory PhiCopies
  imports SsaReads
begin

text \<open>
  \<open>core/ssabuild/phi_copies.go\<close>: phis that only pass one value around are replaced by that value. The
  strongly connected components of the phi equations are found by two traversals with explicit stacks, whose
  ends are the heads of the lists here. \<open>ch\<close> is \<open>charge\<close> on the counter; the units that a loop charges
  one by one are charged before its other work, and fail where it fails.
\<close>

section \<open>The equations\<close>

text \<open>The blocks by identity, the last one wins; the identity of every phi and its place in the list.\<close>

fun index_blocks :: "'w charger \<Rightarrow> BlockFrame list \<Rightarrow> (BlockID \<rightharpoonup> BlockFrame) \<Rightarrow> ('w, BlockID \<rightharpoonup> BlockFrame) run" where
  "index_blocks ch [] m = r_ret m"
| "index_blocks ch (b # bs) m = r_bind (ch 1) (\<lambda>_. index_blocks ch bs (m(BF_ID b \<mapsto> b)))"

definition phi_identity :: "BlockFrame \<Rightarrow> Phi \<Rightarrow> Origin" where
  "phi_identity b p =
     \<lparr>O_Kind = OriginPhi, O_PC = First b,
      O_Slot = (if S_Local (P_Slot p) then S_Index (P_Slot p)
                else S_Index (P_Slot p) + int (length (Locals (BF_In b)))),
      O_Aux = uint (P_Block p)\<rparr>"

type_synonym phi_index = "Origin \<rightharpoonup> nat"

fun index_phis ::
    "'w charger \<Rightarrow> (BlockID \<rightharpoonup> BlockFrame) \<Rightarrow> Phi list \<Rightarrow> Origin list \<Rightarrow> phi_index \<Rightarrow> ('w, Origin list \<times> phi_index) run" where
  "index_phis ch blocks [] os ix = r_ret (os, ix)"
| "index_phis ch blocks (p # ps) os ix =
     r_bind (ch 1) (\<lambda>_.
       case blocks (P_Block p) of
         None \<Rightarrow> r_fail ''invalid_input: missing phi block''
       | Some b \<Rightarrow>
           let o' = phi_identity b p in
           if ix o' \<noteq> None then r_fail ''invalid_input: duplicate phi equation''
           else index_phis ch blocks ps (os @ [o']) (ix(o' \<mapsto> length os)))"

fun phi_inputs :: "'w charger \<Rightarrow> phi_index \<Rightarrow> PhiOperand list \<Rightarrow> nat list \<Rightarrow> ('w, nat list) run" where
  "phi_inputs ch ix [] js = r_ret js"
| "phi_inputs ch ix (op # ops) js =
     r_bind (ch 1) (\<lambda>_.
       if O_Kind (PO_Origin op) \<noteq> OriginPhi then phi_inputs ch ix ops js
       else
         (case ix (PO_Origin op) of
            None \<Rightarrow> r_fail ''invalid_input: undefined phi input %s''
          | Some j \<Rightarrow> phi_inputs ch ix ops (js @ [j])))"

text \<open>For every phi the phis it reads, and, turned around, the phis that read it.\<close>

type_synonym phi_graph = "nat list list"

fun forward_edges :: "'w charger \<Rightarrow> phi_index \<Rightarrow> Phi list \<Rightarrow> phi_graph \<Rightarrow> ('w, phi_graph) run" where
  "forward_edges ch ix [] g = r_ret g"
| "forward_edges ch ix (p # ps) g =
     r_bind (phi_inputs ch ix (Operands p) []) (\<lambda>js. forward_edges ch ix ps (g @ [js]))"

definition reverse_edges :: "phi_graph \<Rightarrow> phi_graph" where
  "reverse_edges g =
     map (\<lambda>j. concat (map (\<lambda>i. map (\<lambda>_. i) (filter (\<lambda>k. k = j) (g ! i))) [0..<length g])) [0..<length g]"

definition succs :: "phi_graph \<Rightarrow> nat \<Rightarrow> nat list" where
  "succs g n = (if n < length g then g ! n else [])"

definition nodes :: "phi_graph \<Rightarrow> nat set" where
  "nodes g = \<Union> (set (map set g))"

lemma finite_nodes [simp]: "finite (nodes g)"
  by (simp add: nodes_def)

lemma succs_nodes: "x \<in> set (succs g n) \<Longrightarrow> x \<in> nodes g"
  by (auto simp: succs_def nodes_def split: if_splits)

section \<open>The first traversal: the order in which phis are left\<close>

text \<open>A visit is a phi and the number of its inputs that have been followed.\<close>

type_synonym visit = "nat \<times> nat"

lemma unseen_less:
  assumes "\<not> length (succs g n) \<le> k" and "succs g n ! k \<notin> seen"
  shows "card (nodes g - insert (succs g n ! k) seen) < card (nodes g - seen)"
proof -
  from assms(1) have "succs g n ! k \<in> nodes g" by (intro succs_nodes [of _ g n]) simp
  with assms(2) have "nodes g - insert (succs g n ! k) seen \<subset> nodes g - seen" by auto
  then show ?thesis by (rule psubset_card_mono [rotated]) simp
qed

function visit_all ::
    "'w charger \<Rightarrow> phi_graph \<Rightarrow> visit list \<Rightarrow> nat set \<Rightarrow> nat list \<Rightarrow> ('w, nat set \<times> nat list) run" where
  "visit_all ch g [] seen ord = r_ret (seen, ord)"
| "visit_all ch g ((n, k) # st) seen ord =
     r_bind (ch 1) (\<lambda>_.
       if k \<ge> length (succs g n) then visit_all ch g st seen (ord @ [n])
       else
         let m = succs g n ! k in
         if m \<in> seen then visit_all ch g ((n, k + 1) # st) seen ord
         else visit_all ch g ((m, 0) # (n, k + 1) # st) (insert m seen) ord)"
  by pat_completeness auto

termination
  by (relation "measures [\<lambda>(ch, g, st, seen, ord). card (nodes g - seen),
        \<lambda>(ch, g, st, seen, ord). \<Sum>(n, k)\<leftarrow>st. Suc (length (succs g n) - k)]")
    (auto simp: unseen_less)

declare visit_all.simps(2) [simp del]

fun visit_starts :: "'w charger \<Rightarrow> phi_graph \<Rightarrow> nat list \<Rightarrow> nat set \<Rightarrow> nat list \<Rightarrow> ('w, nat list) run" where
  "visit_starts ch g [] seen ord = r_ret ord"
| "visit_starts ch g (s # ss) seen ord =
     (if s \<in> seen then visit_starts ch g ss seen ord
      else r_bind (visit_all ch g [(s, 0)] (insert s seen) ord) (\<lambda>(seen, ord). visit_starts ch g ss seen ord))"

section \<open>The second traversal: the components\<close>

type_synonym components = "nat \<rightharpoonup> nat"

fun flood_readers :: "nat \<Rightarrow> nat list \<Rightarrow> nat list \<Rightarrow> components \<Rightarrow> nat list \<times> components" where
  "flood_readers c [] pend cm = (pend, cm)"
| "flood_readers c (m # ms) pend cm =
     (if cm m = None then flood_readers c ms (m # pend) (cm(m \<mapsto> c)) else flood_readers c ms pend cm)"

lemma flood_readers_size:
  "set ms \<subseteq> nodes g \<Longrightarrow>
     card (nodes g - dom (snd (flood_readers c ms pend cm))) + length (fst (flood_readers c ms pend cm)) =
     card (nodes g - dom cm) + length pend"
proof (induction ms arbitrary: pend cm)
  case (Cons m ms)
  have "card (nodes g - dom (cm(m \<mapsto> c))) + 1 = card (nodes g - dom cm)" if "cm m = None"
  proof -
    from that Cons.prems have "m \<in> nodes g - dom cm" by auto
    then have "card (nodes g - dom cm - {m}) + 1 = card (nodes g - dom cm)" 
      by (metis Suc_eq_plus1 card_Suc_Diff1 finite_Diff finite_nodes)
    moreover have "nodes g - dom cm - {m} = nodes g - dom (cm(m \<mapsto> c))" by auto
    ultimately show ?thesis by simp
  qed
  with Cons show ?case by (simp del: dom_fun_upd)
qed simp

function flood ::
    "'w charger \<Rightarrow> phi_graph \<Rightarrow> nat \<Rightarrow> nat list \<Rightarrow> nat list \<Rightarrow> components \<Rightarrow> ('w, nat list \<times> components) run" where
  "flood ch r c [] ms cm = r_ret (ms, cm)"
| "flood ch r c (n # pend) ms cm =
     r_bind (ch 1) (\<lambda>_. r_bind (charge_each ch (succs r n)) (\<lambda>_.
       flood ch r c (fst (flood_readers c (succs r n) pend cm)) (ms @ [n])
         (snd (flood_readers c (succs r n) pend cm))))"
  by pat_completeness auto

termination
  by (relation "measure (\<lambda>(ch, r, c, pend, ms, cm). card (nodes r - dom cm) + length pend)")
    (auto simp: flood_readers_size [OF subsetI [OF succs_nodes]])

declare flood.simps(2) [simp del]

text \<open>The components in the order they are found; the places run back over the order of the first traversal.\<close>

fun group_phis ::
    "'w charger \<Rightarrow> phi_graph \<Rightarrow> nat list \<Rightarrow> nat list list \<Rightarrow> components \<Rightarrow> ('w, nat list list \<times> components) run" where
  "group_phis ch r [] groups cm = r_ret (groups, cm)"
| "group_phis ch r (s # ss) groups cm =
     (if cm s \<noteq> None then group_phis ch r ss groups cm
      else
        r_bind (flood ch r (length groups) [s] [] (cm(s \<mapsto> length groups)))
          (\<lambda>(ms, cm). group_phis ch r ss (groups @ [ms]) cm))"

section \<open>Values that pass through a component\<close>

type_synonym aliases = "Origin \<rightharpoonup> Origin"

definition resolve :: "aliases \<Rightarrow> Origin \<Rightarrow> Origin" where
  "resolve al o' = (case al o' of None \<Rightarrow> o' | Some r \<Rightarrow> r)"

text \<open>The value that enters component \<open>c\<close> from outside, and whether a second one does.\<close>

definition enter :: "phi_index \<Rightarrow> components \<Rightarrow> nat \<Rightarrow> aliases \<Rightarrow> Origin \<Rightarrow> Origin option \<times> bool \<Rightarrow> Origin option \<times> bool" where
  "enter ix cm c al o' s =
     (if (case ix o' of None \<Rightarrow> False | Some j \<Rightarrow> cm j = Some c) then s
      else
        (case fst s of
           None \<Rightarrow> (Some (resolve al o'), snd s)
         | Some x \<Rightarrow> if resolve al o' \<noteq> x then (Some x, True) else s))"

definition group_operands :: "Phi list \<Rightarrow> nat list \<Rightarrow> Origin list" where
  "group_operands ps ms = concat (map (\<lambda>n. map PO_Origin (Operands (ps ! n))) ms)"

fun alias_groups ::
    "'w charger \<Rightarrow> Phi list \<Rightarrow> Origin list \<Rightarrow> phi_index \<Rightarrow> components \<Rightarrow> (nat \<times> nat list) list \<Rightarrow> aliases \<Rightarrow> ('w, aliases) run" where
  "alias_groups ch ps os ix cm [] al = r_ret al"
| "alias_groups ch ps os ix cm ((c, ms) # gs) al =
     r_bind (charge_each ch (group_operands ps ms)) (\<lambda>_.
       case fold (enter ix cm c al) (group_operands ps ms) (None, False) of
         (None, _) \<Rightarrow> r_fail ''invalid_input: phi cycle has no incoming value''
       | (Some x, different) \<Rightarrow>
           alias_groups ch ps os ix cm gs
             (if different then al else al ++ map_of (map (\<lambda>n. (os ! n, x)) ms)))"

section \<open>Rewriting\<close>

definition rewrite :: "'w charger \<Rightarrow> aliases \<Rightarrow> Origin list \<Rightarrow> ('w, Origin list) run" where
  "rewrite ch al os = r_bind (charge_each ch os) (\<lambda>_. r_ret (map (resolve al) os))"

fun rewrite_blocks :: "'w charger \<Rightarrow> aliases \<Rightarrow> BlockFrame list \<Rightarrow> ('w, BlockFrame list) run" where
  "rewrite_blocks ch al [] = r_ret []"
| "rewrite_blocks ch al (b # bs) =
     r_bind (rewrite ch al (InOrig b)) (\<lambda>ino. r_bind (rewrite ch al (OutOrig b)) (\<lambda>outo.
       r_bind (rewrite_blocks ch al bs) (\<lambda>bs. r_ret (b\<lparr>InOrig := ino, OutOrig := outo\<rparr> # bs))))"

fun rewrite_instrs :: "'w charger \<Rightarrow> aliases \<Rightarrow> InstructionValues list \<Rightarrow> ('w, InstructionValues list) run" where
  "rewrite_instrs ch al [] = r_ret []"
| "rewrite_instrs ch al (x # xs) =
     r_bind (rewrite ch al (BeforeOrigins x)) (\<lambda>bo. r_bind (rewrite ch al (Uses x)) (\<lambda>us.
       r_bind (rewrite ch al (Results x)) (\<lambda>rs.
         r_bind (rewrite_instrs ch al xs) (\<lambda>xs.
           r_ret (x\<lparr>BeforeOrigins := bo, Uses := us, Results := rs\<rparr> # xs)))))"

text \<open>\<open>es\<close> are the edges in the order in which the map of edge states yields them.\<close>

fun rewrite_states ::
    "'w charger \<Rightarrow> aliases \<Rightarrow> EdgeID list \<Rightarrow> (EdgeID \<rightharpoonup> EdgeState) \<Rightarrow> ('w, EdgeID \<rightharpoonup> EdgeState) run" where
  "rewrite_states ch al [] m = r_ret m"
| "rewrite_states ch al (i # is) m =
     (case m i of
        None \<Rightarrow> rewrite_states ch al is m
      | Some st \<Rightarrow>
          r_bind (rewrite ch al (ES_Origins st)) (\<lambda>os. rewrite_states ch al is (m(i \<mapsto> st\<lparr>ES_Origins := os\<rparr>))))"

definition resolve_operand :: "aliases \<Rightarrow> PhiOperand \<Rightarrow> PhiOperand" where
  "resolve_operand al op = op\<lparr>PO_Origin := resolve al (PO_Origin op)\<rparr>"

text \<open>The phis that are left, numbered again.\<close>

fun retain_phis ::
    "'w charger \<Rightarrow> aliases \<Rightarrow> (Origin \<times> Phi) list \<Rightarrow> Phi list \<Rightarrow> ('w, Phi list) run" where
  "retain_phis ch al [] out = r_ret out"
| "retain_phis ch al ((o', p) # ps) out =
     (if al o' \<noteq> None then retain_phis ch al ps out
      else
        r_bind (charge_each ch (Operands p)) (\<lambda>_.
          retain_phis ch al ps
            (out @ [p\<lparr>P_ID := word_of_nat (length out + 1), Operands := map (resolve_operand al) (Operands p)\<rparr>])))"

definition phi_aliases :: "'w charger \<Rightarrow> ssa_fun \<Rightarrow> ('w, Origin list \<times> aliases) run" where
  "phi_aliases ch fn =
     r_bind (index_blocks ch (F_Blocks fn) Map.empty) (\<lambda>blocks.
       r_bind (index_phis ch blocks (Phis fn) [] Map.empty) (\<lambda>(os, ix).
         r_bind (forward_edges ch ix (Phis fn) []) (\<lambda>fwd.
           r_bind (visit_starts ch fwd [0..<length (Phis fn)] {} []) (\<lambda>ord.
             r_bind (group_phis ch (reverse_edges fwd) (rev ord) [] Map.empty) (\<lambda>(groups, cm).
               r_bind (alias_groups ch (Phis fn) os ix cm (rev (zip [0..<length groups] groups)) Map.empty)
                 (\<lambda>al. r_ret (os, al)))))))"

definition simplifyPhiCopies :: "'w charger \<Rightarrow> EdgeID list \<Rightarrow> ssa_fun \<Rightarrow> ('w, ssa_fun) run" where
  "simplifyPhiCopies ch es fn =
     (if Phis fn = [] then r_ret fn
      else
        r_bind (phi_aliases ch fn) (\<lambda>(os, al).
          r_bind (rewrite_blocks ch al (F_Blocks fn)) (\<lambda>bs.
            r_bind (rewrite_instrs ch al (Instructions fn)) (\<lambda>xs.
              r_bind (rewrite_states ch al es (EdgeStates fn)) (\<lambda>sts.
                r_bind (retain_phis ch al (zip os (Phis fn)) []) (\<lambda>ps.
                  r_ret (fn\<lparr>F_Blocks := bs, Instructions := xs, EdgeStates := sts, Phis := ps\<rparr>)))))))"

end
