(* ===== verification/SsaBuild.thy ===== *)
theory SsaBuild
  imports SsaPhis PhiCopies
begin

text \<open>
  \<open>core/ssabuild/values.go\<close>, the numbers of the values, and \<open>Build\<close> of \<open>solver.go\<close>: from a snapshot to a
  function in single assignment form, by the worklist, the phis, their simplification and the values.
\<close>

section \<open>The numbers of the values\<close>

type_synonym value_ids = "Origin \<rightharpoonup> ValueID"

fun phi_values :: "BlockFrame list \<Rightarrow> Phi list \<Rightarrow> value_ids \<Rightarrow> ssa_error + value_ids" where
  "phi_values bs [] m = Inr m"
| "phi_values bs (p # ps) m =
     (case find (\<lambda>b. BF_ID b = P_Block p) bs of
        None \<Rightarrow> Inl ''invalid_input: missing phi block''
      | Some b \<Rightarrow> phi_values bs ps (m(phi_identity b p \<mapsto> P_ID p)))"

text \<open>Every origin that occurs, once; \<open>es\<close> are the edges in the order in which the map of edge states yields them.\<close>

definition state_origins :: "ssa_fun \<Rightarrow> EdgeID \<Rightarrow> Origin list" where
  "state_origins fn i = (case EdgeStates fn i of None \<Rightarrow> [] | Some st \<Rightarrow> ES_Origins st)"

definition used_origins :: "EdgeID list \<Rightarrow> ssa_fun \<Rightarrow> Origin list" where
  "used_origins es fn =
     remdups (filter (\<lambda>o'. O_Kind o' \<noteq> OriginTop)
       (concat (map (\<lambda>b. InOrig b @ OutOrig b) (F_Blocks fn)) @
        concat (map (\<lambda>r. Uses r @ Results r @ BeforeOrigins r) (Instructions fn)) @
        concat (map (state_origins fn) es) @
        concat (map (\<lambda>p. map PO_Origin (Operands p)) (Phis fn))))"

fun number_origins :: "Origin list \<Rightarrow> value_ids \<Rightarrow> ValueID \<Rightarrow> ssa_error + value_ids" where
  "number_origins [] m n = Inr m"
| "number_origins (o' # os) m n =
     (if m o' \<noteq> None then number_origins os m n
      else if O_Kind o' = OriginPhi then Inl ''invalid_input: undefined phi origin %s''
      else number_origins os (m(o' \<mapsto> n)) (n + 1))"

text \<open>What is not in the map reads as zero.\<close>

definition value_id :: "value_ids \<Rightarrow> Origin \<Rightarrow> ValueID" where
  "value_id m o' = (case m o' of None \<Rightarrow> 0 | Some i \<Rightarrow> i)"

definition bind_phi :: "value_ids \<Rightarrow> Phi \<Rightarrow> Phi" where
  "bind_phi m p = p\<lparr>Operands := map (\<lambda>op. op\<lparr>PO_Val := value_id m (PO_Origin op)\<rparr>) (Operands p)\<rparr>"

definition bind_instr :: "value_ids \<Rightarrow> InstructionValues \<Rightarrow> InstructionValues" where
  "bind_instr m r =
     r\<lparr>UseIDs := UseIDs r @ map (value_id m) (Uses r), ResultIDs := ResultIDs r @ map (value_id m) (Results r)\<rparr>"

text \<open>The parameters are the computational locals of the entry edge.\<close>

definition entry_params :: "value_ids \<Rightarrow> ssa_fun \<Rightarrow> ValueID list" where
  "entry_params m fn =
     (case entryEdge fn of
        None \<Rightarrow> []
      | Some e \<Rightarrow>
          (case EdgeStates fn (E_ID e) of
             None \<Rightarrow> []
           | Some st \<Rightarrow>
               map (\<lambda>(i, t). value_id m (ES_Origins st ! i))
                 (filter (\<lambda>(i, t). Computational t)
                   (zip [0..<length (Locals (ES_Frame st))] (Locals (ES_Frame st))))))"

fun charge_sizes :: "'w charger \<Rightarrow> nat list \<Rightarrow> ('w, unit) run" where
  "charge_sizes ch [] = r_ret ()"
| "charge_sizes ch (n # ns) = r_bind (ch (word_of_nat n)) (\<lambda>_. charge_sizes ch ns)"

definition value_charges :: "'w charger \<Rightarrow> EdgeID list \<Rightarrow> ssa_fun \<Rightarrow> ('w, unit) run" where
  "value_charges ch es fn =
     r_bind (charge_sizes ch (map (\<lambda>b. 1 + length (InOrig b) + length (OutOrig b)) (F_Blocks fn))) (\<lambda>_.
       r_bind (charge_sizes ch
           (map (\<lambda>r. 1 + length (Uses r) + length (Results r) + length (BeforeOrigins r)) (Instructions fn))) (\<lambda>_.
         charge_sizes ch (map (\<lambda>i. 1 + length (state_origins fn i)) es)))"

definition number_values :: "EdgeID list \<Rightarrow> ssa_fun \<Rightarrow> ssa_error + value_ids" where
  "number_values es fn =
     res_bind (phi_values (F_Blocks fn) (Phis fn) Map.empty) (\<lambda>m.
       number_origins (sort_key OriginKey (used_origins es fn)) m (word_of_nat (length (Phis fn) + 1)))"

definition bindValues :: "'w charger \<Rightarrow> EdgeID list \<Rightarrow> ssa_fun \<Rightarrow> ('w, ssa_fun) run" where
  "bindValues ch es fn =
     r_bind (value_charges ch es fn) (\<lambda>_.
       r_bind (r_lift (number_values es fn)) (\<lambda>m.
         r_ret (fn\<lparr>Values := sort_key VD_ID (Values fn @
             map (\<lambda>o'. \<lparr>VD_ID = value_id m o', VD_Origin = o'\<rparr>) (sort_key OriginKey (used_origins es fn))),
           Phis := map (bind_phi m) (Phis fn), Instructions := map (bind_instr m) (Instructions fn),
           Params := Params fn @ entry_params m fn\<rparr>)))"

section \<open>Build\<close>

text \<open>The edges into a block, by the address where the block begins.\<close>

definition first_pc :: "MethodIR \<Rightarrow> BlockID \<Rightarrow> u16" where
  "first_pc ir bid = (case block_index ir bid of None \<Rightarrow> 0 | Some i \<Rightarrow> FirstPC (M_Blocks ir ! i))"

definition incoming_index :: "MethodIR \<Rightarrow> u16 \<Rightarrow> ir_edge list" where
  "incoming_index ir pc =
     (case find (\<lambda>b. first_pc ir (B_ID b) = pc) (M_Blocks ir) of
        None \<Rightarrow> []
      | Some b \<Rightarrow> block_incoming ir (B_ID b))"

definition edge_states_of :: "edgeFrames \<Rightarrow> EdgeID \<rightharpoonup> EdgeState" where
  "edge_states_of ef i =
     (case EF_normal ef i of None \<Rightarrow> None | Some fr \<Rightarrow> Some \<lparr>ES_Frame = fr, ES_Origins = origins_at ef i\<rparr>)"

text \<open>The function that the worklist has solved, before the phis.\<close>

definition solved_fun :: "MethodIR \<Rightarrow> worklist \<Rightarrow> ssa_fun" where
  "solved_fun ir w =
     \<lparr>Values = [], EdgeStates = edge_states_of (W_ef w),
      Instructions = concat (map (\<lambda>ins. case W_records w (I_PC ins) of None \<Rightarrow> [] | Some r \<Rightarrow> [r]) (M_Instrs ir)),
      entryEdge = Some (entry_edge ir), incoming = Some (incoming_index ir), F_IR = Some ir,
      F_Blocks = W_blocks w, Phis = [], Params = [], Work = W_work w\<rparr>"

text \<open>\<open>es\<close> gives the edges of a map of edge states in the order in which the map yields them.\<close>

definition finish ::
    "((EdgeID \<rightharpoonup> EdgeState) \<Rightarrow> EdgeID list) \<Rightarrow> edgeFrames \<Rightarrow> ssa_fun \<Rightarrow> (LimitCounter, ssa_fun) run" where
  "finish es ef fn =
     r_bind (assignPhis c_charge fn ef) (\<lambda>fn.
       r_bind (simplifyPhiCopies c_charge (es (EdgeStates fn)) fn) (\<lambda>fn.
         bindValues c_charge (es (EdgeStates fn)) fn))"

definition empty_fun :: "MethodIR \<Rightarrow> ssa_fun" where
  "empty_fun ir =
     \<lparr>Values = [], EdgeStates = Map.empty, Instructions = [], entryEdge = None, incoming = None, F_IR = Some ir,
      F_Blocks = [], Phis = [], Params = [], Work = 0\<rparr>"

definition build_with ::
    "float_ops \<Rightarrow> order \<Rightarrow> (u64 \<Rightarrow> nat \<Rightarrow> nat) \<Rightarrow> ((EdgeID \<rightharpoonup> EdgeState) \<Rightarrow> EdgeID list) \<Rightarrow> MethodIR \<Rightarrow>
     (LimitCounter, ssa_fun) run" where
  "build_with fl ord pick es ir =
     (if M_Blocks ir = [] then r_ret (empty_fun ir)
      else r_bind (solve fl ir ord pick) (\<lambda>w. finish es (W_ef w) (solved_fun ir w)))"

text \<open>The options: the budget of updates, used where there is no counter, and the counter.\<close>

definition Build ::
    "float_ops \<Rightarrow> order \<Rightarrow> (u64 \<Rightarrow> nat \<Rightarrow> nat) \<Rightarrow> ((EdgeID \<rightharpoonup> EdgeState) \<Rightarrow> EdgeID list) \<Rightarrow> MethodIR option \<Rightarrow> int \<Rightarrow>
     LimitCounter option \<Rightarrow> (ssa_error + ssa_fun) \<times> LimitCounter option" where
  "Build fl ord pick es irp maxUpdates counter =
     (case irp of
        None \<Rightarrow> (Inl ''invalid_input: nil MethodIR'', counter)
      | Some ir \<Rightarrow>
          let maxUp = (if maxUpdates = 0 then 1000000 else maxUpdates) in
          if maxUp < 0 then (Inl ''invalid_input: negative update budget'', counter)
          else
            (case counter of
               None \<Rightarrow> (fst (build_with fl ord pick es ir \<lparr>CMax = word_of_int maxUp, CUsed = 0\<rparr>), None)
             | Some c \<Rightarrow> (case build_with fl ord pick es ir c of (r, c) \<Rightarrow> (r, Some c))))"

end
