(* ===== verification/PhiGroups.thy ===== *)
theory PhiGroups
  imports PhiCopies
begin

text \<open>
  The two traversals of \<open>phi_copies.go\<close> find the strongly connected components of the phi equations, every
  component before those that it reads.
\<close>

section \<open>The graph\<close>

definition edges :: "phi_graph \<Rightarrow> (nat \<times> nat) set" where
  "edges g = {(i, j). j \<in> set (succs g i)}"

definition closed_graph :: "phi_graph \<Rightarrow> bool" where
  "closed_graph g \<longleftrightarrow> (\<forall>js\<in>set g. \<forall>j\<in>set js. j < length g)"

lemma edges_iff: "(i, j) \<in> edges g \<longleftrightarrow> i < length g \<and> j \<in> set (g ! i)"
  by (simp add: edges_def succs_def)

lemma closed_edge: "closed_graph g \<Longrightarrow> (i, j) \<in> edges g \<Longrightarrow> i < length g \<and> j < length g"
  by (auto simp: edges_iff closed_graph_def)

lemma length_reverse [simp]: "length (reverse_edges g) = length g"
  by (simp add: reverse_edges_def)

lemma reverse_edge:
  "closed_graph g \<Longrightarrow> i \<in> set (succs (reverse_edges g) j) \<longleftrightarrow> (i, j) \<in> edges g"
  using closed_edge [of g i j] by (auto simp: succs_def reverse_edges_def edges_iff intro!: bexI [of _ i])

section \<open>The order of the first traversal\<close>

text \<open>When a phi is left, whatever the phis left before it read has been left too, or reads it in turn.\<close>

definition left_after :: "phi_graph \<Rightarrow> nat list \<Rightarrow> bool" where
  "left_after g ord \<longleftrightarrow>
     (\<forall>A u B. ord = A @ u # B \<longrightarrow>
       (\<forall>a b. a \<in> set (A @ [u]) \<longrightarrow> (a, b) \<in> edges g \<longrightarrow> b \<in> set (A @ [u]) \<or> (b, u) \<in> (edges g)\<^sup>*))"

lemma left_after_snoc:
  assumes "left_after g ord"
    and "\<And>a b. a \<in> set (ord @ [u]) \<Longrightarrow> (a, b) \<in> edges g \<Longrightarrow> b \<in> set (ord @ [u]) \<or> (b, u) \<in> (edges g)\<^sup>*"
  shows "left_after g (ord @ [u])"
  unfolding left_after_def
proof (intro allI impI)
  fix A y B a b
  assume s: "ord @ [u] = A @ y # B" and ab: "a \<in> set (A @ [y])" "(a, b) \<in> edges g"
  show "b \<in> set (A @ [y]) \<or> (b, y) \<in> (edges g)\<^sup>*"
  proof (cases B rule: rev_cases)
    case Nil
    with s ab assms(2) show ?thesis by auto
  next
    case (snoc B' x)
    with s have "ord = A @ y # B'" by simp
    with assms(1) ab show ?thesis unfolding left_after_def by blast
  qed
qed

text \<open>The open phis form a path that ends at the top of the stack.\<close>

fun open_path :: "phi_graph \<Rightarrow> visit list \<Rightarrow> bool" where
  "open_path g ((n, k) # (m, l) # st) \<longleftrightarrow> (m, n) \<in> edges g \<and> open_path g ((m, l) # st)"
| "open_path g _ \<longleftrightarrow> True"

lemma open_path_reach: "open_path g ((n, k) # st) \<Longrightarrow> m \<in> fst ` set st \<Longrightarrow> (m, n) \<in> (edges g)\<^sup>*"
proof (induction st arbitrary: n k)
  case (Cons x st)
  obtain m' l where v: "x = (m', l)" by (cases x)
  with Cons.prems have e: "(m', n) \<in> edges g" "open_path g ((m', l) # st)" by simp_all
  show ?case
  proof (cases "m = m'")
    case False
    with Cons.prems(2) v have "m \<in> fst ` set st" by auto
    from Cons.IH [OF e(2) this] e(1) show ?thesis by (rule rtrancl_into_rtrancl)
  qed (use e in auto)
qed simp

lemma open_path_tl: "open_path g (x # st) \<Longrightarrow> open_path g st"
  by (cases st; cases x) auto

lemma open_path_bump: "open_path g ((n, k) # st) \<Longrightarrow> open_path g ((n, k') # st)"
  by (cases st) auto

definition visiting :: "phi_graph \<Rightarrow> visit list \<Rightarrow> nat set \<Rightarrow> nat list \<Rightarrow> bool" where
  "visiting g st seen ord \<longleftrightarrow>
     seen = set ord \<union> fst ` set st \<and> (\<forall>n\<in>set ord. set (succs g n) \<subseteq> seen) \<and>
     (\<forall>(n, k)\<in>set st. set (take k (succs g n)) \<subseteq> seen) \<and> open_path g st \<and> left_after g ord \<and>
     distinct (ord @ map fst st) \<and> seen \<subseteq> {..<length g} \<union> nodes g"

lemma visiting_pop:
  assumes "visiting g ((n, k) # st) seen ord" and "k \<ge> length (succs g n)"
  shows "visiting g st seen (ord @ [n])"
proof -
  from assms have seen: "seen = set (ord @ [n]) \<union> fst ` set st" and succ: "\<forall>a\<in>set (ord @ [n]). set (succs g a) \<subseteq> seen"
    and p: "open_path g ((n, k) # st)" and l: "left_after g ord"
    by (auto simp: visiting_def)
  have "left_after g (ord @ [n])"
  proof (rule left_after_snoc [OF l])
    fix a b assume "a \<in> set (ord @ [n])" "(a, b) \<in> edges g"
    with succ seen have "b \<in> set (ord @ [n]) \<union> fst ` set st" by (auto simp: edges_def)
    then show "b \<in> set (ord @ [n]) \<or> (b, n) \<in> (edges g)\<^sup>*" using open_path_reach [OF p] by auto
  qed
  moreover from assms have "distinct ((ord @ [n]) @ map fst st)" by (auto simp: visiting_def)
  ultimately show ?thesis using seen succ assms open_path_tl [OF p] by (simp add: visiting_def)
qed

lemma take_next: "\<not> k \<ge> length xs \<Longrightarrow> set (take (k + 1) xs) = insert (xs ! k) (set (take k xs))"
  by (simp add: take_Suc_conv_app_nth)

lemma visiting_seen:
  assumes v: "visiting g ((n, k) # st) seen ord" and k: "\<not> k \<ge> length (succs g n)" and s: "succs g n ! k \<in> seen"
  shows "visiting g ((n, k + 1) # st) seen ord"
proof -
  have "set (take (k + 1) (succs g n)) \<subseteq> seen" unfolding take_next [OF k] using v s by (auto simp: visiting_def)
  moreover from v have "open_path g ((n, k + 1) # st)" using open_path_bump [of g n k st "k + 1"] by (simp add: visiting_def)
  moreover from v have "seen = set ord \<union> fst ` set ((n, k + 1) # st)" by (simp add: visiting_def)
  ultimately show ?thesis using v by (auto simp: visiting_def)
qed

lemma visiting_push:
  assumes v: "visiting g ((n, k) # st) seen ord" and k: "\<not> k \<ge> length (succs g n)" and new: "succs g n ! k \<notin> seen"
  shows "visiting g ((succs g n ! k, 0) # (n, k + 1) # st) (insert (succs g n ! k) seen) ord"
proof -
  let ?m = "succs g n ! k"
  from v have seen: "seen = insert n (set ord \<union> fst ` set st)" and o1: "\<forall>a\<in>set ord. set (succs g a) \<subseteq> seen"
    and o2: "\<forall>(a, l)\<in>set st. set (take l (succs g a)) \<subseteq> seen" and t: "set (take k (succs g n)) \<subseteq> seen"
    and p: "open_path g ((n, k) # st)" and l: "left_after g ord" and d: "distinct (ord @ map fst ((n, k) # st))"
    and sub: "seen \<subseteq> {..<length g} \<union> nodes g"
    by (auto simp: visiting_def)
  have "distinct (ord @ map fst ((?m, 0) # (n, k + 1) # st))" using d new seen by auto
  moreover have "set (take (k + 1) (succs g n)) \<subseteq> insert ?m seen" unfolding take_next [OF k] using t by blast
  moreover have "open_path g ((?m, 0) # (n, k + 1) # st)" using open_path_bump [OF p] k by (simp add: edges_def)
  moreover have "\<forall>a\<in>set ord. set (succs g a) \<subseteq> insert ?m seen" using o1 by blast
  moreover have "\<forall>(a, l)\<in>set st. set (take l (succs g a)) \<subseteq> insert ?m seen" using o2 by fast
  moreover have "insert ?m seen = set ord \<union> fst ` set ((?m, 0) # (n, k + 1) # st)" using seen by simp
  moreover have "insert ?m seen \<subseteq> {..<length g} \<union> nodes g" using sub k succs_nodes [of ?m g n] by simp
  ultimately show ?thesis using l by (simp add: visiting_def)
qed

lemma visit_all_visits:
  "visit_all ch g st seen ord w = (Inr (seen', ord'), w') \<Longrightarrow> visiting g st seen ord \<Longrightarrow>
     visiting g [] seen' ord' \<and> seen \<subseteq> seen'"
proof (induction ch g st seen ord arbitrary: w rule: visit_all.induct)
  case (2 ch g n k st seen ord)
  from "2.prems"(1) [unfolded visit_all.simps(2) [of ch g n k st seen ord] r_bind_Inr Let_def] obtain w1 where
    r: "(if k \<ge> length (succs g n) then visit_all ch g st seen (ord @ [n])
         else if succs g n ! k \<in> seen then visit_all ch g ((n, k + 1) # st) seen ord
         else visit_all ch g ((succs g n ! k, 0) # (n, k + 1) # st) (insert (succs g n ! k) seen) ord) w1
        = (Inr (seen', ord'), w')"
    by blast
  consider "k \<ge> length (succs g n)" | "\<not> k \<ge> length (succs g n)" "succs g n ! k \<in> seen"
    | "\<not> k \<ge> length (succs g n)" "succs g n ! k \<notin> seen" by blast
  then show ?case
  proof cases
    case 1
    with r have "visit_all ch g st seen (ord @ [n]) w1 = (Inr (seen', ord'), w')" by simp
    from "2.IH"(1) [OF 1 this visiting_pop [OF "2.prems"(2) 1]] show ?thesis .
  next
    case 2
    with r have "visit_all ch g ((n, k + 1) # st) seen ord w1 = (Inr (seen', ord'), w')" by simp
    from "2.IH"(2) [OF 2(1) refl 2(2) this visiting_seen [OF "2.prems"(2) 2]] show ?thesis .
  next
    case 3
    with r have "visit_all ch g ((succs g n ! k, 0) # (n, k + 1) # st) (insert (succs g n ! k) seen) ord w1
        = (Inr (seen', ord'), w')" by simp
    from "2.IH"(3) [OF 3(1) refl 3(2) this visiting_push [OF "2.prems"(2) 3]] show ?thesis by blast
  qed
qed simp

lemma visit_starts_visits:
  "visit_starts ch g ss seen ord w = (Inr ord', w') \<Longrightarrow> visiting g [] seen ord \<Longrightarrow>
     set ss \<subseteq> {..<length g} \<Longrightarrow> (\<exists>seen'. visiting g [] seen' ord' \<and> seen \<union> set ss \<subseteq> seen')"
proof (induction ch g ss seen ord arbitrary: w rule: visit_starts.induct)
  case (2 ch g s ss seen ord)
  show ?case
  proof (cases "s \<in> seen")
    case True
    with 2 show ?thesis by (auto simp: insert_absorb)
  next
    case False
    with "2.prems"(1) obtain seen1 ord1 w1 where
      v: "visit_all ch g [(s, 0)] (insert s seen) ord w = (Inr (seen1, ord1), w1)"
      and r: "visit_starts ch g ss seen1 ord1 w1 = (Inr ord', w')"
      by (auto simp: r_bind_Inr)
    from "2.prems"(2,3) False have "visiting g [(s, 0)] (insert s seen) ord" by (auto simp: visiting_def)
    from visit_all_visits [OF v this] have v1: "visiting g [] seen1 ord1" "insert s seen \<subseteq> seen1" by auto
    from "2.IH"(2) [OF False, of seen1 ord1 w1] r v1 "2.prems"(3) show ?thesis by (auto simp: subset_iff)
  qed
qed auto

lemma first_traversal:
  assumes "visit_starts ch g ss {} [] w = (Inr ord, w')" and "set ss \<subseteq> {..<length g}"
  shows "left_after g ord" and "set ss \<subseteq> set ord" and "distinct ord" and "set ord \<subseteq> {..<length g} \<union> nodes g"
proof -
  have "visiting g [] {} []" by (simp add: visiting_def left_after_def)
  from visit_starts_visits [OF assms(1) this assms(2)]
  show "left_after g ord" and "set ss \<subseteq> set ord" and "distinct ord" and "set ord \<subseteq> {..<length g} \<union> nodes g" by (auto simp: visiting_def)
qed

section \<open>The components of the second traversal\<close>

lemma flood_readers_spec:
  "snd (flood_readers c ms pend cm) = (\<lambda>m. if m \<in> set ms \<and> cm m = None then Some c else cm m) \<and>
   set (fst (flood_readers c ms pend cm)) = set pend \<union> (set ms - dom cm)"
proof (induction ms arbitrary: pend cm)
  case (Cons m ms)
  show ?case
  proof (cases "cm m = None")
    case True
    define cm1 where "cm1 = cm(m \<mapsto> c)"
    have "cm1 x = None \<longleftrightarrow> cm x = None \<and> x \<noteq> m" "dom cm1 = insert m (dom cm)" for x by (auto simp: cm1_def)
    with True Cons.IH [of "m # pend" cm1] show ?thesis by (auto simp: fun_eq_iff cm1_def [symmetric]) (auto simp: cm1_def)
  next
    case False
    with Cons.IH [of pend cm] show ?thesis by (auto simp: fun_eq_iff)
  qed
qed simp

text \<open>A component grows from \<open>s\<close>: its phis reach \<open>s\<close> inside it and are reached from \<open>s\<close>.\<close>

definition around :: "phi_graph \<Rightarrow> nat \<Rightarrow> nat set \<Rightarrow> bool" where
  "around g s M \<longleftrightarrow>
     s \<in> M \<and> (\<forall>m\<in>M. (m, s) \<in> (edges g \<inter> M \<times> M)\<^sup>* \<and> (s, m) \<in> (edges g)\<^sup>*)"

lemma leaving_edge:
  "(a, s) \<in> R\<^sup>* \<Longrightarrow> a \<in> B \<Longrightarrow> s \<notin> B \<Longrightarrow> \<exists>x y. (x, y) \<in> R \<and> x \<in> B \<and> y \<notin> B"
  by (induction rule: converse_rtrancl_induct) blast+

lemma around_insert:
  assumes M: "around g s M" and ord: "left_after g ord" "distinct ord" "ord = A @ s # B" and i: "i \<in> set A"
    and ij: "(i, j) \<in> edges g" and j: "j \<in> M"
  shows "around g s (insert i M)"
proof -
  from i obtain A1 A2 where A: "A = A1 @ i # A2" by (meson split_list)
  have left: "b \<in> set (A1 @ [i]) \<or> (b, i) \<in> (edges g)\<^sup>*" if "a \<in> set (A1 @ [i])" "(a, b) \<in> edges g" for a b
    using ord(1) that unfolding left_after_def ord(3) A by (metis append.assoc append_Cons)
  have "(s, i) \<in> (edges g)\<^sup>*"
  proof (cases "j \<in> set (A1 @ [i])")
    case True
    have "s \<notin> set (A1 @ [i])" using ord(2) unfolding ord(3) A by auto
    moreover from M j have "(j, s) \<in> (edges g \<inter> M \<times> M)\<^sup>*" by (simp add: around_def)
    ultimately obtain x y where xy: "(x, y) \<in> edges g" "y \<in> M" "x \<in> set (A1 @ [i])" "y \<notin> set (A1 @ [i])"
      using leaving_edge [OF _ True] by blast
    with left have "(y, i) \<in> (edges g)\<^sup>*" by blast
    with M xy(2) show ?thesis unfolding around_def by (metis rtrancl_trans)
  next
    case False
    with left [of i j] ij have "(j, i) \<in> (edges g)\<^sup>*" by simp
    with M j show ?thesis unfolding around_def by (metis rtrancl_trans)
  qed
  moreover have mono: "(edges g \<inter> M \<times> M)\<^sup>* \<subseteq> (edges g \<inter> insert i M \<times> insert i M)\<^sup>*" by (intro rtrancl_mono) blast
  moreover have "(i, s) \<in> (edges g \<inter> insert i M \<times> insert i M)\<^sup>*"
    using M j ij mono unfolding around_def by (meson IntI SigmaI converse_rtrancl_into_rtrancl insertCI subsetD)
  ultimately show ?thesis using M unfolding around_def by auto
qed

lemma around_union:
  assumes "around g s M" and "left_after g ord" "distinct ord" "ord = A @ s # B"
    and j: "j \<in> M" and "finite N" and N: "\<And>i. i \<in> N \<Longrightarrow> i \<in> set A \<and> (i, j) \<in> edges g"
  shows "around g s (M \<union> N)"
  using assms(6) N
proof (induction N rule: finite_induct)
  case (insert i N)
  have "around g s (insert i (M \<union> N))"
    by (rule around_insert [OF insert.IH assms(2-4)]) (use insert j in auto)
  then show ?case by simp
qed (use assms in simp)

definition flooding :: "phi_graph \<Rightarrow> nat \<Rightarrow> nat \<Rightarrow> components \<Rightarrow> nat list \<Rightarrow> nat list \<Rightarrow> components \<Rightarrow> bool" where
  "flooding g c s cm0 pend ms cm \<longleftrightarrow>
     cm = (\<lambda>n. if n \<in> set ms \<union> set pend then Some c else cm0 n) \<and> (set ms \<union> set pend) \<inter> dom cm0 = {} \<and>
     (\<forall>j\<in>set ms. \<forall>i. (i, j) \<in> edges g \<longrightarrow> cm i \<noteq> None) \<and> around g s (set ms \<union> set pend)"

lemma flooding_step:
  assumes F: "flooding g c s cm0 (n # pend) ms cm" and g: "closed_graph g"
    and ord: "left_after g ord" "distinct ord" "ord = A @ s # B" "{..<length g} \<subseteq> set ord" "set B \<subseteq> dom cm0"
  shows "flooding g c s cm0 (fst (flood_readers c (succs (reverse_edges g) n) pend cm)) (ms @ [n])
    (snd (flood_readers c (succs (reverse_edges g) n) pend cm))"
proof -
  let ?N = "set (succs (reverse_edges g) n) - dom cm" and ?M = "set ms \<union> set (n # pend)"
  let ?pend = "fst (flood_readers c (succs (reverse_edges g) n) pend cm)"
  let ?cm = "snd (flood_readers c (succs (reverse_edges g) n) pend cm)"
  from F have cm: "cm = (\<lambda>x. if x \<in> ?M then Some c else cm0 x)" and d: "?M \<inter> dom cm0 = {}"
    and r: "\<forall>j\<in>set ms. \<forall>i. (i, j) \<in> edges g \<longrightarrow> cm i \<noteq> None" and a: "around g s ?M"
    unfolding flooding_def by blast+
  have cmx: "cm x = (if x \<in> ?M then Some c else cm0 x)" for x using fun_cong [OF cm] .
  have pend: "set ?pend = set pend \<union> ?N" and cm': "?cm x = (if x \<in> ?N then Some c else cm x)" for x
    using flood_readers_spec [of c "succs (reverse_edges g) n" pend cm] by auto
  have M: "set (ms @ [n]) \<union> set ?pend = ?M \<union> ?N" using pend by auto
  have "i \<in> set A \<and> (i, n) \<in> edges g" if "i \<in> ?N" for i
  proof -
    from that have e: "(i, n) \<in> edges g" using reverse_edge [OF g] by blast
    with closed_edge [OF g] ord(3,4) have "i \<in> set A \<union> {s} \<union> set B" by (auto simp: subset_iff)
    moreover have "i \<noteq> s" using that a by (auto simp: cmx around_def)
    moreover have "i \<notin> set B" using that ord(5) by (auto simp: cmx split: if_splits)
    ultimately show ?thesis using e by simp
  qed
  then have "around g s (?M \<union> ?N)" by (intro around_union [OF a ord(1-3), of n]) auto
  moreover have "(?M \<union> ?N) \<inter> dom cm0 = {}" using d by (auto simp: cmx split: if_splits)
  moreover have "?cm i \<noteq> None" if "j \<in> set (ms @ [n])" "(i, j) \<in> edges g" for i j
    using that r reverse_edge [OF g, of i n] by (auto simp: cm')
  moreover have "?cm = (\<lambda>x. if x \<in> ?M \<union> ?N then Some c else cm0 x)" 
    unfolding fun_eq_iff cm' by (auto simp: cmx)
  ultimately show ?thesis unfolding flooding_def M by blast
qed

lemma flood_Inr:
  "flood ch r c pend ms cm w = (Inr (ms', cm'), w') \<Longrightarrow> r = reverse_edges g \<Longrightarrow> flooding g c s cm0 pend ms cm \<Longrightarrow>
   closed_graph g \<Longrightarrow> left_after g ord \<Longrightarrow> distinct ord \<Longrightarrow> ord = A @ s # B \<Longrightarrow> {..<length g} \<subseteq> set ord \<Longrightarrow>
   set B \<subseteq> dom cm0 \<Longrightarrow> flooding g c s cm0 [] ms' cm'"
proof (induction ch r c pend ms cm arbitrary: w rule: flood.induct)
  case (2 ch r c n pend ms cm)
  from "2.prems"(1) obtain w1 where "flood ch r c (fst (flood_readers c (succs r n) pend cm)) (ms @ [n])
      (snd (flood_readers c (succs r n) pend cm)) w1 = (Inr (ms', cm'), w')"
    unfolding flood.simps(2) [of ch r c n pend ms cm] r_bind_Inr by blast
  from "2.IH" [OF this "2.prems"(2) _ "2.prems"(4-)] flooding_step [OF "2.prems"(3-)] "2.prems"(2) show ?case by simp
qed simp

definition grouped :: "phi_graph \<Rightarrow> nat list list \<Rightarrow> components \<Rightarrow> bool" where
  "grouped g groups cm \<longleftrightarrow>
     dom cm \<subseteq> {..<length g} \<and> (\<forall>n c. cm n = Some c \<longleftrightarrow> c < length groups \<and> n \<in> set (groups ! c)) \<and>
     (\<forall>i j c. (i, j) \<in> edges g \<longrightarrow> cm j = Some c \<longrightarrow> (\<exists>c'\<le>c. cm i = Some c')) \<and>
     (\<forall>i j. cm i \<noteq> None \<longrightarrow> cm i = cm j \<longrightarrow> (i, j) \<in> (edges g)\<^sup>*)"

lemma grouped_snoc:
  assumes G: "grouped g groups cm0" and F: "flooding g (length groups) s cm0 [] ms cm"
    and g: "closed_graph g" and s: "s < length g"
  shows "grouped g (groups @ [ms]) cm" and "dom cm0 \<union> {s} \<subseteq> dom cm"
proof -
  have cmx: "cm x = (if x \<in> set ms then Some (length groups) else cm0 x)" for x
    using F by (simp add: flooding_def)
  have new: "x \<notin> dom cm0" if "x \<in> set ms" for x using F that by (auto simp: flooding_def)
  have a: "around g s (set ms)" and r: "\<And>i j. j \<in> set ms \<Longrightarrow> (i, j) \<in> edges g \<Longrightarrow> cm i \<noteq> None"
    using F unfolding flooding_def by (metis Un_empty_right list.set(1), blast)
  have old: "cm0 n = Some c \<longleftrightarrow> c < length groups \<and> n \<in> set (groups ! c)" for n c
    using G by (simp add: grouped_def)
  show "dom cm0 \<union> {s} \<subseteq> dom cm" using a by (auto simp: cmx around_def)
  have "x < length g" if "x \<in> set ms" for x
  proof -
    from a that have "(s, x) \<in> (edges g)\<^sup>*" by (auto simp: around_def)
    then show ?thesis using s closed_edge [OF g] by (cases rule: rtranclE) auto
  qed
  moreover have "dom cm0 \<subseteq> {..<length g}" using G by (simp add: grouped_def)
  ultimately have D: "dom cm \<subseteq> {..<length g}" by (force simp: cmx split: if_splits)
  have "cm n = Some c \<longleftrightarrow> c < length (groups @ [ms]) \<and> n \<in> set ((groups @ [ms]) ! c)" for n c
  proof (cases "n \<in> set ms")
    case True
    with new [OF True] have "cm0 n = None" by auto
    with old [of n c] have "\<not> (c < length groups \<and> n \<in> set (groups ! c))" by simp
    with True show ?thesis by (auto simp: cmx nth_append less_Suc_eq)
  next
    case False
    then show ?thesis unfolding cmx using old [of n c] by (simp add: nth_append less_Suc_eq)
  qed
  moreover have "\<exists>c'\<le>c. cm i = Some c'" if e: "(i, j) \<in> edges g" and c: "cm j = Some c" for i j c
  proof (cases "j \<in> set ms")
    case True
    from r [OF True e] obtain c' where c': "cm i = Some c'" by blast
    with old [of i c'] have "c' \<le> length groups" by (simp add: cmx split: if_splits)
    with c c' True show ?thesis by (simp add: cmx)
  next
    case False
    with c have "cm0 j = Some c" by (simp add: cmx)
    with G e obtain c' where "c' \<le> c" "cm0 i = Some c'" unfolding grouped_def by meson
    with new [of i] show ?thesis by (auto simp: cmx)
  qed
  moreover have "(i, j) \<in> (edges g)\<^sup>*" if i: "cm i \<noteq> None" and eq: "cm i = cm j" for i j
  proof (cases "i \<in> set ms")
    case True
    with eq have "cm j = Some (length groups)" by (simp add: cmx)
    with old [of j "length groups"] have "j \<in> set ms" by (simp add: cmx split: if_splits)
    with True a have "(i, s) \<in> (edges g \<inter> set ms \<times> set ms)\<^sup>*" "(s, j) \<in> (edges g)\<^sup>*" by (auto simp: around_def)
    moreover have "(edges g \<inter> set ms \<times> set ms)\<^sup>* \<subseteq> (edges g)\<^sup>*" by (intro rtrancl_mono) blast
    ultimately show ?thesis by (meson rtrancl_trans subsetD)
  next
    case False
    have "j \<notin> set ms"
    proof
      assume "j \<in> set ms"
      with False eq have "cm0 i = Some (length groups)" by (simp add: cmx)
      with old [of i "length groups"] show False by simp
    qed
    with False i eq G show ?thesis by (auto simp: cmx grouped_def)
  qed
  ultimately show "grouped g (groups @ [ms]) cm" unfolding grouped_def using D by blast
qed

lemma group_phis_Inr:
  "group_phis ch r ss groups cm w = (Inr (groups', cm'), w') \<Longrightarrow> r = reverse_edges g \<Longrightarrow> grouped g groups cm \<Longrightarrow>
   closed_graph g \<Longrightarrow> left_after g ord \<Longrightarrow> distinct ord \<Longrightarrow> set ord = {..<length g} \<Longrightarrow>
   rev ord = done @ ss \<Longrightarrow> set done \<subseteq> dom cm \<Longrightarrow> grouped g groups' cm' \<and> dom cm \<union> set ss \<subseteq> dom cm'"
proof (induction ch r ss groups cm arbitrary: w "done" rule: group_phis.induct)
  case (2 ch r s ss groups cm)
  show ?case
  proof (cases "cm s = None")
    case False
    with "2.prems" have "rev ord = (done @ [s]) @ ss" "set (done @ [s]) \<subseteq> dom cm"
      and "group_phis ch r ss groups cm w = (Inr (groups', cm'), w')" by auto
    from "2.IH"(1) [OF False this(3) "2.prems"(2-7) this(1,2)] False show ?thesis by auto
  next
    case True
    let ?cm = "cm(s \<mapsto> length groups)"
    from True "2.prems"(1) obtain ms cm1 w1 where
      f: "flood ch r (length groups) [s] [] ?cm w = (Inr (ms, cm1), w1)"
      and rest: "group_phis ch r ss (groups @ [ms]) cm1 w1 = (Inr (groups', cm'), w')"
      by (auto simp: r_bind_Inr)
    from "2.prems"(8) have ord: "ord = rev ss @ s # rev done" by (simp add: rev_swap)
    have "flooding g (length groups) s cm [s] [] ?cm"
      using True by (auto simp: flooding_def around_def fun_eq_iff)
    from flood_Inr [OF f "2.prems"(2) this "2.prems"(4-6) ord] "2.prems"(7,9)
    have "flooding g (length groups) s cm [] ms cm1" by simp
    moreover have "s < length g" using ord "2.prems"(7) by (metis in_set_conv_decomp lessThan_iff)
    ultimately
    have G: "grouped g (groups @ [ms]) cm1" and d: "dom cm \<union> {s} \<subseteq> dom cm1"
      using grouped_snoc [OF "2.prems"(3)] "2.prems"(4) by blast+
    have "rev ord = (done @ [s]) @ ss" "set (done @ [s]) \<subseteq> dom cm1" using "2.prems"(8,9) d by auto
    from "2.IH"(2) [OF _ rest "2.prems"(2) G "2.prems"(4-7) this] True d show ?thesis by auto
  qed
qed auto

text \<open>What both traversals find: the strongly connected components, users before inputs.\<close>

lemma components_found:
  assumes g: "closed_graph g" and v: "visit_starts ch g [0..<length g] {} [] w = (Inr ord, w1)"
    and p: "group_phis ch (reverse_edges g) (rev ord) [] Map.empty w1 = (Inr (groups, cm), w2)"
  shows "grouped g groups cm" and "\<And>n. n < length g \<Longrightarrow> cm n \<noteq> None"
proof -
  have "nodes g \<subseteq> {..<length g}" using g by (auto simp: closed_graph_def nodes_def)
  moreover have ss: "set [0..<length g] \<subseteq> {..<length g}" by auto
  ultimately have sub: "set ord = {..<length g}" using first_traversal(2,4) [OF v ss] by auto
  have "grouped g [] Map.empty" by (simp add: grouped_def)
  from group_phis_Inr [OF p refl this g first_traversal(1,3) [OF v ss] sub, of "[]"]
  have "grouped g groups cm" "set ord \<subseteq> dom cm" by auto
  with sub show "grouped g groups cm" and "\<And>n. n < length g \<Longrightarrow> cm n \<noteq> None" by blast+
qed

lemma grouped_reach:
  assumes "grouped g groups cm" and "(i, j) \<in> (edges g)\<^sup>*" and "cm j = Some c"
  shows "\<exists>c'\<le>c. cm i = Some c'"
  using assms(2,3)
proof (induction arbitrary: c rule: converse_rtrancl_induct)
  case (step i k)
  then obtain c1 where "c1 \<le> c" "cm k = Some c1" by blast
  with assms(1) step(1) show ?case unfolding grouped_def by (meson le_trans)
qed auto

lemma grouped_scc:
  assumes "grouped g groups cm" and "cm i \<noteq> None" and "cm j \<noteq> None"
  shows "cm i = cm j \<longleftrightarrow> (i, j) \<in> (edges g)\<^sup>* \<and> (j, i) \<in> (edges g)\<^sup>*"
proof
  assume "cm i = cm j"
  with assms show "(i, j) \<in> (edges g)\<^sup>* \<and> (j, i) \<in> (edges g)\<^sup>*" unfolding grouped_def by metis
next
  assume r: "(i, j) \<in> (edges g)\<^sup>* \<and> (j, i) \<in> (edges g)\<^sup>*"
  from assms obtain c d where c: "cm i = Some c" "cm j = Some d" by auto
  from grouped_reach [OF assms(1) _ c(2), of i] grouped_reach [OF assms(1) _ c(1), of j] r c
  have "c \<le> d" "d \<le> c" by simp_all
  with c show "cm i = cm j" by simp
qed

end
