(* ===== verification/PhiCopiesProps.thy ===== *)
theory PhiCopiesProps
  imports PhiGroups RunSteps
begin

text \<open>
  What the simplification of phis guarantees: a phi that is replaced has one value, that of every operand it
  has, and exactly the strongly connected components with a single value from outside are replaced.
\<close>

section \<open>The tables\<close>

definition indexes :: "Origin list \<Rightarrow> phi_index \<Rightarrow> bool" where
  "indexes os ix \<longleftrightarrow> (\<forall>o' n. ix o' = Some n \<longleftrightarrow> n < length os \<and> os ! n = o')"

lemma index_blocks_Inr:
  "index_blocks ch bs m w = (Inr m', w') \<Longrightarrow> m' i = Some b \<Longrightarrow> m i = Some b \<or> b \<in> set bs \<and> BF_ID b = i"
proof (induction bs arbitrary: m w)
  case (Cons c bs)
  then obtain w1 where "index_blocks ch bs (m(BF_ID c \<mapsto> c)) w1 = (Inr m', w')" by (auto simp: r_bind_Inr)
  from Cons.IH [OF this Cons.prems(2)] show ?case by (auto split: if_splits)
qed simp

lemma index_phis_Inr:
  "index_phis ch blocks ps os ix w = (Inr (os', ix'), w') \<Longrightarrow> indexes os ix \<Longrightarrow>
     indexes os' ix' \<and> (\<exists>new. os' = os @ new \<and>
       list_all2 (\<lambda>o' p. \<exists>b. blocks (P_Block p) = Some b \<and> o' = phi_identity b p) new ps)"
proof (induction ch blocks ps os ix arbitrary: w rule: index_phis.induct)
  case (2 ch blocks p ps os ix)
  from "2.prems"(1) obtain b w1 where b: "blocks (P_Block p) = Some b" and n: "ix (phi_identity b p) = None"
    and r: "index_phis ch blocks ps (os @ [phi_identity b p]) (ix(phi_identity b p \<mapsto> length os)) w1 = (Inr (os', ix'), w')"
    by (auto simp: r_bind_Inr Let_def split: option.splits if_splits)
  have x: "indexes (os @ [phi_identity b p]) (ix(phi_identity b p \<mapsto> length os))"
    unfolding indexes_def
  proof (intro allI)
    fix o' k
    have old: "ix o' = Some k \<longleftrightarrow> k < length os \<and> os ! k = o'" using "2.prems"(2) by (simp add: indexes_def)
    have "\<not> (k < length os \<and> os ! k = phi_identity b p)"
      using "2.prems"(2) n unfolding indexes_def by (metis option.distinct(1))
    with old show "(ix(phi_identity b p \<mapsto> length os)) o' = Some k \<longleftrightarrow>
        k < length (os @ [phi_identity b p]) \<and> (os @ [phi_identity b p]) ! k = o'"
      by (auto simp: nth_append less_Suc_eq)
  qed
  from "2.IH" [OF b refl _ r x] n b show ?case by auto
qed simp

lemma phi_inputs_Inr:
  "phi_inputs ch ix ops js w = (Inr js', w') \<Longrightarrow>
     (\<forall>op\<in>set ops. O_Kind (PO_Origin op) = OriginPhi \<longrightarrow> ix (PO_Origin op) \<noteq> None) \<and>
     set js' = set js \<union> {j. \<exists>op\<in>set ops. O_Kind (PO_Origin op) = OriginPhi \<and> ix (PO_Origin op) = Some j}"
proof (induction ch ix ops js arbitrary: w rule: phi_inputs.induct)
  case (2 ch ix op ops js)
  from "2.prems" obtain w1 where
    r: "(if O_Kind (PO_Origin op) \<noteq> OriginPhi then phi_inputs ch ix ops js
         else (case ix (PO_Origin op) of None \<Rightarrow> r_fail ''invalid_input: undefined phi input %s''
               | Some j \<Rightarrow> phi_inputs ch ix ops (js @ [j]))) w1 = (Inr js', w')"
    by (auto simp: r_bind_Inr)
  show ?case
  proof (cases "O_Kind (PO_Origin op) = OriginPhi")
    case False
    with "2.IH"(1) [OF False, of w1] r show ?thesis by auto
  next
    case True
    with r obtain j where "ix (PO_Origin op) = Some j" and "phi_inputs ch ix ops (js @ [j]) w1 = (Inr js', w')"
      by (auto split: option.splits)
    with "2.IH"(2) [of j w1] True show ?thesis by auto
  qed
qed simp

definition reads :: "Phi \<Rightarrow> Origin set" where
  "reads p = PO_Origin ` set (Operands p)"

text \<open>The graph of the equations, where only phis are in the index.\<close>

definition equations :: "Phi list \<Rightarrow> Origin list \<Rightarrow> phi_index \<Rightarrow> phi_graph \<Rightarrow> bool" where
  "equations ps os ix g \<longleftrightarrow>
     indexes os ix \<and> length os = length ps \<and> length g = length ps \<and>
     (\<forall>n<length ps. set (g ! n) = {j. \<exists>o'\<in>reads (ps ! n). ix o' = Some j})"

lemma forward_edges_Inr:
  assumes "\<And>o'. ix o' \<noteq> None \<Longrightarrow> O_Kind o' = OriginPhi"
  shows "forward_edges ch ix ps g w = (Inr g', w') \<Longrightarrow>
     \<exists>gs. g' = g @ gs \<and> list_all2 (\<lambda>p js. set js = {j. \<exists>o'\<in>reads p. ix o' = Some j}) ps gs"
proof (induction ps arbitrary: g w)
  case (Cons p ps)
  from Cons.prems obtain js w1 where i: "phi_inputs ch ix (Operands p) [] w = (Inr js, w1)"
    and r: "forward_edges ch ix ps (g @ [js]) w1 = (Inr g', w')"
    by (auto simp: r_bind_Inr)
  have "O_Kind o' = OriginPhi" if "ix o' = Some j" for o' j using assms that by simp
  with phi_inputs_Inr [OF i] have "set js = {j. \<exists>o'\<in>reads p. ix o' = Some j}"
    unfolding reads_def by auto
  with Cons.IH [OF r] show ?case by auto
qed simp

lemma phi_identity_kind [simp]: "O_Kind (phi_identity b p) = OriginPhi"
  by (simp add: phi_identity_def)

section \<open>One component\<close>

definition inside :: "phi_index \<Rightarrow> components \<Rightarrow> nat \<Rightarrow> Origin \<Rightarrow> bool" where
  "inside ix cm c o' \<longleftrightarrow> (\<exists>j. ix o' = Some j \<and> cm j = Some c)"

lemma enter_alt:
  "enter ix cm c al o' s =
     (if inside ix cm c o' then s
      else (case fst s of None \<Rightarrow> (Some (resolve al o'), snd s)
            | Some x \<Rightarrow> if resolve al o' \<noteq> x then (Some x, True) else s))"
  by (auto simp: enter_def inside_def split: option.splits)

lemma fold_enter_Some:
  "fold (enter ix cm c al) L (Some x, d) =
     (Some x, d \<or> (\<exists>o'\<in>set L. \<not> inside ix cm c o' \<and> resolve al o' \<noteq> x))"
  by (induction L arbitrary: d) (auto simp: enter_alt)

lemma fold_enter_None:
  "fold (enter ix cm c al) L (None, False) = (None, d) \<Longrightarrow> \<forall>o'\<in>set L. inside ix cm c o'"
  by (induction L) (auto simp: enter_alt fold_enter_Some split: if_splits)

lemma fold_enter_found:
  "fold (enter ix cm c al) L (None, False) = (Some x, d) \<Longrightarrow>
     (\<exists>o'\<in>set L. \<not> inside ix cm c o' \<and> resolve al o' = x) \<and>
     (d \<longleftrightarrow> (\<exists>o'\<in>set L. \<not> inside ix cm c o' \<and> resolve al o' \<noteq> x))"
  by (induction L) (auto simp: enter_alt fold_enter_Some split: if_splits)

lemma group_operands_set: "set (group_operands ps ms) = (\<Union>n\<in>set ms. reads (ps ! n))"
  by (auto simp: group_operands_def reads_def)

lemma map_of_const: "map_of (map (\<lambda>n. (f n, x)) ms) a = (if a \<in> f ` set ms then Some x else None)"
  by (induction ms) auto

section \<open>The aliases\<close>

text \<open>The values that enter component \<open>c\<close> from outside.\<close>

definition entering :: "Phi list \<Rightarrow> phi_index \<Rightarrow> components \<Rightarrow> aliases \<Rightarrow> nat \<Rightarrow> Origin set" where
  "entering ps ix cm al c =
     {resolve al o' |o' n. n < length ps \<and> cm n = Some c \<and> o' \<in> reads (ps ! n) \<and> \<not> inside ix cm c o'}"

text \<open>The components from \<open>k\<close> on have been resolved.\<close>

definition resolved :: "Phi list \<Rightarrow> Origin list \<Rightarrow> phi_index \<Rightarrow> components \<Rightarrow> nat \<Rightarrow> aliases \<Rightarrow> bool" where
  "resolved ps os ix cm k al \<longleftrightarrow>
     (\<forall>a x. al a = Some x \<longrightarrow>
        (\<exists>n c. ix a = Some n \<and> cm n = Some c \<and> k \<le> c) \<and>
        al x = None \<and> (\<forall>j. ix x = Some j \<longrightarrow> (\<exists>c\<ge>k. cm j = Some c))) \<and>
     (\<forall>n c. n < length ps \<longrightarrow> cm n = Some c \<longrightarrow> k \<le> c \<longrightarrow>
        (case al (os ! n) of
           Some x \<Rightarrow> entering ps ix cm al c = {x} \<and>
             (\<forall>m<length ps. cm m = Some c \<longrightarrow> al (os ! m) = Some x)
         | None \<Rightarrow> \<exists>x y. {x, y} \<subseteq> entering ps ix cm al c \<and> x \<noteq> y))"

text \<open>The equations with their components.\<close>

definition phi_system :: "Phi list \<Rightarrow> Origin list \<Rightarrow> phi_index \<Rightarrow> phi_graph \<Rightarrow> nat list list \<Rightarrow> components \<Rightarrow> bool" where
  "phi_system ps os ix g groups cm \<longleftrightarrow>
     equations ps os ix g \<and> grouped g groups cm \<and> (\<forall>n<length ps. cm n \<noteq> None)"

lemma index: "phi_system ps os ix g groups cm \<Longrightarrow> ix o' = Some n \<longleftrightarrow> n < length ps \<and> os ! n = o'"
  by (auto simp: phi_system_def equations_def indexes_def)

lemma member:
  assumes S: "phi_system ps os ix g groups cm"
  shows "n \<in> set (groups ! c) \<and> c < length groups \<longleftrightarrow> n < length ps \<and> cm n = Some c"
proof -
  have "dom cm \<subseteq> {..<length ps}" using S by (auto simp: phi_system_def grouped_def equations_def)
  moreover have "cm n = Some c \<longleftrightarrow> c < length groups \<and> n \<in> set (groups ! c)"
    using S by (simp add: phi_system_def grouped_def)
  ultimately show ?thesis by blast
qed

lemma same_place: "phi_system ps os ix g groups cm \<Longrightarrow> n < length ps \<Longrightarrow> m < length ps \<Longrightarrow> os ! n = os ! m \<Longrightarrow> n = m"
  using index [of ps os ix g groups cm "os ! n" n] index [of ps os ix g groups cm "os ! n" m] by simp

text \<open>A phi reads phis of its own component and of later ones.\<close>

lemma reads_later:
  assumes S: "phi_system ps os ix g groups cm" and "n < length ps" and "cm n = Some c" and "o' \<in> reads (ps ! n)" and "ix o' = Some j" and "cm j = Some d"
  shows "c \<le> d"
proof -
  have "(n, j) \<in> edges g" using assms by (auto simp: phi_system_def equations_def edges_iff)
  with assms(1,3,6) obtain c' where "c' \<le> d" "cm n = Some c'" unfolding phi_system_def grouped_def by meson
  with assms(3) show ?thesis by simp
qed

lemma component_of: "phi_system ps os ix g groups cm \<Longrightarrow> ix o' = Some j \<Longrightarrow> \<exists>d. cm j = Some d"
  using index [of ps os ix g groups cm o' j] by (auto simp: phi_system_def)

text \<open>The values that enter a component do not depend on the aliases of earlier ones.\<close>

lemma entering_later:
  assumes S: "phi_system ps os ix g groups cm"
    and "\<And>o'. (\<And>j d. ix o' = Some j \<Longrightarrow> cm j = Some d \<Longrightarrow> c < d) \<Longrightarrow> resolve al o' = resolve al' o'"
  shows "entering ps ix cm al c = entering ps ix cm al' c"
proof -
  have "resolve al o' = resolve al' o'"
    if "n < length ps" "cm n = Some c" "o' \<in> reads (ps ! n)" "\<not> inside ix cm c o'" for n o'
  proof (rule assms(2))
    fix j d assume j: "ix o' = Some j" "cm j = Some d"
    with that have "c \<noteq> d" by (auto simp: inside_def)
    with reads_later [OF S that(1-3) j] show "c < d" by simp
  qed
  then show ?thesis unfolding entering_def by (intro Collect_cong) metis
qed

lemma resolved_kept:
  assumes S: "phi_system ps os ix g groups cm" and R: "resolved ps os ix cm (Suc k) al" and same: "\<And>o'. (\<And>j d. ix o' = Some j \<Longrightarrow> cm j = Some d \<Longrightarrow> k < d) \<Longrightarrow> al' o' = al o'"
    and n: "n < length ps" "cm n = Some c" "k < c"
  shows "case al' (os ! n) of
      Some x \<Rightarrow> entering ps ix cm al' c = {x} \<and> (\<forall>m<length ps. cm m = Some c \<longrightarrow> al' (os ! m) = Some x)
    | None \<Rightarrow> \<exists>x y. {x, y} \<subseteq> entering ps ix cm al' c \<and> x \<noteq> y"
proof -
  have "entering ps ix cm al' c = entering ps ix cm al c"
    by (rule entering_later [OF S]) (metis n(3) order.strict_trans resolve_def same)
  moreover have "al' (os ! m) = al (os ! m)" if "m < length ps" "cm m = Some c" for m
  proof (rule same)
    fix j d assume "ix (os ! m) = Some j" "cm j = Some d"
    with that n(3) index [OF S] same_place [OF S] show "k < d" by fastforce
  qed
  moreover have "case al (os ! n) of
      Some x \<Rightarrow> entering ps ix cm al c = {x} \<and> (\<forall>m<length ps. cm m = Some c \<longrightarrow> al (os ! m) = Some x)
    | None \<Rightarrow> \<exists>x y. {x, y} \<subseteq> entering ps ix cm al c \<and> x \<noteq> y"
    using R n unfolding resolved_def by (meson Suc_leI)
  ultimately show ?thesis using n by (auto split: option.splits)
qed

lemma resolved_step:
  assumes S: "phi_system ps os ix g groups cm" and R: "resolved ps os ix cm (Suc k) al" and k: "k < length groups"
    and f: "fold (enter ix cm k al) (group_operands ps (groups ! k)) (None, False) = (Some x, different)"
  shows "resolved ps os ix cm k (if different then al else al ++ map_of (map (\<lambda>n. (os ! n, x)) (groups ! k)))"
proof -
  define al1 where al1: "al1 = (if different then al else al ++ map_of (map (\<lambda>n. (os ! n, x)) (groups ! k)))"
  let ?K = "{n. n < length ps \<and> cm n = Some k}"
  have K: "set (groups ! k) = ?K" using member [OF S, of _ k] k by auto
  have ent: "entering ps ix cm al k = {resolve al o' |o'. o' \<in> set (group_operands ps (groups ! k)) \<and> \<not> inside ix cm k o'}"
    unfolding entering_def group_operands_set K by auto
  from fold_enter_found [OF f] ent
  have x: "x \<in> entering ps ix cm al k" and diff: "different \<longleftrightarrow> (\<exists>y\<in>entering ps ix cm al k. y \<noteq> x)" by auto
  have new: "al1 a = (if \<not> different \<and> a \<in> (!) os ` ?K then Some x else al a)" for a
    by (simp add: al1 map_add_def map_of_const K)
  have outside: "al1 o' = al o'" if "\<And>j d. ix o' = Some j \<Longrightarrow> cm j = Some d \<Longrightarrow> k < d" for o'
  proof -
    have "o' \<notin> (!) os ` ?K"
    proof
      assume "o' \<in> (!) os ` ?K"
      then obtain n where "ix o' = Some n" "cm n = Some k" using index [OF S] by auto
      with that show False by blast
    qed
    then show ?thesis by (simp only: new if_False simp_thms)
  qed
  have res: "resolve al1 o' = resolve al o'" if "\<And>j d. ix o' = Some j \<Longrightarrow> cm j = Some d \<Longrightarrow> k < d" for o'
    using outside [OF that] by (simp only: resolve_def)
  have ent_same: "entering ps ix cm al1 k = entering ps ix cm al k"
    by (rule entering_later [OF S res])
  from x obtain o' n where o': "x = resolve al o'" "n \<in> ?K" "o' \<in> reads (ps ! n)" "\<not> inside ix cm k o'"
    by (auto simp: entering_def)
  have later: "\<exists>c\<ge>Suc k. cm j = Some c" if "ix x = Some j" for j
  proof (cases "al o'")
    case None
    with o' have [simp]: "x = o'" by (simp add: resolve_def)
    from component_of [OF S that] obtain d where d: "cm j = Some d" by blast
    with o' that have "k \<noteq> d" by (auto simp: inside_def)
    with reads_later [OF S, of n k o' j d] o' that d show ?thesis by auto
  next
    case (Some y)
    with o' R that show ?thesis unfolding resolved_def resolve_def by (metis option.simps(5))
  qed
  have x_none: "al x = None"
  proof (cases "al o'")
    case None
    with o' show ?thesis by (simp add: resolve_def)
  next
    case (Some y)
    with o' R show ?thesis unfolding resolved_def resolve_def by (metis option.simps(5))
  qed
  have x_out: "x \<notin> (!) os ` ?K" using later index [OF S] by fastforce
  have "(\<exists>n c. ix a = Some n \<and> cm n = Some c \<and> k \<le> c) \<and> al1 y = None \<and> (\<forall>j. ix y = Some j \<longrightarrow> (\<exists>c\<ge>k. cm j = Some c))"
    if "al1 a = Some y" for a y
  proof (cases "\<not> different \<and> a \<in> (!) os ` ?K")
    case True
    with that have "y = x" by (simp add: new)
    moreover from True obtain n where "ix a = Some n" "cm n = Some k" using index [OF S] by auto
    ultimately show ?thesis using x_none x_out later by (auto simp: new)
  next
    case False
    with that have "al a = Some y" by (simp add: new split: if_splits)
    with R have "\<exists>n c. ix a = Some n \<and> cm n = Some c \<and> Suc k \<le> c" and y: "al y = None"
      and l: "\<forall>j. ix y = Some j \<longrightarrow> (\<exists>c\<ge>Suc k. cm j = Some c)" unfolding resolved_def by blast+
    moreover have "al1 y = None" using y outside [of y] l by fastforce
    ultimately show ?thesis by (meson Suc_leD)
  qed
  moreover have "case al1 (os ! n) of
      Some x \<Rightarrow> entering ps ix cm al1 c = {x} \<and> (\<forall>m<length ps. cm m = Some c \<longrightarrow> al1 (os ! m) = Some x)
    | None \<Rightarrow> \<exists>x y. {x, y} \<subseteq> entering ps ix cm al1 c \<and> x \<noteq> y"
    if n: "n < length ps" "cm n = Some c" "k \<le> c" for n c
  proof (cases "k = c")
    case False
    with n show ?thesis by (intro resolved_kept [OF S R outside]) auto
  next
    case True
    show ?thesis
    proof (cases different)
      case False
      with diff x have "entering ps ix cm al k = {x}" by blast
      with False True n show ?thesis by (auto simp: new ent_same [unfolded True])
    next
      case d: True
      have "al (os ! n) = None"
      proof (rule ccontr)
        assume "al (os ! n) \<noteq> None"
        with R obtain m c' where "ix (os ! n) = Some m" "cm m = Some c'" "Suc k \<le> c'" unfolding resolved_def by blast
        with n True index [OF S] same_place [OF S] show False by fastforce
      qed
      with d True x diff ent_same show ?thesis by (auto simp: new)
    qed
  qed
  ultimately show ?thesis unfolding resolved_def al1 [symmetric] by blast
qed

lemma alias_groups_resolved:
  "phi_system ps os ix g groups cm \<Longrightarrow> alias_groups ch ps os ix cm (rev (zip [0..<k] (take k groups))) al w = (Inr al', w') \<Longrightarrow> k \<le> length groups \<Longrightarrow>
     resolved ps os ix cm k al \<Longrightarrow> resolved ps os ix cm 0 al'"
proof (induction k arbitrary: al w)
  case (Suc k)
  then have "rev (zip [0..<Suc k] (take (Suc k) groups)) = (k, groups ! k) # rev (zip [0..<k] (take k groups))"
    by (simp add: take_Suc_conv_app_nth)
  with Suc.prems(2) obtain x d w1 where
    f: "fold (enter ix cm k al) (group_operands ps (groups ! k)) (None, False) = (Some x, d)"
    and r: "alias_groups ch ps os ix cm (rev (zip [0..<k] (take k groups)))
      (if d then al else al ++ map_of (map (\<lambda>n. (os ! n, x)) (groups ! k))) w1 = (Inr al', w')"
    by (auto simp: r_bind_Inr split: prod.splits option.splits)
  from Suc.IH [OF Suc.prems(1) r] resolved_step [OF Suc.prems(1,4) _ f] Suc.prems(3) show ?case by simp
qed simp

section \<open>The whole pass\<close>

text \<open>The identity of a phi in a function, and which origins it reads.\<close>

definition block_named :: "ssa_fun \<Rightarrow> BlockID \<rightharpoonup> BlockFrame" where
  "block_named fn = map_of (rev (map (\<lambda>b. (BF_ID b, b)) (F_Blocks fn)))"

definition identity_of :: "ssa_fun \<Rightarrow> Phi \<Rightarrow> Origin" where
  "identity_of fn p = phi_identity (the (block_named fn (P_Block p))) p"

definition phi_reads :: "ssa_fun \<Rightarrow> (Origin \<times> Origin) set" where
  "phi_reads fn = {(identity_of fn p, o') |p o'. p \<in> set (Phis fn) \<and> o' \<in> reads p}"

definition mutual :: "ssa_fun \<Rightarrow> Origin \<Rightarrow> Origin \<Rightarrow> bool" where
  "mutual fn a b \<longleftrightarrow> (a, b) \<in> (phi_reads fn)\<^sup>* \<and> (b, a) \<in> (phi_reads fn)\<^sup>*"

text \<open>The values that the phis of a strongly connected component read from outside.\<close>

definition outside_values :: "ssa_fun \<Rightarrow> aliases \<Rightarrow> Origin \<Rightarrow> Origin set" where
  "outside_values fn al a =
     {resolve al o' |o' p. p \<in> set (Phis fn) \<and> mutual fn a (identity_of fn p) \<and> o' \<in> reads p \<and> \<not> mutual fn a o'}"

lemma index_blocks_map:
  "index_blocks ch bs m w = (Inr m', w') \<Longrightarrow> m' = m ++ map_of (rev (map (\<lambda>b. (BF_ID b, b)) bs))"
proof (induction bs arbitrary: m w)
  case (Cons b bs)
  then obtain w1 where "index_blocks ch bs (m(BF_ID b \<mapsto> b)) w1 = (Inr m', w')" by (auto simp: r_bind_Inr)
  from Cons.IH [OF this] show ?case by (intro ext) (simp add: map_add_def split: option.split)
qed simp

lemma phi_aliases_Inr:
  assumes "phi_aliases ch fn w = (Inr (os, al), w')"
  shows "os = map (identity_of fn) (Phis fn)"
    and "\<exists>ix g groups cm. phi_system (Phis fn) os ix g groups cm \<and> resolved (Phis fn) os ix cm 0 al"
proof -
  from assms obtain blocks ix fwd ord groups cm w1 w2 w3 w4 w5 w6 where
    b: "index_blocks ch (F_Blocks fn) Map.empty w = (Inr blocks, w1)"
    and i: "index_phis ch blocks (Phis fn) [] Map.empty w1 = (Inr (os, ix), w2)"
    and f: "forward_edges ch ix (Phis fn) [] w2 = (Inr fwd, w3)"
    and v: "visit_starts ch fwd [0..<length (Phis fn)] {} [] w3 = (Inr ord, w4)"
    and p: "group_phis ch (reverse_edges fwd) (rev ord) [] Map.empty w4 = (Inr (groups, cm), w5)"
    and al: "alias_groups ch (Phis fn) os ix cm (rev (zip [0..<length groups] groups)) Map.empty w5 = (Inr al, w6)"
    by (auto simp: phi_aliases_def r_bind_Inr)
  have "indexes [] Map.empty" by (simp add: indexes_def)
  from index_phis_Inr [OF i this] have ix: "indexes os ix"
    and os: "list_all2 (\<lambda>o' p. \<exists>b. blocks (P_Block p) = Some b \<and> o' = phi_identity b p) os (Phis fn)" by auto
  have "blocks = block_named fn" using index_blocks_map [OF b] by (simp add: block_named_def)
  with os show os': "os = map (identity_of fn) (Phis fn)"
    by (auto simp: list_all2_conv_all_nth identity_of_def intro!: nth_equalityI)
  have len: "length os = length (Phis fn)" using os by (rule list_all2_lengthD)
  have kind: "O_Kind o' = OriginPhi" if "ix o' \<noteq> None" for o'
  proof -
    from that ix obtain n where "n < length os" "os ! n = o'" unfolding indexes_def by auto
    with os show ?thesis by (auto simp: list_all2_conv_all_nth)
  qed
  from forward_edges_Inr [OF kind f]
  have g: "list_all2 (\<lambda>p js. set js = {j. \<exists>o'\<in>reads p. ix o' = Some j}) (Phis fn) fwd" by simp
  then have lg: "length fwd = length (Phis fn)" by (simp add: list_all2_lengthD)
  from g have e: "equations (Phis fn) os ix fwd"
    using ix len by (simp add: equations_def list_all2_conv_all_nth)
  have "closed_graph fwd"
    using e lg unfolding closed_graph_def equations_def indexes_def by (fastforce simp: in_set_conv_nth)
  from components_found [OF this v [folded lg] p] have "grouped fwd groups cm" "\<And>n. n < length fwd \<Longrightarrow> cm n \<noteq> None" .
  with e lg have s: "phi_system (Phis fn) os ix fwd groups cm" by (simp add: phi_system_def)
  then have r: "resolved (Phis fn) os ix cm (length groups) Map.empty"
    by (auto simp: resolved_def phi_system_def grouped_def)
  have "alias_groups ch (Phis fn) os ix cm (rev (zip [0..<length groups] (take (length groups) groups))) Map.empty w5
      = (Inr al, w6)" using al by simp
  then have "resolved (Phis fn) os ix cm 0 al" by (rule alias_groups_resolved [OF s _ order_refl r])
  with s show "\<exists>ix g groups cm. phi_system (Phis fn) os ix g groups cm \<and> resolved (Phis fn) os ix cm 0 al" by blast
qed

text \<open>A path between phis is a path between their identities.\<close>

lemma system_edge:
  assumes S: "phi_system ps os ix g groups cm"
  shows "(i, j) \<in> edges g \<longleftrightarrow> i < length ps \<and> j < length ps \<and> os ! j \<in> reads (ps ! i)"
proof -
  have "(i, j) \<in> edges g \<longleftrightarrow> i < length ps \<and> (\<exists>o'\<in>reads (ps ! i). ix o' = Some j)"
    using S by (auto simp: phi_system_def equations_def edges_iff)
  then show ?thesis using index [OF S] by auto
qed

lemma phi_reads_iff:
  "(a, o') \<in> phi_reads fn \<longleftrightarrow> (\<exists>n<length (Phis fn). map (identity_of fn) (Phis fn) ! n = a \<and> o' \<in> reads (Phis fn ! n))"
  by (auto simp: phi_reads_def in_set_conv_nth)

lemma path_iff:
  assumes S: "phi_system (Phis fn) os ix g groups cm" and os: "os = map (identity_of fn) (Phis fn)"
    and n: "n < length (Phis fn)" and m: "m < length (Phis fn)"
  shows "(n, m) \<in> (edges g)\<^sup>* \<longleftrightarrow> (os ! n, os ! m) \<in> (phi_reads fn)\<^sup>*"
proof
  assume "(n, m) \<in> (edges g)\<^sup>*"
  then show "(os ! n, os ! m) \<in> (phi_reads fn)\<^sup>*"
  proof (induction rule: rtrancl_induct)
    case (step i j)
    then have "(os ! i, os ! j) \<in> phi_reads fn" using system_edge [OF S] by (auto simp: phi_reads_iff os)
    with step.IH show ?case by (rule rtrancl_into_rtrancl)
  qed simp
next
  assume "(os ! n, os ! m) \<in> (phi_reads fn)\<^sup>*"
  have "\<forall>n<length (Phis fn). os ! n = a \<longrightarrow> (n, m) \<in> (edges g)\<^sup>*" if "(a, os ! m) \<in> (phi_reads fn)\<^sup>*" for a
    using that
  proof (induction rule: converse_rtrancl_induct)
    case base
    then show ?case using same_place [OF S] m by auto
  next
    case (step a b)
    show ?case
    proof (intro allI impI)
      fix n assume n: "n < length (Phis fn)" "os ! n = a"
      from step(1) obtain k where k: "k < length (Phis fn)" "os ! k = a" "b \<in> reads (Phis fn ! k)"
        by (auto simp: phi_reads_iff os)
      with n same_place [OF S] have [simp]: "k = n" by auto
      have "\<exists>j<length (Phis fn). os ! j = b"
        using step(2) m by (cases rule: converse_rtranclE) (auto simp: phi_reads_iff os)
      then obtain j where j: "j < length (Phis fn)" "os ! j = b" by blast
      with k have "(n, j) \<in> edges g" using system_edge [OF S] by auto
      moreover from step.IH j have "(j, m) \<in> (edges g)\<^sup>*" by blast
      ultimately show "(n, m) \<in> (edges g)\<^sup>*" by (rule converse_rtrancl_into_rtrancl)
    qed
  qed
  with n \<open>(os ! n, os ! m) \<in> (phi_reads fn)\<^sup>*\<close> show "(n, m) \<in> (edges g)\<^sup>*" by blast
qed

lemma mutual_iff:
  assumes S: "phi_system (Phis fn) os ix g groups cm" and os: "os = map (identity_of fn) (Phis fn)"
    and n: "n < length (Phis fn)" and m: "m < length (Phis fn)"
  shows "mutual fn (os ! n) (os ! m) \<longleftrightarrow> cm n = cm m"
  using grouped_scc [of g groups cm n m] path_iff [OF S os n m] path_iff [OF S os m n] S n m
  by (simp add: mutual_def phi_system_def)

lemma mutual_phi:
  assumes "mutual fn a b" and "a \<in> identity_of fn ` set (Phis fn)"
  shows "b \<in> identity_of fn ` set (Phis fn)"
proof -
  from assms(1) have "(b, a) \<in> (phi_reads fn)\<^sup>*" by (simp add: mutual_def)
  then show ?thesis using assms(2) by (cases rule: converse_rtranclE) (auto simp: phi_reads_def)
qed

lemma entering_outside:
  assumes S: "phi_system (Phis fn) os ix g groups cm" and os: "os = map (identity_of fn) (Phis fn)"
    and n: "n < length (Phis fn)" and c: "cm n = Some c"
  shows "entering (Phis fn) ix cm al c = outside_values fn al (os ! n)"
proof -
  have ins: "inside ix cm c o' \<longleftrightarrow> mutual fn (os ! n) o'" for o'
  proof
    assume "inside ix cm c o'"
    then obtain j where "ix o' = Some j" "cm j = Some c" by (auto simp: inside_def)
    with mutual_iff [OF S os n, of j] c index [OF S] show "mutual fn (os ! n) o'" by auto
  next
    assume m: "mutual fn (os ! n) o'"
    have "os ! n \<in> identity_of fn ` set (Phis fn)" using n by (auto simp: os)
    from mutual_phi [OF m this] obtain j where j: "j < length (Phis fn)" "os ! j = o'"
      by (auto simp: os in_set_conv_nth)
    with mutual_iff [OF S os n j(1)] m c index [OF S, of o' j] show "inside ix cm c o'" by (auto simp: inside_def)
  qed
  have "o' \<in> reads (Phis fn ! k) \<and> cm k = Some c \<longleftrightarrow> o' \<in> reads (Phis fn ! k) \<and> mutual fn (os ! n) (identity_of fn (Phis fn ! k))"
    if "k < length (Phis fn)" for k o'
    using mutual_iff [OF S os n that] c that by (auto simp: os)
  then show ?thesis unfolding entering_def outside_values_def ins by (fastforce simp: in_set_conv_nth)
qed

text \<open>The aliases solve the equations, and leave no component that has one value.\<close>

lemma phi_aliases_solve:
  assumes A: "phi_aliases ch fn w = (Inr (os, al), w')"
  shows "al a = Some x \<Longrightarrow> al x = None \<and> (\<exists>p\<in>set (Phis fn). identity_of fn p = a \<and> (\<forall>o'\<in>reads p. resolve al o' = x))"
    and "p \<in> set (Phis fn) \<Longrightarrow>
      (case al (identity_of fn p) of
         Some x \<Rightarrow> outside_values fn al (identity_of fn p) = {x}
       | None \<Rightarrow> \<exists>x y. {x, y} \<subseteq> outside_values fn al (identity_of fn p) \<and> x \<noteq> y)"
proof -
  note os = phi_aliases_Inr(1) [OF A]
  from phi_aliases_Inr(2) [OF A] obtain ix g groups cm where S: "phi_system (Phis fn) os ix g groups cm"
    and R: "resolved (Phis fn) os ix cm 0 al" by blast
  have comps: "case al (os ! n) of
      Some x \<Rightarrow> entering (Phis fn) ix cm al c = {x} \<and> (\<forall>m<length (Phis fn). cm m = Some c \<longrightarrow> al (os ! m) = Some x)
    | None \<Rightarrow> \<exists>x y. {x, y} \<subseteq> entering (Phis fn) ix cm al c \<and> x \<noteq> y"
    if "n < length (Phis fn)" "cm n = Some c" for n c
    using R that unfolding resolved_def by blast
  show "al x = None \<and> (\<exists>p\<in>set (Phis fn). identity_of fn p = a \<and> (\<forall>o'\<in>reads p. resolve al o' = x))" if a: "al a = Some x"
  proof -
    from R a obtain n c where nc: "ix a = Some n" "cm n = Some c" and x: "al x = None" unfolding resolved_def by blast
    then have n: "n < length (Phis fn)" "os ! n = a" using index [OF S] by auto
    from comps [OF n(1) nc(2)] n a have e: "entering (Phis fn) ix cm al c = {x}"
      and s: "\<forall>m<length (Phis fn). cm m = Some c \<longrightarrow> al (os ! m) = Some x" by auto
    have "resolve al o' = x" if o': "o' \<in> reads (Phis fn ! n)" for o'
    proof (cases "inside ix cm c o'")
      case True
      then obtain j where "ix o' = Some j" "cm j = Some c" by (auto simp: inside_def)
      with s index [OF S] show ?thesis by (auto simp: resolve_def)
    next
      case False
      with n nc o' have "resolve al o' \<in> entering (Phis fn) ix cm al c" by (auto simp: entering_def)
      with e show ?thesis by simp
    qed
    with n x show ?thesis by (auto simp: os intro!: bexI [of _ "Phis fn ! n"])
  qed
  show "case al (identity_of fn p) of
         Some x \<Rightarrow> outside_values fn al (identity_of fn p) = {x}
       | None \<Rightarrow> \<exists>x y. {x, y} \<subseteq> outside_values fn al (identity_of fn p) \<and> x \<noteq> y" if "p \<in> set (Phis fn)"
  proof -
    from that obtain n where n: "n < length (Phis fn)" "Phis fn ! n = p" by (auto simp: in_set_conv_nth)
    then obtain c where c: "cm n = Some c" using S by (auto simp: phi_system_def)
    have "os ! n = identity_of fn p" using n by (simp add: os)
    with comps [OF n(1) c] entering_outside [OF S os n(1) c, of al] show ?thesis by (auto split: option.splits)
  qed
qed

section \<open>The rewritten function\<close>

definition rewrite_block :: "aliases \<Rightarrow> BlockFrame \<Rightarrow> BlockFrame" where
  "rewrite_block al b = b\<lparr>InOrig := map (resolve al) (InOrig b), OutOrig := map (resolve al) (OutOrig b)\<rparr>"

definition rewrite_instr :: "aliases \<Rightarrow> InstructionValues \<Rightarrow> InstructionValues" where
  "rewrite_instr al x =
     x\<lparr>BeforeOrigins := map (resolve al) (BeforeOrigins x), Uses := map (resolve al) (Uses x),
       Results := map (resolve al) (Results x)\<rparr>"

definition rewrite_state :: "aliases \<Rightarrow> EdgeState \<Rightarrow> EdgeState" where
  "rewrite_state al st = st\<lparr>ES_Origins := map (resolve al) (ES_Origins st)\<rparr>"

definition rewrite_phi :: "aliases \<Rightarrow> nat \<Rightarrow> Phi \<Rightarrow> Phi" where
  "rewrite_phi al i p = p\<lparr>P_ID := word_of_nat i, Operands := map (resolve_operand al) (Operands p)\<rparr>"

definition rewritten :: "aliases \<Rightarrow> ssa_fun \<Rightarrow> ssa_fun" where
  "rewritten al fn =
     fn\<lparr>F_Blocks := map (rewrite_block al) (F_Blocks fn), Instructions := map (rewrite_instr al) (Instructions fn),
        EdgeStates := (\<lambda>i. map_option (rewrite_state al) (EdgeStates fn i)),
        Phis := map (\<lambda>(i, p). rewrite_phi al i p)
          (List.enumerate 1 (filter (\<lambda>p. al (identity_of fn p) = None) (Phis fn)))\<rparr>"

lemma rewrite_Inr: "rewrite ch al os w = (Inr os', w') \<Longrightarrow> os' = map (resolve al) os"
  by (auto simp: rewrite_def r_bind_Inr)

lemma rewrite_blocks_Inr: "rewrite_blocks ch al bs w = (Inr bs', w') \<Longrightarrow> bs' = map (rewrite_block al) bs"
  by (induction bs arbitrary: bs' w w') (auto simp: r_bind_Inr rewrite_block_def dest!: rewrite_Inr)

lemma rewrite_instrs_Inr: "rewrite_instrs ch al xs w = (Inr xs', w') \<Longrightarrow> xs' = map (rewrite_instr al) xs"
  by (induction xs arbitrary: xs' w w') (auto simp: r_bind_Inr rewrite_instr_def dest!: rewrite_Inr)

lemma rewrite_states_Inr:
  "rewrite_states ch al es m w = (Inr m', w') \<Longrightarrow> distinct es \<Longrightarrow>
     m' = (\<lambda>i. if i \<in> set es then map_option (rewrite_state al) (m i) else m i)"
proof (induction es arbitrary: m w)
  case (Cons i es)
  show ?case
  proof (cases "m i")
    case None
    with Cons.prems have "rewrite_states ch al es m w = (Inr m', w')" by simp
    from Cons.IH [OF this] Cons.prems(2) None show ?thesis by (auto simp: fun_eq_iff)
  next
    case (Some st)
    with Cons.prems(1) obtain w1 where "rewrite_states ch al es (m(i \<mapsto> rewrite_state al st)) w1 = (Inr m', w')"
      by (auto simp: r_bind_Inr rewrite_state_def dest!: rewrite_Inr)
    from Cons.IH [OF this] Cons.prems(2) Some show ?thesis by (auto simp: fun_eq_iff)
  qed
qed simp

lemma retain_phis_Inr:
  "retain_phis ch al (map (\<lambda>p. (f p, p)) ps) out w = (Inr ps', w') \<Longrightarrow>
     ps' = out @ map (\<lambda>(i, p). rewrite_phi al i p) (List.enumerate (Suc (length out)) (filter (\<lambda>p. al (f p) = None) ps))"
proof (induction ps arbitrary: out w)
  case (Cons p ps)
  show ?case
  proof (cases "al (f p)")
    case None
    with Cons.prems obtain w1 where
      "retain_phis ch al (map (\<lambda>p. (f p, p)) ps) (out @ [rewrite_phi al (Suc (length out)) p]) w1 = (Inr ps', w')"
      by (auto simp: r_bind_Inr rewrite_phi_def)
    from Cons.IH [OF this] None show ?thesis by simp
  qed (use Cons in auto)
qed simp

lemma resolve_none [simp]: "resolve Map.empty = (\<lambda>x. x)"
  by (simp add: resolve_def fun_eq_iff)

lemma rewritten_none: "Phis fn = [] \<Longrightarrow> rewritten Map.empty fn = fn"
proof -
  assume "Phis fn = []"
  moreover have "rewrite_block Map.empty = id" "rewrite_instr Map.empty = id" "rewrite_state Map.empty = id"
    by (simp_all add: rewrite_block_def rewrite_instr_def rewrite_state_def fun_eq_iff)
  ultimately show ?thesis by (simp add: rewritten_def option.map_id0)
qed

lemma simplify_Inr:
  assumes s: "simplifyPhiCopies ch es fn w = (Inr fn', w')" and d: "distinct es" and e: "set es = dom (EdgeStates fn)"
  obtains os al w1 where "phi_aliases ch fn w = (Inr (os, al), w1)" and "fn' = rewritten al fn"
    | "Phis fn = []" and "fn' = rewritten Map.empty fn"
proof (cases "Phis fn = []")
  case True
  with s that(2) rewritten_none [OF True] show ?thesis by (simp add: simplifyPhiCopies_def)
next
  case False
  with s obtain os al w1 bs w2 xs w3 sts w4 ps w5 where a: "phi_aliases ch fn w = (Inr (os, al), w1)"
    and b: "rewrite_blocks ch al (F_Blocks fn) w1 = (Inr bs, w2)"
    and x: "rewrite_instrs ch al (Instructions fn) w2 = (Inr xs, w3)"
    and t: "rewrite_states ch al es (EdgeStates fn) w3 = (Inr sts, w4)"
    and p: "retain_phis ch al (zip os (Phis fn)) [] w4 = (Inr ps, w5)"
    and fn': "fn' = fn\<lparr>F_Blocks := bs, Instructions := xs, EdgeStates := sts, Phis := ps\<rparr>"
    by (auto simp: simplifyPhiCopies_def r_bind_Inr)
  have z: "zip os (Phis fn) = map (\<lambda>p. (identity_of fn p, p)) (Phis fn)"
    by (simp add: phi_aliases_Inr(1) [OF a] zip_map1 zip_same_conv_map)
  have "sts = (\<lambda>i. map_option (rewrite_state al) (EdgeStates fn i))"
    using rewrite_states_Inr [OF t d] e by (auto simp: fun_eq_iff)
  with rewrite_blocks_Inr [OF b] rewrite_instrs_Inr [OF x] retain_phis_Inr [OF p [unfolded z]]
  have "fn' = rewritten al fn" by (simp add: fn' rewritten_def)
  with a show ?thesis by (rule that(1))
qed

section \<open>Properties\<close>

text \<open>C5: the simplification of phis is sound: it replaces values by an idempotent substitution whose
  domain are phis, and every phi it removes had one value, since after the substitution all of its operands
  denote the value that replaced it; everything that the function keeps is rewritten by the same substitution.\<close>

theorem simplifyPhiCopies_sound:
  assumes "simplifyPhiCopies ch es fn w = (Inr fn', w')" and "distinct es" and "set es = dom (EdgeStates fn)"
  shows "\<exists>al. fn' = rewritten al fn \<and>
    (\<forall>a x. al a = Some x \<longrightarrow> al x = None \<and>
      (\<exists>p\<in>set (Phis fn). identity_of fn p = a \<and> (\<forall>o'\<in>reads p. resolve al o' = x)))"
  using simplify_Inr [OF assms]
proof cases
  case (1 os al w1)
  with phi_aliases_solve(1) [OF 1(1)] show ?thesis by blast
next
  case 2
  then show ?thesis by (intro exI [of _ Map.empty]) simp
qed

text \<open>C3: exactly the copies are removed: a phi goes if a single value enters its strongly connected
  component of phis from outside, and is then replaced by that value; it stays if two values enter that are
  still different after the simplification.\<close>

theorem simplifyPhiCopies_exact:
  assumes "simplifyPhiCopies ch es fn w = (Inr fn', w')" and "distinct es" and "set es = dom (EdgeStates fn)"
  shows "\<exists>al. fn' = rewritten al fn \<and>
    (\<forall>p\<in>set (Phis fn). case al (identity_of fn p) of
       Some x \<Rightarrow> outside_values fn al (identity_of fn p) = {x}
     | None \<Rightarrow> \<exists>x y. {x, y} \<subseteq> outside_values fn al (identity_of fn p) \<and> x \<noteq> y)"
  using simplify_Inr [OF assms]
proof cases
  case (1 os al w1)
  with phi_aliases_solve(2) [OF 1(1)] show ?thesis by blast
next
  case 2
  then show ?thesis by (intro exI [of _ Map.empty]) simp
qed

section \<open>Two phis that swap one value\<close>

text \<open>Two locals hold the parameter and are exchanged by the loop: both phis go.\<close>

definition swap_phi :: "u32 \<Rightarrow> nat \<Rightarrow> nat \<Rightarrow> Phi" where
  "swap_phi i slot other =
     \<lparr>P_ID = i, P_Block = 0, P_Slot = \<lparr>S_Local = True, S_Index = int slot\<rparr>, P_Type = T IntK,
      Operands =
        [\<lparr>PO_Edge = \<lparr>ID_From = 0, ID_To = 0, ID_Kind = EntryEdgeKind, ID_CaseValue = 0, ID_HandlerOrder = 0\<rparr>,
          PO_Origin = param_origin 0, PO_Val = 0\<rparr>,
         \<lparr>PO_Edge = \<lparr>ID_From = 9, ID_To = 0, ID_Kind = EdgeTaken, ID_CaseValue = 0, ID_HandlerOrder = 0\<rparr>,
          PO_Origin = phi_origin 0 0 other, PO_Val = 0\<rparr>]\<rparr>"

definition swap_block :: BlockFrame where
  "swap_block =
     \<lparr>Reachable = True, BF_ID = 0, First = 0, BF_In = NewFrame 2, BF_Out = NewFrame 2,
      InOrig = [phi_origin 0 0 0, phi_origin 0 0 1], OutOrig = [phi_origin 0 0 1, phi_origin 0 0 0]\<rparr>"

definition swap_fun :: ssa_fun where
  "swap_fun =
     \<lparr>Values = [], EdgeStates = Map.empty, Instructions = [], entryEdge = None, incoming = None, F_IR = None,
      F_Blocks = [swap_block], Phis = [swap_phi 1 0 1, swap_phi 2 1 0], Params = [], Work = 0\<rparr>"

definition swap_aliases :: aliases where
  "swap_aliases = [phi_origin 0 0 1 \<mapsto> param_origin 0, phi_origin 0 0 0 \<mapsto> param_origin 0]"

definition swap_index :: phi_index where
  "swap_index = [phi_origin 0 0 0 \<mapsto> 0, phi_origin 0 0 1 \<mapsto> 1]"

lemma swap_simps [simp]:
  "phi_identity swap_block (swap_phi i s t) = phi_origin 0 0 s" "P_Block (swap_phi i s t) = 0" "BF_ID swap_block = 0"
  "O_Kind (phi_origin pc b k) = OriginPhi" "O_Kind (param_origin k) = OriginParam"
  "phi_origin pc b k = phi_origin pc b l \<longleftrightarrow> k = l" "param_origin k \<noteq> phi_origin pc b l"
  by (simp_all add: phi_identity_def swap_block_def swap_phi_def phi_origin_def param_origin_def)

lemma swap_operands [simp]: "map PO_Origin (Operands (swap_phi i s t)) = [param_origin 0, phi_origin 0 0 t]"
  by (simp add: swap_phi_def)

lemma swap_forward: "forward_edges no_charge swap_index [swap_phi 1 0 1, swap_phi 2 1 0] [] = r_ret [[1], [0]]"
  by (simp add: swap_phi_def swap_index_def)

lemma swap_visits: "visit_starts no_charge [[1], [0]] [0, 1] {} [] = r_ret [1, 0]"
  by (simp add: visit_all.simps(2) succs_def)

lemma swap_groups: "group_phis no_charge (reverse_edges [[1], [0]]) [0, 1] [] Map.empty = r_ret ([[0, 1]], [0 \<mapsto> 0, 1 \<mapsto> 0])"
proof -
  have "reverse_edges [[1], [0]] = [[1], [0]]" by code_simp
  then show ?thesis by (simp add: flood.simps(2) succs_def)
qed

lemma swap_alias:
  "alias_groups no_charge [swap_phi 1 0 1, swap_phi 2 1 0] [phi_origin 0 0 0, phi_origin 0 0 1] swap_index
     [0 \<mapsto> 0, 1 \<mapsto> 0] [(0, [0, 1])] Map.empty = r_ret swap_aliases"
  by (simp add: group_operands_def enter_def swap_index_def swap_aliases_def fun_eq_iff)

lemma swap_phi_aliases: "phi_aliases no_charge swap_fun = r_ret ([phi_origin 0 0 0, phi_origin 0 0 1], swap_aliases)"
proof -
  have i: "index_phis no_charge [0 \<mapsto> swap_block] [swap_phi 1 0 1, swap_phi 2 1 0] [] Map.empty =
      r_ret ([phi_origin 0 0 0, phi_origin 0 0 1], swap_index)"
    by (simp add: Let_def swap_index_def)
  have l: "[0..<length [swap_phi 1 0 1, swap_phi 2 1 0]] = [0, 1]" "rev [1, 0 :: nat] = [0, 1]"
    "rev (zip [0..<length [[0, 1 :: nat]]] [[0, 1]]) = [(0, [0, 1])]" by (simp_all add: upt_rec)
  show ?thesis
    by (simp only: phi_aliases_def swap_fun_def ssa_fun.select_convs index_blocks.simps swap_simps ret_bind prod.case i
        swap_forward l swap_visits swap_groups swap_alias)
qed

lemma swap_run:
  "simplifyPhiCopies no_charge [] swap_fun = r_ret (swap_fun
     \<lparr>F_Blocks := [swap_block\<lparr>InOrig := [param_origin 0, param_origin 0], OutOrig := [param_origin 0, param_origin 0]\<rparr>],
      Phis := []\<rparr>)"
proof -
  have "Phis swap_fun \<noteq> []" by (simp add: swap_fun_def)
  then show ?thesis
    by (simp add: simplifyPhiCopies_def swap_phi_aliases rewrite_def)
       (simp add: swap_fun_def rewrite_def swap_block_def resolve_def swap_aliases_def)
qed

text \<open>After the run no phi is left, and both locals are the parameter.\<close>

theorem simplifyPhiCopies_sound_witness:
  "\<exists>fn' al. simplifyPhiCopies no_charge [] swap_fun () = (Inr fn', ()) \<and> fn' = rewritten al swap_fun \<and> Phis fn' = [] \<and>
     (\<forall>a x. al a = Some x \<longrightarrow> (\<exists>p\<in>set (Phis swap_fun). \<forall>o'\<in>reads p. resolve al o' = x))"
  using simplifyPhiCopies_sound [of no_charge "[]" swap_fun "()"]
  by (simp add: swap_run r_ret_def) (auto simp: swap_fun_def)

theorem simplifyPhiCopies_exact_witness:
  "\<exists>fn' al. simplifyPhiCopies no_charge [] swap_fun () = (Inr fn', ()) \<and> fn' = rewritten al swap_fun \<and> Phis fn' = [] \<and>
     (case al (phi_origin 0 0 0) of Some x \<Rightarrow> outside_values swap_fun al (phi_origin 0 0 0) = {x} | None \<Rightarrow> False)"
proof -
  let ?fn = "swap_fun\<lparr>F_Blocks := [swap_block\<lparr>InOrig := [param_origin 0, param_origin 0], OutOrig := [param_origin 0, param_origin 0]\<rparr>],
    Phis := []\<rparr>"
  have r: "simplifyPhiCopies no_charge [] swap_fun () = (Inr ?fn, ())" by (simp add: swap_run r_ret_def)
  have i: "identity_of swap_fun (swap_phi 1 0 1) = phi_origin 0 0 0"
    by (simp add: identity_of_def block_named_def swap_fun_def)
  have p: "swap_phi 1 0 1 \<in> set (Phis swap_fun)" by (simp add: swap_fun_def)
  have "distinct ([] :: EdgeID list)" "set [] = dom (EdgeStates swap_fun)" by (simp_all add: swap_fun_def)
  from simplifyPhiCopies_exact [OF r this] p obtain al where al: "?fn = rewritten al swap_fun"
    and c: "case al (identity_of swap_fun (swap_phi 1 0 1)) of
       Some x \<Rightarrow> outside_values swap_fun al (identity_of swap_fun (swap_phi 1 0 1)) = {x}
     | None \<Rightarrow> \<exists>x y. {x, y} \<subseteq> outside_values swap_fun al (identity_of swap_fun (swap_phi 1 0 1)) \<and> x \<noteq> y"
    by blast
  have gone: "Phis (rewritten al swap_fun) = []" unfolding al [symmetric] by simp
  then have "al (phi_origin 0 0 0) \<noteq> None" using i by (auto simp: rewritten_def swap_fun_def enumerate_eq_zip split: if_splits)
  with c i r al gone show ?thesis by (intro exI [of _ ?fn] exI [of _ al]) (auto split: option.splits)
qed

end
