(* ===== verification/ValueNumbers.thy ===== *)
theory ValueNumbers
  imports SsaBuild PhiCopiesProps
begin

text \<open>The numbers that \<open>bindValues\<close> gives: one for every value of a function.\<close>

section \<open>The result\<close>

definition bound :: "value_ids \<Rightarrow> EdgeID list \<Rightarrow> ssa_fun \<Rightarrow> ssa_fun" where
  "bound m es fn =
     fn\<lparr>Values := sort_key VD_ID (Values fn @
          map (\<lambda>o'. \<lparr>VD_ID = value_id m o', VD_Origin = o'\<rparr>) (sort_key OriginKey (used_origins es fn))),
        Phis := map (bind_phi m) (Phis fn), Instructions := map (bind_instr m) (Instructions fn),
        Params := Params fn @ entry_params m fn\<rparr>"

lemma bindValues_Inr:
  assumes "bindValues ch es fn w = (Inr fn', w')"
  obtains m where "number_values es fn = Inr m" and "fn' = bound m es fn"
  using assms by (auto simp: bindValues_def bound_def r_bind_Inr)

section \<open>The numbers of the values\<close>

definition bound_identity :: "ssa_fun \<Rightarrow> Phi \<Rightarrow> Origin" where
  "bound_identity fn p = phi_identity (the (find (\<lambda>b. BF_ID b = P_Block p) (F_Blocks fn))) p"

lemma phi_values_Inr:
  "phi_values bs ps m = Inr m' \<Longrightarrow>
     m' = m ++ map_of (rev (map (\<lambda>p. (phi_identity (the (find (\<lambda>b. BF_ID b = P_Block p) bs)) p, P_ID p)) ps))"
proof (induction ps arbitrary: m)
  case (Cons p ps)
  then obtain b where "find (\<lambda>b. BF_ID b = P_Block p) bs = Some b" and "phi_values bs ps (m(phi_identity b p \<mapsto> P_ID p)) = Inr m'"
    by (auto split: option.splits)
  with Cons.IH [OF this(2)] show ?case by (intro ext) (simp add: map_add_def split: option.split)
qed simp

text \<open>What is numbered gets consecutive numbers; nothing else changes.\<close>

lemma number_origins_Inr:
  "number_origins os m (word_of_nat n) = Inr m' \<Longrightarrow> distinct os \<Longrightarrow>
     \<exists>r. (\<forall>o'\<in>set os. m o' = None \<longrightarrow> m' o' = Some (word_of_nat (r o')) \<and> n \<le> r o' \<and> r o' < n + length os) \<and>
       inj_on r {o'\<in>set os. m o' = None} \<and> (\<forall>o'. o' \<notin> set os \<or> m o' \<noteq> None \<longrightarrow> m' o' = m o')"
proof (induction os arbitrary: m n)
  case (Cons x os)
  show ?case
  proof (cases "m x = None")
    case False
    with Cons.prems have "number_origins os m (word_of_nat n) = Inr m'" "distinct os" by simp_all
    from Cons.IH [OF this] obtain r where
      r: "\<forall>o'\<in>set os. m o' = None \<longrightarrow> m' o' = Some (word_of_nat (r o')) \<and> n \<le> r o' \<and> r o' < n + length os"
      and i: "inj_on r {o'\<in>set os. m o' = None}" and s: "\<forall>o'. o' \<notin> set os \<or> m o' \<noteq> None \<longrightarrow> m' o' = m o'" by blast
    have "{o'\<in>set (x # os). m o' = None} = {o'\<in>set os. m o' = None}" using False by auto
    with r i s False show ?thesis by (intro exI [of _ r]) auto
  next
    case True
    let ?m = "m(x \<mapsto> word_of_nat n)"
    from True Cons.prems have "number_origins os ?m (word_of_nat (Suc n)) = Inr m'" and d: "distinct os" "x \<notin> set os"
      by (auto simp: add.commute split: if_splits)
    from Cons.IH [OF this(1) d(1)] obtain r where
      r: "\<forall>o'\<in>set os. ?m o' = None \<longrightarrow> m' o' = Some (word_of_nat (r o')) \<and> Suc n \<le> r o' \<and> r o' < Suc n + length os"
      and i: "inj_on r {o'\<in>set os. ?m o' = None}" and s: "\<forall>o'. o' \<notin> set os \<or> ?m o' \<noteq> None \<longrightarrow> m' o' = ?m o'" by blast
    define r' where "r' = r(x := n)"
    have x: "m' x = Some (word_of_nat n)" using s by simp
    have old: "o' \<noteq> x \<Longrightarrow> ?m o' = m o'" for o' by simp
    have set: "{o'\<in>set (x # os). m o' = None} = insert x {o'\<in>set os. ?m o' = None}" using True d(2) by auto
    have r'_old: "r' o' = r o'" if "o' \<in> set os" for o' using that d(2) by (auto simp: r'_def)
    have "inj_on r' {o'\<in>set os. ?m o' = None}"
      by (rule inj_on_cong [THEN iffD1, OF _ i]) (simp add: r'_old)
    moreover have "r' x \<notin> r' ` ({o'\<in>set os. ?m o' = None} - {x})"
    proof
      assume "r' x \<in> r' ` ({o'\<in>set os. ?m o' = None} - {x})"
      then obtain o' where o': "o' \<in> set os" "?m o' = None" "r' x = r' o'" by blast
      with r have "Suc n \<le> r o'" by blast
      with o' r'_old [OF o'(1)] show False by (simp add: r'_def)
    qed
    ultimately have "inj_on r' {o'\<in>set (x # os). m o' = None}" unfolding set by simp
    moreover have "\<forall>o'\<in>set (x # os). m o' = None \<longrightarrow> m' o' = Some (word_of_nat (r' o')) \<and> n \<le> r' o' \<and> r' o' < n + length (x # os)"
    proof (intro ballI impI)
      fix o' assume o': "o' \<in> set (x # os)" "m o' = None"
      show "m' o' = Some (word_of_nat (r' o')) \<and> n \<le> r' o' \<and> r' o' < n + length (x # os)"
      proof (cases "o' = x")
        case False
        with o' old have "o' \<in> set os" "?m o' = None" by simp_all
        with r have "m' o' = Some (word_of_nat (r o')) \<and> Suc n \<le> r o' \<and> r o' < Suc n + length os" by blast
        with False show ?thesis by (simp add: r'_def)
      qed (simp add: r'_def x)
    qed
    moreover have "\<forall>o'. o' \<notin> set (x # os) \<or> m o' \<noteq> None \<longrightarrow> m' o' = m o'" using s True by auto
    ultimately show ?thesis by blast
  qed
qed simp

lemma distinct_used: "distinct (sort_key OriginKey (used_origins es fn))"
  by (simp add: used_origins_def)

text \<open>The numbers come from numbers below the bound, each given once.\<close>

definition numbering :: "value_ids \<Rightarrow> Origin set \<Rightarrow> nat \<Rightarrow> bool" where
  "numbering m A n \<longleftrightarrow> (\<exists>r. inj_on r A \<and> (\<forall>o'\<in>A. m o' = Some (word_of_nat (r o')) \<and> 0 < r o' \<and> r o' < n))"

lemma numbering_inj:
  assumes "numbering m A n" and "n \<le> 2 ^ 32"
  shows "inj_on (value_id m) A" and "\<forall>o'\<in>A. value_id m o' \<noteq> 0"
proof -
  from assms(1) obtain r where i: "inj_on r A" and r: "\<And>o'. o' \<in> A \<Longrightarrow> m o' = Some (word_of_nat (r o')) \<and> 0 < r o' \<and> r o' < n"
    unfolding numbering_def by blast
  have u: "unat (value_id m o') = r o'" if "o' \<in> A" for o'
    using r [OF that] assms(2) by (simp add: value_id_def unsigned_of_nat take_bit_nat_eq_self)
  show "inj_on (value_id m) A" by (rule inj_onI) (metis i inj_onD u)
  show "\<forall>o'\<in>A. value_id m o' \<noteq> 0" using u r by (metis bot_nat_0.not_eq_extremum unat_0)
qed

lemma number_values_Inr:
  assumes nv: "number_values es fn = Inr m" and ids: "map P_ID (Phis fn) = map word_of_nat [1..<Suc (length (Phis fn))]"
    and d: "distinct (map (bound_identity fn) (Phis fn))"
  shows "numbering m (bound_identity fn ` set (Phis fn) \<union> set (used_origins es fn))
      (length (Phis fn) + length (used_origins es fn) + 1)"
    and "\<forall>p\<in>set (Phis fn). m (bound_identity fn p) = Some (P_ID p)"
proof -
  let ?I = "bound_identity fn ` set (Phis fn)" and ?n = "length (Phis fn)" and ?os = "sort_key OriginKey (used_origins es fn)"
  let ?f = "\<lambda>k. bound_identity fn (Phis fn ! k)" and ?xs = "map (\<lambda>p. (bound_identity fn p, P_ID p)) (Phis fn)"
  from nv obtain m1 where "phi_values (F_Blocks fn) (Phis fn) Map.empty = Inr m1"
    and no: "number_origins ?os m1 (word_of_nat (?n + 1)) = Inr m"
    by (auto simp: number_values_def)
  from phi_values_Inr [OF this(1)] have m1: "m1 = map_of (rev ?xs)" by (simp add: bound_identity_def)
  have "map fst ?xs = map (bound_identity fn) (Phis fn)" by simp
  then have "distinct (map fst (rev ?xs))" using d by (simp only: rev_map [symmetric] distinct_rev)
  then have phi: "m1 (bound_identity fn p) = Some (P_ID p)" if "p \<in> set (Phis fn)" for p
    unfolding m1 by (rule map_of_is_SomeI) (use that in auto)
  have none: "m1 o' = None" if "o' \<notin> ?I" for o'
    using that by (auto simp: m1 map_of_eq_None_iff)
  from number_origins_Inr [OF no distinct_used] obtain r where
    r: "\<And>o'. o' \<in> set (used_origins es fn) \<Longrightarrow> m1 o' = None \<Longrightarrow>
      m o' = Some (word_of_nat (r o')) \<and> ?n + 1 \<le> r o' \<and> r o' < ?n + 1 + length (used_origins es fn)"
    and i: "inj_on r {o'\<in>set (used_origins es fn). m1 o' = None}" and s: "\<And>o'. m1 o' \<noteq> None \<Longrightarrow> m o' = m1 o'"
    by (auto simp: length_sort)
  have phi': "m (bound_identity fn p) = Some (P_ID p)" if "p \<in> set (Phis fn)" for p using phi [OF that] s by simp
  then show "\<forall>p\<in>set (Phis fn). m (bound_identity fn p) = Some (P_ID p)" by blast
  have inj: "inj_on ?f {..<?n}" using d by (auto simp: distinct_conv_nth inj_on_def)
  have I: "?I = ?f ` {..<?n}" by (force simp: in_set_conv_nth)
  define q where "q = (\<lambda>o'. if o' \<in> ?I then Suc (inv_into {..<?n} ?f o') else r o')"
  have q_phi: "\<exists>k<?n. q o' = Suc k \<and> m o' = Some (word_of_nat (Suc k)) \<and> o' = ?f k" if "o' \<in> ?I" for o'
  proof -
    from that obtain k where k: "k < ?n" "o' = ?f k" unfolding I by auto
    then have "q o' = Suc k" using that inv_into_f_f [OF inj, of k] by (simp add: q_def)
    moreover have "m o' = Some (P_ID (Phis fn ! k))" using phi' k by simp
    moreover have "P_ID (Phis fn ! k) = map P_ID (Phis fn) ! k" using k by simp
    ultimately show ?thesis using k unfolding ids by (auto simp del: upt_Suc)
  qed
  have q_new: "m o' = Some (word_of_nat (q o')) \<and> ?n < q o' \<and> q o' \<le> ?n + length (used_origins es fn)"
    if "o' \<in> set (used_origins es fn)" "o' \<notin> ?I" for o'
    using r [OF that(1) none [OF that(2)]] that(2) by (auto simp: q_def)
  have "inj_on q (?I \<union> set (used_origins es fn))"
  proof (rule inj_onI)
    fix a b assume a: "a \<in> ?I \<union> set (used_origins es fn)" and b: "b \<in> ?I \<union> set (used_origins es fn)" and eq: "q a = q b"
    show "a = b"
    proof (cases "a \<in> ?I"; cases "b \<in> ?I")
      assume "a \<in> ?I" "b \<in> ?I"
      with q_phi [of a] q_phi [of b] eq show ?thesis by auto
    next
      assume n: "a \<in> ?I" "b \<notin> ?I"
      with q_phi [OF n(1)] q_new [of b] b eq show ?thesis by auto
    next
      assume n: "a \<notin> ?I" "b \<in> ?I"
      with q_phi [OF n(2)] q_new [of a] a eq show ?thesis by auto
    next
      assume n: "a \<notin> ?I" "b \<notin> ?I"
      with a b none have "a \<in> {o'\<in>set (used_origins es fn). m1 o' = None}" "b \<in> {o'\<in>set (used_origins es fn). m1 o' = None}"
        by blast+
      with i eq n show ?thesis by (auto simp: q_def inj_on_def)
    qed
  qed
  moreover have "m o' = Some (word_of_nat (q o')) \<and> 0 < q o' \<and> q o' < ?n + length (used_origins es fn) + 1"
    if "o' \<in> ?I \<union> set (used_origins es fn)" for o'
    using that q_phi [of o'] q_new [of o'] by (cases "o' \<in> ?I") auto
  ultimately show "numbering m (?I \<union> set (used_origins es fn)) (?n + length (used_origins es fn) + 1)"
    unfolding numbering_def by blast
qed

text \<open>C7: the numbering of values is a bijection: every origin that occurs in the function, dead slots apart,
  gets exactly one definition, no two get the same number and none gets zero; a phi is defined under its own
  number, and every operand of a phi refers to the definition of its origin.\<close>

theorem bindValues_unique:
  assumes "bindValues ch es fn w = (Inr fn', w')" and "Values fn = []"
    and "map P_ID (Phis fn) = map word_of_nat [1..<Suc (length (Phis fn))]"
    and "distinct (map (bound_identity fn) (Phis fn))"
    and "length (Phis fn) + length (used_origins es fn) < 2 ^ 32"
  shows "distinct (map VD_ID (Values fn')) \<and> 0 \<notin> VD_ID ` set (Values fn') \<and>
    distinct (map VD_Origin (Values fn')) \<and> VD_Origin ` set (Values fn') = set (used_origins es fn) \<and>
    (\<forall>p\<in>set (Phis fn). bound_identity fn p \<in> set (used_origins es fn) \<longrightarrow>
       \<lparr>VD_ID = P_ID p, VD_Origin = bound_identity fn p\<rparr> \<in> set (Values fn')) \<and>
    (\<forall>p\<in>set (Phis fn'). \<forall>op\<in>set (Operands p). O_Kind (PO_Origin op) \<noteq> OriginTop \<longrightarrow>
       \<lparr>VD_ID = PO_Val op, VD_Origin = PO_Origin op\<rparr> \<in> set (Values fn'))"
proof -
  from assms(1) obtain m where nv: "number_values es fn = Inr m" and fn': "fn' = bound m es fn" by (rule bindValues_Inr)
  let ?os = "sort_key OriginKey (used_origins es fn)" and ?d = "\<lambda>o'. \<lparr>VD_ID = value_id m o', VD_Origin = o'\<rparr>"
  note N = number_values_Inr [OF nv assms(3,4)]
  have inj: "inj_on (value_id m) (set (used_origins es fn))" and nz: "\<forall>o'\<in>set (used_origins es fn). value_id m o' \<noteq> 0"
    using numbering_inj [OF N(1)] assms(5) by (auto intro: inj_on_subset)
  have v: "Values fn' = sort_key VD_ID (map ?d ?os)" using assms(2) by (simp add: fn' bound_def)
  have set: "set (Values fn') = ?d ` set (used_origins es fn)" by (simp add: v)
  have d: "distinct (map VD_ID (map ?d ?os))" "distinct (map VD_Origin (map ?d ?os))"
    using inj distinct_used [of es fn] by (simp_all add: distinct_map comp_def)
  have "distinct (map f (Values fn'))" if "distinct (map f (map ?d ?os))" for f :: "ValueDefinition \<Rightarrow> 'b"
    using that unfolding v by (simp only: distinct_map distinct_sort set_sort)
  with d have "distinct (map VD_ID (Values fn'))" "distinct (map VD_Origin (Values fn'))" by blast+
  moreover have "0 \<notin> VD_ID ` set (Values fn')" using nz by (auto simp: set)
  moreover have "VD_Origin ` set (Values fn') = set (used_origins es fn)" by (force simp: set)
  moreover have "\<lparr>VD_ID = P_ID p, VD_Origin = bound_identity fn p\<rparr> \<in> set (Values fn')"
    if "p \<in> set (Phis fn)" "bound_identity fn p \<in> set (used_origins es fn)" for p
    using N(2) that by (force simp: set value_id_def)
  moreover have "\<lparr>VD_ID = PO_Val op, VD_Origin = PO_Origin op\<rparr> \<in> set (Values fn')"
    if p: "p \<in> set (Phis fn')" "op \<in> set (Operands p)" and k: "O_Kind (PO_Origin op) \<noteq> OriginTop" for p op
  proof -
    from p obtain p0 op0 where o0: "p0 \<in> set (Phis fn)" "op0 \<in> set (Operands p0)"
      and op: "op = op0\<lparr>PO_Val := value_id m (PO_Origin op0)\<rparr>"
      by (auto simp: fn' bound_def bind_phi_def)
    with k have "PO_Origin op0 \<in> set (used_origins es fn)" by (auto simp: used_origins_def)
    then show ?thesis by (auto simp: set op)
  qed
  ultimately show ?thesis by blast
qed

text \<open>The function of the two swapping phis: the phis are 1 and 2, the parameter is 3.\<close>

lemma swap_numbers:
  "case bindValues c_charge [] swap_fun \<lparr>CMax = 100, CUsed = 0\<rparr> of
     (Inr fn', _) \<Rightarrow> map VD_ID (Values fn') = [1, 2, 3] \<and>
       map VD_Origin (Values fn') = [phi_origin 0 0 0, phi_origin 0 0 1, param_origin 0]
   | _ \<Rightarrow> False"
  by code_simp

lemma swap_fresh:
  "Values swap_fun = []" "map P_ID (Phis swap_fun) = map word_of_nat [1..<Suc (length (Phis swap_fun))]"
  "distinct (map (bound_identity swap_fun) (Phis swap_fun))" "length (Phis swap_fun) + length (used_origins [] swap_fun) = 5"
  by code_simp+

theorem bindValues_unique_witness:
  "\<exists>fn' c. bindValues c_charge [] swap_fun \<lparr>CMax = 100, CUsed = 0\<rparr> = (Inr fn', c) \<and> map VD_ID (Values fn') = [1, 2, 3] \<and>
     (\<forall>p\<in>set (Phis fn'). \<forall>op\<in>set (Operands p). O_Kind (PO_Origin op) \<noteq> OriginTop \<longrightarrow>
        \<lparr>VD_ID = PO_Val op, VD_Origin = PO_Origin op\<rparr> \<in> set (Values fn'))"
proof -
  from swap_numbers obtain fn' c where b: "bindValues c_charge [] swap_fun \<lparr>CMax = 100, CUsed = 0\<rparr> = (Inr fn', c)"
    and v: "map VD_ID (Values fn') = [1, 2, 3]"
    by (auto split: prod.splits sum.splits)
  have "length (Phis swap_fun) + length (used_origins [] swap_fun) < 2 ^ 32" by (simp add: swap_fresh(4))
  from bindValues_unique [OF b swap_fresh(1-3) this] have
    "\<forall>p\<in>set (Phis fn'). \<forall>op\<in>set (Operands p). O_Kind (PO_Origin op) \<noteq> OriginTop \<longrightarrow>
        \<lparr>VD_ID = PO_Val op, VD_Origin = PO_Origin op\<rparr> \<in> set (Values fn')" by blast
  with b v show ?thesis by (intro exI [of _ fn'] exI [of _ c]) simp
qed

end
