(* ===== verification/SsaPhisProps.thy ===== *)
theory SsaPhisProps
  imports SsaPhis SolverFixpoint RunSteps
begin

text \<open>Which phis a solved function gets: one for every joined word, with an operand for every live edge.\<close>

section \<open>What is to be found\<close>

definition slot_operand :: "edgeFrames \<Rightarrow> SlotKey \<Rightarrow> ir_edge \<Rightarrow> PhiOperand" where
  "slot_operand ef sk e =
     \<lparr>PO_Edge = E_ID e, PO_Origin = origins_at ef (E_ID e) ! nat (operand_index ef sk (E_ID e)), PO_Val = 0\<rparr>"

text \<open>The slot is one of the origins that the edge carries.\<close>

definition in_range :: "edgeFrames \<Rightarrow> SlotKey \<Rightarrow> ir_edge \<Rightarrow> bool" where
  "in_range ef sk e \<longleftrightarrow>
     0 \<le> operand_index ef sk (E_ID e) \<and> operand_index ef sk (E_ID e) < int (length (origins_at ef (E_ID e)))"

definition carried_edges :: "edgeFrames \<Rightarrow> ir_edge list \<Rightarrow> ir_edge list" where
  "carried_edges ef es = filter (\<lambda>e. EF_orig ef (E_ID e) \<noteq> None) es"

definition joined_slot :: "BlockFrame \<Rightarrow> nat \<Rightarrow> bool" where
  "joined_slot b i \<longleftrightarrow>
     i < length (Locals (BF_In b)) + length (Stack (BF_In b)) \<and> \<not> no_value (slot_type b i) \<and>
     InOrig b ! i = phi_origin (First b) (BF_ID b) i"

definition slot_phi :: "edgeFrames \<Rightarrow> ir_edge list \<Rightarrow> BlockFrame \<Rightarrow> nat \<Rightarrow> ValueID \<Rightarrow> Phi" where
  "slot_phi ef preds b i n =
     \<lparr>P_ID = n, P_Block = BF_ID b, P_Slot = slot_at (length (Locals (BF_In b))) i, P_Type = DropValue (slot_type b i),
      Operands = sort_operands (map (slot_operand ef (slot_at (length (Locals (BF_In b))) i)) (carried_edges ef preds))\<rparr>"

definition joins :: "ssa_fun \<Rightarrow> BlockFrame \<Rightarrow> bool" where
  "joins fn b \<longleftrightarrow> Reachable b \<and> 2 \<le> length (Incoming (Some fn) (First b))"

text \<open>A phi without its number.\<close>

definition bare :: "Phi \<Rightarrow> Phi" where
  "bare p = p\<lparr>P_ID := 0\<rparr>"

lemma bare_simps [simp]:
  "phi_order (bare p) = phi_order p" "P_Block (bare p) = P_Block p" "P_Slot (bare p) = P_Slot p"
  "Operands (bare p) = Operands p" "bare (p\<lparr>P_ID := n\<rparr>) = bare p" "bare (slot_phi ef preds b i n) = slot_phi ef preds b i 0"
  by (simp_all add: bare_def phi_order_def slot_phi_def)

section \<open>The loops\<close>

lemma slot_operands_Inr:
  "slot_operands ch ef sk es ops w = (Inr r, w') \<Longrightarrow>
     r = ops @ map (slot_operand ef sk) (carried_edges ef es) \<and> (\<forall>e\<in>set (carried_edges ef es). in_range ef sk e)"
proof (induction es arbitrary: ops w)
  case (Cons e es)
  show ?case
  proof (cases "EF_orig ef (E_ID e)")
    case None
    with Cons.prems obtain w1 where "slot_operands ch ef sk es ops w1 = (Inr r, w')" by (auto simp: r_bind_Inr)
    from Cons.IH [OF this] None show ?thesis by (simp add: carried_edges_def)
  next
    case (Some og)
    with Cons.prems obtain w1 where i: "0 \<le> operand_index ef sk (E_ID e)" "operand_index ef sk (E_ID e) < int (length og)"
      and "slot_operands ch ef sk es (ops @ [slot_operand ef sk e]) w1 = (Inr r, w')"
      by (auto simp: r_bind_Inr Let_def slot_operand_def origins_at_def split: if_splits)
    from Cons.IH [OF this(3)] i Some show ?thesis by (simp add: carried_edges_def origins_at_def in_range_def)
  qed
qed (simp add: carried_edges_def)

lemma assign_slots_Inr:
  "assign_slots ch ef preds b is phis w = (Inr r, w') \<Longrightarrow>
     map bare r = map bare phis @
       map (\<lambda>i. slot_phi ef preds b i 0)
         (filter (\<lambda>i. \<not> no_value (slot_type b i) \<and> InOrig b ! i = phi_origin (First b) (BF_ID b) i) is)"
proof (induction "is" arbitrary: phis w)
  case (Cons i "is")
  show ?case
  proof (cases "no_value (slot_type b i)")
    case True
    with Cons show ?thesis by simp
  next
    case False
    let ?sk = "slot_at (length (Locals (BF_In b))) i"
    from False Cons.prems obtain ops w1 where o: "slot_operands ch ef ?sk preds [] w = (Inr ops, w1)"
      and r: "assign_slots ch ef preds b is
        (if InOrig b ! i \<noteq> phi_origin (First b) (BF_ID b) i then phis
         else phis @ [\<lparr>P_ID = word_of_nat (length phis + 1), P_Block = BF_ID b, P_Slot = ?sk,
                       P_Type = DropValue (slot_type b i), Operands = sort_operands ops\<rparr>]) w1 = (Inr r, w')"
      by (auto simp: r_bind_Inr Let_def)
    from slot_operands_Inr [OF o] Cons.IH [OF r] False show ?thesis
      by (auto simp: slot_phi_def bare_def)
  qed
qed simp

lemma assign_slots_ranges:
  "assign_slots ch ef preds b is phis w = (Inr r, w') \<Longrightarrow> i \<in> set is \<Longrightarrow> \<not> no_value (slot_type b i) \<Longrightarrow>
     \<forall>e\<in>set (carried_edges ef preds). in_range ef (slot_at (length (Locals (BF_In b))) i) e"
proof (induction "is" arbitrary: phis w)
  case (Cons k "is")
  show ?case
  proof (cases "no_value (slot_type b k)")
    case True
    with Cons show ?thesis by auto
  next
    case False
    with Cons.prems(1) obtain ops w1 phis' where
      o: "slot_operands ch ef (slot_at (length (Locals (BF_In b))) k) preds [] w = (Inr ops, w1)"
      and r: "assign_slots ch ef preds b is phis' w1 = (Inr r, w')"
      by (auto simp: r_bind_Inr Let_def)
    from slot_operands_Inr [OF o] Cons.IH [OF r] Cons.prems(2,3) show ?thesis by auto
  qed
qed simp

definition block_phis :: "ssa_fun \<Rightarrow> edgeFrames \<Rightarrow> BlockFrame \<Rightarrow> Phi list" where
  "block_phis fn ef b =
     (if joins fn b then
        map (\<lambda>i. slot_phi ef (Incoming (Some fn) (First b)) b i 0)
          (filter (\<lambda>i. \<not> no_value (slot_type b i) \<and> InOrig b ! i = phi_origin (First b) (BF_ID b) i)
            [0..<length (Locals (BF_In b)) + length (Stack (BF_In b))])
      else [])"

lemma assign_blocks_Inr:
  "assign_blocks ch fn ef bs phis w = (Inr r, w') \<Longrightarrow> map bare r = map bare phis @ concat (map (block_phis fn ef) bs)"
proof (induction bs arbitrary: phis w)
  case (Cons b bs)
  show ?case
  proof (cases "joins fn b")
    case False
    with Cons.prems obtain w1 where "assign_blocks ch fn ef bs phis w1 = (Inr r, w')"
      by (auto simp: r_bind_Inr Let_def joins_def split: if_splits)
    from Cons.IH [OF this] False show ?thesis by (simp add: block_phis_def)
  next
    case True
    with Cons.prems obtain ps w1 w2 where
      s: "assign_slots ch ef (Incoming (Some fn) (First b)) b [0..<length (Locals (BF_In b)) + length (Stack (BF_In b))]
        phis w1 = (Inr ps, w2)"
      and r: "assign_blocks ch fn ef bs ps w2 = (Inr r, w')"
      by (auto simp: r_bind_Inr Let_def joins_def split: if_splits)
    from Cons.IH [OF r] assign_slots_Inr [OF s] True show ?thesis by (simp add: block_phis_def)
  qed
qed simp

lemma assign_blocks_ranges:
  "assign_blocks ch fn ef bs phis w = (Inr r, w') \<Longrightarrow> b \<in> set bs \<Longrightarrow> joins fn b \<Longrightarrow>
     i < length (Locals (BF_In b)) + length (Stack (BF_In b)) \<Longrightarrow> \<not> no_value (slot_type b i) \<Longrightarrow>
     \<forall>e\<in>set (carried_edges ef (Incoming (Some fn) (First b))). in_range ef (slot_at (length (Locals (BF_In b))) i) e"
proof (induction bs arbitrary: phis w)
  case (Cons c bs)
  show ?case
  proof (cases "joins fn c")
    case False
    with Cons.prems(1) obtain w1 where "assign_blocks ch fn ef bs phis w1 = (Inr r, w')"
      by (auto simp: r_bind_Inr Let_def joins_def split: if_splits)
    from Cons.IH [OF this] Cons.prems False show ?thesis by auto
  next
    case True
    with Cons.prems(1) obtain ps w1 w2 where
      s: "assign_slots ch ef (Incoming (Some fn) (First c)) c [0..<length (Locals (BF_In c)) + length (Stack (BF_In c))]
        phis w1 = (Inr ps, w2)"
      and r: "assign_blocks ch fn ef bs ps w2 = (Inr r, w')"
      by (auto simp: r_bind_Inr Let_def joins_def split: if_splits)
    from Cons.IH [OF r] assign_slots_ranges [OF s, of i] Cons.prems(2-) show ?thesis by auto
  qed
qed simp

lemma number_phis_simps [simp]:
  "length (number_phis ps) = length ps" "map bare (number_phis ps) = map bare ps"
  "map phi_order (number_phis ps) = map phi_order ps"
  by (auto simp: number_phis_def phi_order_def bare_def intro!: nth_equalityI)

lemma number_phis_IDs: "map P_ID (number_phis ps) = map word_of_nat [1..<Suc (length ps)]"
  by (auto simp: number_phis_def intro!: nth_equalityI simp del: upt_Suc)

lemma slot_order:
  "phi_order (slot_phi ef preds b i n) =
     (BF_ID b, \<not> i < length (Locals (BF_In b)),
      int (if i < length (Locals (BF_In b)) then i else i - length (Locals (BF_In b))))"
  by (simp add: phi_order_def slot_phi_def slot_at_def)

lemma distinct_block_phis: "distinct (map phi_order (block_phis fn ef b))"
proof -
  have "inj (\<lambda>i. phi_order (slot_phi ef preds b i 0))" for preds
    by (rule injI) (auto simp: slot_order split: if_splits)
  then have "distinct (map (\<lambda>i. phi_order (slot_phi ef preds b i 0)) xs)" if "distinct xs" for preds xs
    using that by (simp add: distinct_map inj_on_subset [OF _ subset_UNIV])
  then show ?thesis by (simp add: block_phis_def comp_def)
qed

lemma block_phis_ID: "p \<in> set (block_phis fn ef b) \<Longrightarrow> fst (phi_order p) = BF_ID b"
  by (auto simp: block_phis_def slot_order split: if_splits)

lemma distinct_blocks_phis:
  "distinct (map BF_ID bs) \<Longrightarrow> distinct (map phi_order (concat (map (block_phis fn ef) bs)))"
proof (induction bs)
  case (Cons b bs)
  have ne: "phi_order p \<noteq> phi_order q" if "p \<in> set (block_phis fn ef b)" "c \<in> set bs" "q \<in> set (block_phis fn ef c)" for p q c
  proof -
    have "BF_ID b \<noteq> BF_ID c" using Cons.prems that(2) by auto
    then show ?thesis using block_phis_ID that by metis
  qed
  have "phi_order ` set (block_phis fn ef b) \<inter> phi_order ` set (concat (map (block_phis fn ef) bs)) = {}"
    using ne unfolding disjoint_iff image_iff by (simp, metis)
  with Cons distinct_block_phis [of fn ef b] show ?case by simp
qed simp

lemma assignPhis_Inr:
  assumes "assignPhis ch fn ef w = (Inr fn', w')"
  obtains ps where "fn' = fn\<lparr>Phis := number_phis (sort_key phi_order ps)\<rparr>"
    and "map bare ps = concat (map (block_phis fn ef) (F_Blocks fn))"
    and "\<And>b i e. b \<in> set (F_Blocks fn) \<Longrightarrow> joins fn b \<Longrightarrow> i < length (Locals (BF_In b)) + length (Stack (BF_In b)) \<Longrightarrow>
      \<not> no_value (slot_type b i) \<Longrightarrow> e \<in> set (carried_edges ef (Incoming (Some fn) (First b))) \<Longrightarrow>
      in_range ef (slot_at (length (Locals (BF_In b))) i) e"
proof -
  from assms obtain ps w1 where "assign_blocks ch fn ef (F_Blocks fn) [] w = (Inr ps, w1)"
    and "fn' = fn\<lparr>Phis := number_phis (sort_key phi_order ps)\<rparr>"
    by (auto simp: assignPhis_def r_bind_Inr)
  with that assign_blocks_Inr assign_blocks_ranges show ?thesis by fastforce
qed

section \<open>Properties\<close>


section \<open>The loop\<close>

definition loop_solved_edges :: edgeFrames where
  "loop_solved_edges =
     \<lparr>EF_normal = [E_ID (entry_edge loop_ir) \<mapsto> (NewFrame 1)\<lparr>Locals := [T IntK]\<rparr>,
        E_ID (edge_between 3 0 EdgeTaken) \<mapsto> (NewFrame 1)\<lparr>Locals := [T IntK]\<rparr>],
      EF_orig = [E_ID (entry_edge loop_ir) \<mapsto> [param_origin 0], E_ID (edge_between 3 0 EdgeTaken) \<mapsto> [instr_origin 0 0]]\<rparr>"

definition loop_solved_fun :: ssa_fun where
  "loop_solved_fun =
     \<lparr>Values = [], EdgeStates = Map.empty, Instructions = [], entryEdge = Some (entry_edge loop_ir),
      incoming = Some (\<lambda>pc. if pc = 0 then [entry_edge loop_ir, edge_between 3 0 EdgeTaken] else []), F_IR = Some loop_ir,
      F_Blocks = [\<lparr>Reachable = True, BF_ID = 0, First = 0, BF_In = (NewFrame 1)\<lparr>Locals := [T IntK]\<rparr>,
        BF_Out = (NewFrame 1)\<lparr>Locals := [T IntK]\<rparr>, InOrig = [phi_origin 0 0 0], OutOrig = [instr_origin 0 0]\<rparr>],
      Phis = [], Params = [], Work = 2\<rparr>"

lemma loop_phis_assigned:
  "case assignPhis c_charge loop_solved_fun loop_solved_edges \<lparr>CMax = 100, CUsed = 0\<rparr> of
     (Inr fn, _) \<Rightarrow> map (\<lambda>p. map PO_Origin (Operands p)) (Phis fn) = [[param_origin 0, instr_origin 0 0]]
   | _ \<Rightarrow> False"
  by code_simp


end
