(* ===== verification/BuildProps.thy ===== *)
theory BuildProps
  imports ValueNumbers SsaPhisProps Lowering
begin

text \<open>
  The function that \<open>Build\<close> answers: its phis have one operand for every live edge into their block, which
  is what the edge carries.
\<close>

section \<open>The names of blocks and edges\<close>

definition edge_ids :: "MethodIR \<Rightarrow> EdgeID set" where
  "edge_ids ir = insert (E_ID (entry_edge ir)) (E_ID ` set (M_Edges ir))"

definition names :: "BlockFrame list \<Rightarrow> (BlockID \<times> u16) list" where
  "names bs = map (\<lambda>b. (BF_ID b, First b)) bs"

text \<open>The worklist keeps the names of the blocks and knows a frame for every edge that has origins.\<close>

definition named :: "MethodIR \<Rightarrow> worklist \<Rightarrow> bool" where
  "named ir w \<longleftrightarrow>
     names (W_blocks w) = map (\<lambda>b. (B_ID b, FirstPC b)) (M_Blocks ir) \<and>
     dom (EF_normal (W_ef w)) = dom (EF_orig (W_ef w)) \<and> dom (EF_orig (W_ef w)) \<subseteq> edge_ids ir"

lemma named_simps [simp]:
  "named ir (w\<lparr>W_records := R\<rparr>) = named ir w" "named ir (w\<lparr>W_work := k\<rparr>) = named ir w"
  "named ir (w\<lparr>W_pending := p\<rparr>) = named ir w" "named ir (w\<lparr>W_inQ := q\<rparr>) = named ir w"
  by (simp_all add: named_def)

lemma named_put: "e \<in> set (M_Edges ir) \<Longrightarrow> named ir w \<Longrightarrow> named ir (put_edge ir e fr og w)"
  by (auto simp: named_def put_edge_def enqueue_def edge_ids_def)

lemma names_update:
  assumes "BF_ID bf = BF_ID (bs ! i)" and "First bf = First (bs ! i)"
  shows "names (bs[i := bf]) = names bs"
proof (cases "i < length bs")
  case True
  then have "names bs ! i = (BF_ID bf, First bf)" using assms by (simp add: names_def)
  then have "(names bs)[i := (BF_ID bf, First bf)] = names bs" by (metis list_update_id)
  then show ?thesis by (simp add: names_def map_update)
qed (simp add: list_update_beyond)

lemma named_block:
  "named ir w \<Longrightarrow> BF_ID bf = BF_ID (W_blocks w ! i) \<Longrightarrow> First bf = First (W_blocks w ! i) \<Longrightarrow>
     named ir (w\<lparr>W_blocks := (W_blocks w)[i := bf]\<rparr>)"
  by (simp add: named_def names_update)

lemma named_solve_block:
  assumes N: "named ir w" and s: "solve_block fl ir bid w c = (Inr w', c')"
  shows "named ir w'"
proof -
  let ?i = "case block_index ir bid of None \<Rightarrow> 0 | Some i \<Rightarrow> i"
  let ?b = "M_Blocks ir ! ?i" and ?bf = "W_blocks w ! ?i"
  from s obtain r c1 where jn: "join_edges (W_ef w) (block_incoming ir bid) None 0 c = (Inr r, c1)"
    by (auto simp: solve_block_def Let_def r_bind_Inr)
  show ?thesis
  proof (cases "fst r")
    case None
    with s jn N show ?thesis by (cases r) (simp add: solve_block_def r_bind_step Let_def)
  next
    case (Some fo)
    then obtain f og0 n where r: "r = (Some (f, og0), n)" by (cases r; cases fo) auto
    let ?og = "entry_origins ?b f og0 n"
    let ?w = "w\<lparr>W_blocks := (W_blocks w)[?i := ?bf\<lparr>Reachable := True, BF_In := f, InOrig := ?og\<rparr>]\<rparr>"
    show ?thesis
    proof (cases "Reachable ?bf \<and> FrameEqual (BF_In ?bf) f \<and> originsEqual (InOrig ?bf) ?og")
      case True
      with s jn r N show ?thesis by (simp add: solve_block_def r_bind_step Let_def)
    next
      case False
      with s jn r obtain out outOrig w1 c2 where
        run: "run_instrs fl ir (InstrIDs ?b) f ?og ?w c1 = (Inr (out, outOrig, w1), c2)"
        and w': "w' = w1\<lparr>W_blocks := (W_blocks w1)[?i := (W_blocks w1 ! ?i)\<lparr>BF_Out := out, OutOrig := outOrig\<rparr>]\<rparr>"
        by (auto simp: solve_block_def r_bind_step Let_def r_bind_Inr simp del: de_Morgan_conj)
      from run_instrs_spec [OF run] obtain sts R where
        flow: "flow_spec fl ir (InstrIDs ?b) f ?og = Inr (sts, out, outOrig)"
        and w1: "w1 = (put_all ir sts ?w)\<lparr>W_records := R\<rparr>" by blast
      have sts: "set (map fst sts) \<subseteq> set (M_Edges ir)"
        by (simp only: flow_spec_edges [OF flow]) (auto simp: outgoing_def)
      have "named ir ?w" using N by (rule named_block) simp_all
      then have "named ir (put_all ir sts ?w)" using named_put sts by (intro put_all_kept [where P = "named ir"]) auto
      then have "named ir w1" by (simp add: w1)
      then show ?thesis unfolding w' by (rule named_block) simp_all
    qed
  qed
qed

lemma named_solve_loop:
  "solve_loop fl ir ord pick w c = (Inr w', c') \<Longrightarrow> named ir w \<Longrightarrow> named ir w'"
proof (induction fl ir ord pick w c rule: solve_loop.induct)
  case (1 fl ir ord pick w c)
  show ?case
  proof (cases "W_pending w = []")
    case True
    with 1 show ?thesis by (simp add: solve_loop.simps [of fl ir ord pick w])
  next
    case False
    obtain w1 c1 where s: "solve_step fl ir ord pick w c = (Inr w1, c1)"
      and l: "solve_loop fl ir ord pick w1 c1 = (Inr w', c')"
      using 1(2) False by (auto simp: solve_loop.simps [of fl ir ord pick w] r_bind_Inr)
    from s have "named ir w1"
      using 1(3) by (auto simp: solve_step_def r_bind_Inr Let_def dequeue_def dest!: named_solve_block [rotated])
    with 1(1) [OF False s l] show ?thesis .
  qed
qed

lemma named_solve:
  assumes "solve fl ir ord pick c = (Inr w, c')"
  shows "named ir w"
proof -
  from assms obtain entryID entry c1 where l: "solve_loop fl ir ord pick (start_worklist ir entryID entry) c1 = (Inr w, c')"
    by (auto simp: solve_def r_bind_Inr split: option.splits if_splits)
  have "named ir (start_worklist ir entryID entry)"
    by (simp add: named_def names_def start_worklist_def empty_block_def Let_def edge_ids_def)
  with l show ?thesis by (rule named_solve_loop)
qed

section \<open>The operands of the phis\<close>

text \<open>An order of the edge states that names every one once.\<close>

definition lists_keys :: "MethodIR \<Rightarrow> ((EdgeID \<rightharpoonup> EdgeState) \<Rightarrow> EdgeID list) \<Rightarrow> bool" where
  "lists_keys ir es \<longleftrightarrow> (\<forall>m. dom m \<subseteq> edge_ids ir \<longrightarrow> distinct (es m) \<and> set (es m) = dom m)"

text \<open>
  A phi fits its function: it belongs to a reachable block, and its operands are, edge by edge, what the live
  edges into that block carry in its slot.
\<close>

definition state_index :: "SlotKey \<Rightarrow> EdgeState \<Rightarrow> int" where
  "state_index sk st = (if S_Local sk then S_Index sk else int (length (Locals (ES_Frame st))) + S_Index sk)"

definition operand_fits :: "ssa_fun \<Rightarrow> SlotKey \<Rightarrow> PhiOperand \<Rightarrow> bool" where
  "operand_fits fn sk op \<longleftrightarrow>
     (\<exists>st. EdgeStates fn (PO_Edge op) = Some st \<and> 0 \<le> state_index sk st \<and>
        state_index sk st < int (length (ES_Origins st)) \<and> PO_Origin op = ES_Origins st ! nat (state_index sk st))"

definition phi_fits :: "ssa_fun \<Rightarrow> MethodIR \<Rightarrow> Phi \<Rightarrow> bool" where
  "phi_fits fn ir p \<longleftrightarrow>
     (\<exists>b\<in>set (F_Blocks fn). BF_ID b = P_Block p \<and> Reachable b) \<and>
     map PO_Edge (Operands p) = map E_ID (filter (\<lambda>e. live fn (E_ID e)) (block_incoming ir (P_Block p))) \<and>
     (\<forall>op\<in>set (Operands p). operand_fits fn (P_Slot p) op)"

lemma incoming_index_named:
  assumes g: "good_ir ir" and b: "b \<in> set (M_Blocks ir)"
  shows "incoming_index ir (FirstPC b) = block_incoming ir (B_ID b)"
proof -
  have first: "first_pc ir (B_ID c) = FirstPC c" if c: "c \<in> set (M_Blocks ir)" for c
  proof -
    from c obtain i where i: "i < length (M_Blocks ir)" "c = M_Blocks ir ! i" by (auto simp: in_set_conv_nth)
    with block_index_nth [OF g i(1)] show ?thesis by (simp add: first_pc_def)
  qed
  have same: "c = b" if "c \<in> set (M_Blocks ir)" "FirstPC c = FirstPC b" for c
    using g b that by (auto simp: good_ir_def distinct_map inj_on_def)
  obtain c where "find (\<lambda>c. first_pc ir (B_ID c) = FirstPC b) (M_Blocks ir) = Some c"
    using b first [OF b] by (cases "find (\<lambda>c. first_pc ir (B_ID c) = FirstPC b) (M_Blocks ir)") (auto simp: find_None_iff)
  moreover from this have "c = b" using first same by (auto simp: find_Some_iff)
  ultimately show ?thesis by (simp add: incoming_index_def)
qed

lemma names_mem: "names bs = map (\<lambda>b. (B_ID b, FirstPC b)) cs \<Longrightarrow> b \<in> set bs \<Longrightarrow> \<exists>c\<in>set cs. BF_ID b = B_ID c \<and> First b = FirstPC c"
proof -
  assume n: "names bs = map (\<lambda>b. (B_ID b, FirstPC b)) cs" and b: "b \<in> set bs"
  from b have "(BF_ID b, First b) \<in> set (names bs)" by (auto simp: names_def)
  then show ?thesis unfolding n by auto
qed

lemma sorted_incoming: "sorted (map (\<lambda>e. EdgeID_String (E_ID e)) (block_incoming ir bid))"
  by (simp add: block_incoming_def sort_edges_def)

lemma sort_sorted: "sorted (map f xs) \<Longrightarrow> sort_key f xs = xs"
  by (induction xs) (auto simp: insort_is_Cons)

lemma assigned_phis_fit:
  assumes g: "good_ir ir" and N: "named ir w" and a: "assignPhis ch (solved_fun ir w) (W_ef w) c = (Inr fn, c')"
    and p: "p \<in> set (Phis fn)"
  shows "phi_fits fn ir p"
proof -
  let ?ef = "W_ef w"
  from a obtain ps where fn: "fn = (solved_fun ir w)\<lparr>Phis := number_phis (sort_key phi_order ps)\<rparr>"
    and ps: "map bare ps = concat (map (block_phis (solved_fun ir w) ?ef) (F_Blocks (solved_fun ir w)))"
    and ranges: "\<And>b i e. b \<in> set (F_Blocks (solved_fun ir w)) \<Longrightarrow> joins (solved_fun ir w) b \<Longrightarrow>
      i < length (Locals (BF_In b)) + length (Stack (BF_In b)) \<Longrightarrow> \<not> no_value (slot_type b i) \<Longrightarrow>
      e \<in> set (carried_edges ?ef (Incoming (Some (solved_fun ir w)) (First b))) \<Longrightarrow>
      in_range ?ef (slot_at (length (Locals (BF_In b))) i) e"
    by (rule assignPhis_Inr) (rule that; assumption)
  have dom: "dom (EF_normal ?ef) = dom (EF_orig ?ef)" using N by (simp add: named_def)
  have live: "live fn i \<longleftrightarrow> EF_orig ?ef i \<noteq> None" for i
    using dom by (auto simp: live_def fn solved_fun_def edge_states_of_def split: option.splits)
  have "bare p \<in> set (map bare ps)"
  proof -
    have "bare p \<in> set (map bare (Phis fn))" using p by auto
    then show ?thesis by (simp only: fn ssa_fun.select_convs ssa_fun.update_convs ssa_fun.surjective number_phis_simps) simp
  qed
  then obtain b i preds where b: "b \<in> set (F_Blocks (solved_fun ir w))" and j: "joins (solved_fun ir w) b"
    and i: "i < length (Locals (BF_In b)) + length (Stack (BF_In b))" "\<not> no_value (slot_type b i)"
    and preds0: "preds = Incoming (Some (solved_fun ir w)) (First b)" and pb: "bare p = slot_phi ?ef preds b i 0"
    unfolding ps by (auto simp: block_phis_def split: if_splits)
  have b': "b \<in> set (W_blocks w)" "Reachable b" and preds: "preds = incoming_index ir (First b)"
    using b j preds0 by (simp_all add: solved_fun_def joins_def Incoming_def)
  from N b' obtain mb where mb: "mb \<in> set (M_Blocks ir)" "BF_ID b = B_ID mb" "First b = FirstPC mb"
    using names_mem unfolding named_def by blast
  have inc: "preds = block_incoming ir (BF_ID b)" using incoming_index_named [OF g mb(1)] mb preds by simp
  let ?sk = "slot_at (length (Locals (BF_In b))) i"
  have P: "P_Block p = BF_ID b" "P_Slot p = ?sk"
    and ops: "Operands p = sort_operands (map (slot_operand ?ef ?sk) (carried_edges ?ef preds))"
    using arg_cong [OF pb, of P_Block] arg_cong [OF pb, of P_Slot] arg_cong [OF pb, of Operands]
    by (simp_all add: slot_phi_def)
  have "sorted (map (\<lambda>e. EdgeID_String (E_ID e)) (carried_edges ?ef preds))"
    unfolding inc carried_edges_def using sorted_incoming by (rule sorted_filter)
  then have ops': "Operands p = map (slot_operand ?ef ?sk) (carried_edges ?ef preds)"
    unfolding ops sort_operands_def by (intro sort_sorted) (simp add: comp_def slot_operand_def)
  then have "map PO_Edge (Operands p) = map E_ID (filter (\<lambda>e. live fn (E_ID e)) (block_incoming ir (P_Block p)))"
    by (simp add: slot_operand_def carried_edges_def inc P live)
  moreover have "operand_fits fn (P_Slot p) op" if "op \<in> set (Operands p)" for op
  proof -
    from that obtain e where e: "e \<in> set (carried_edges ?ef preds)" and op: "op = slot_operand ?ef ?sk e"
      unfolding ops' by auto
    from e have "E_ID e \<in> dom (EF_orig ?ef)" by (auto simp: carried_edges_def)
    moreover from this have "E_ID e \<in> dom (EF_normal ?ef)" using dom by simp
    ultimately obtain fr og where st: "EF_normal ?ef (E_ID e) = Some fr" "EF_orig ?ef (E_ID e) = Some og" by blast
    have "EdgeStates fn (E_ID e) = Some \<lparr>ES_Frame = fr, ES_Origins = og\<rparr>"
      using st by (simp add: fn solved_fun_def edge_states_of_def origins_at_def)
    moreover have "operand_index ?ef ?sk (E_ID e) = state_index ?sk \<lparr>ES_Frame = fr, ES_Origins = og\<rparr>"
      using st by (simp add: operand_index_def state_index_def frame_at_def)
    moreover have "in_range ?ef ?sk e" using ranges [OF b j i] e preds0 by simp
    ultimately show ?thesis using st unfolding P op operand_fits_def
      by (simp add: slot_operand_def in_range_def origins_at_def)
  qed
  moreover have "\<exists>b\<in>set (F_Blocks fn). BF_ID b = P_Block p \<and> Reachable b"
    using b' P by (auto simp: fn solved_fun_def)
  ultimately show ?thesis by (simp add: phi_fits_def)
qed

lemma in_enumerate: "(i, p) \<in> set (List.enumerate n ps) \<Longrightarrow> p \<in> set ps"
  by (metis enumerate_eq_zip set_zip_rightD)

lemma rewritten_phis_fit:
  assumes "\<forall>p\<in>set (Phis fn). phi_fits fn ir p"
  shows "\<forall>p\<in>set (Phis (rewritten al fn)). phi_fits (rewritten al fn) ir p"
proof
  fix q assume "q \<in> set (Phis (rewritten al fn))"
  then obtain i p where p: "p \<in> set (Phis fn)" and q: "q = rewrite_phi al i p"
    by (auto simp: rewritten_def dest!: in_enumerate)
  from assms p have f: "phi_fits fn ir p" by blast
  have live: "live (rewritten al fn) i \<longleftrightarrow> live fn i" for i by (simp add: live_def rewritten_def)
  have Q: "P_Block q = P_Block p" "P_Slot q = P_Slot p" "Operands q = map (resolve_operand al) (Operands p)"
    by (simp_all add: q rewrite_phi_def)
  have "map PO_Edge (Operands q) = map PO_Edge (Operands p)" by (simp add: Q resolve_operand_def)
  with f have "map PO_Edge (Operands q) =
      map E_ID (filter (\<lambda>e. live (rewritten al fn) (E_ID e)) (block_incoming ir (P_Block q)))"
    by (simp add: phi_fits_def Q live)
  moreover have "operand_fits (rewritten al fn) (P_Slot q) op" if "op \<in> set (Operands q)" for op
  proof -
    from that obtain op' where op': "op' \<in> set (Operands p)" "op = resolve_operand al op'" by (auto simp: Q)
    with f obtain st where "EdgeStates fn (PO_Edge op') = Some st" "0 \<le> state_index (P_Slot p) st"
      "state_index (P_Slot p) st < int (length (ES_Origins st))" "PO_Origin op' = ES_Origins st ! nat (state_index (P_Slot p) st)"
      unfolding phi_fits_def operand_fits_def by blast
    moreover from this have "nat (state_index (P_Slot p) st) < length (ES_Origins st)" by linarith
    moreover have "state_index sk (rewrite_state al st) = state_index sk st" for sk
      by (simp add: state_index_def rewrite_state_def)
    ultimately show ?thesis unfolding operand_fits_def op'(2) Q
      by (intro exI [of _ "rewrite_state al st"]) (simp add: rewritten_def resolve_operand_def rewrite_state_def)
  qed
  moreover from f obtain b where "b \<in> set (F_Blocks fn)" "BF_ID b = P_Block p" "Reachable b" unfolding phi_fits_def by blast
  then have "\<exists>b\<in>set (F_Blocks (rewritten al fn)). BF_ID b = P_Block q \<and> Reachable b"
    by (auto simp: rewritten_def rewrite_block_def Q)
  ultimately show "phi_fits (rewritten al fn) ir q" by (simp add: phi_fits_def)
qed

lemma bound_phis_fit:
  assumes "bindValues ch es fn w = (Inr fn', w')" and "\<forall>p\<in>set (Phis fn). phi_fits fn ir p"
  shows "\<forall>p\<in>set (Phis fn'). phi_fits fn' ir p"
proof -
  from assms(1) obtain m where m: "fn' = bound m es fn" by (rule bindValues_Inr)
  then have fn': "Phis fn' = map (bind_phi m) (Phis fn)" "EdgeStates fn' = EdgeStates fn" "F_Blocks fn' = F_Blocks fn"
    by (simp_all add: bound_def)
  have "live fn' = live fn" by (simp add: live_def fn' fun_eq_iff)
  with assms(2) show ?thesis
    by (auto simp: fn' phi_fits_def bind_phi_def operand_fits_def comp_def)
qed

lemma build_Inr:
  assumes b: "build_with fl ord pick es ir c = (Inr fn, c')" and keys: "lists_keys ir es"
  obtains "fn = empty_fun ir"
    | w c1 fn1 c2 al c3 where "named ir w" and "assignPhis c_charge (solved_fun ir w) (W_ef w) c1 = (Inr fn1, c2)"
      and "simplifyPhiCopies c_charge (es (EdgeStates fn1)) fn1 c2 = (Inr (rewritten al fn1), c3)"
      and "bindValues c_charge (es (EdgeStates (rewritten al fn1))) (rewritten al fn1) c3 = (Inr fn, c')"
      and "dom (EdgeStates fn1) \<subseteq> edge_ids ir"
proof (cases "M_Blocks ir = []")
  case True
  with b that(1) show ?thesis by (simp add: build_with_def)
next
  case False
  with b obtain w c1 fn1 c2 fn2 c3 where s: "solve fl ir ord pick c = (Inr w, c1)"
    and a: "assignPhis c_charge (solved_fun ir w) (W_ef w) c1 = (Inr fn1, c2)"
    and p: "simplifyPhiCopies c_charge (es (EdgeStates fn1)) fn1 c2 = (Inr fn2, c3)"
    and v: "bindValues c_charge (es (EdgeStates fn2)) fn2 c3 = (Inr fn, c')"
    by (auto simp: build_with_def finish_def r_bind_Inr)
  from s have N: "named ir w" by (rule named_solve)
  from a have "EdgeStates fn1 = edge_states_of (W_ef w)" by (elim assignPhis_Inr) (simp add: solved_fun_def)
  then have d: "dom (EdgeStates fn1) \<subseteq> edge_ids ir"
    using N by (auto simp: named_def edge_states_of_def dom_def split: option.splits)
  with keys have k: "distinct (es (EdgeStates fn1))" "set (es (EdgeStates fn1)) = dom (EdgeStates fn1)"
    unfolding lists_keys_def by blast+
  from simplify_Inr [OF p k] obtain al where "fn2 = rewritten al fn1" by blast
  with that(2) [OF N a] p v d show ?thesis by blast
qed

lemma built_phis_fit:
  assumes "good_ir ir" and "lists_keys ir es" and "build_with fl ord pick es ir c = (Inr fn, c')"
    and "p \<in> set (Phis fn)"
  shows "phi_fits fn ir p"
  using build_Inr [OF assms(3,2)]
proof cases
  case 1
  with assms(4) show ?thesis by (simp add: empty_fun_def)
next
  case (2 w c1 fn1 c2 al c3)
  have "\<forall>p\<in>set (Phis fn1). phi_fits fn1 ir p" using assigned_phis_fit [OF assms(1) 2(1,2)] by blast
  from bound_phis_fit [OF 2(4) rewritten_phis_fit [OF this]] assms(4) show ?thesis by blast
qed

section \<open>Properties of Build\<close>

text \<open>C6: in the function that \<open>Build\<close> answers every phi belongs to a reachable block and has exactly one
  operand for each live edge into that block, in the order of the edges, and the operand is the origin that the
  state of the edge holds in the slot of the phi, also after the simplification of copies.\<close>

theorem build_phis_fit:
  assumes "good_ir ir" and "lists_keys ir es" and "build_with fl ord pick es ir c = (Inr fn, c')"
  shows "\<forall>p\<in>set (Phis fn). phi_fits fn ir p"
  using built_phis_fit [OF assms] by blast

text \<open>Where a phi has one operand for an edge, lowering copies that operand and no other.\<close>

lemma find_operands_skip:
  "\<forall>op\<in>set ops. PO_Edge op \<noteq> E_ID e \<Longrightarrow> find_operands no_charge vr e p ops found copies = r_ret (found, copies)"
  by (induction ops) simp_all

lemma find_operands_one:
  assumes "op \<in> set ops" and "distinct (map PO_Edge ops)" and "PO_Edge op = E_ID e"
  shows "find_operands no_charge vr e p ops False copies =
    r_bind (r_lift (PhiID (Some vr) p)) (\<lambda>dst. r_bind (r_lift (OriginID (Some vr) (PO_Origin op))) (\<lambda>src.
      r_ret (True, copies @ [\<lparr>Dst = dst, Src = src\<rparr>])))"
  using assms(1,2)
proof (induction ops)
  case (Cons o1 ops)
  show ?case
  proof (cases "o1 = op")
    case True
    have rest: "\<forall>op\<in>set ops. PO_Edge op \<noteq> E_ID e" using Cons.prems(2) True assms(3) by force
    show ?thesis by (simp add: True assms(3) find_operands_skip [OF rest])
  next
    case False
    with Cons.prems have op: "op \<in> set ops" by simp
    with Cons.prems(2) assms(3) have "PO_Edge o1 \<noteq> E_ID e" by (metis distinct.simps(2) image_eqI image_set list.simps(9))
    with Cons.IH [OF op] Cons.prems(2) show ?thesis by simp
  qed
qed simp

lemma distinct_incoming:
  assumes "good_ir ir"
  shows "distinct (map E_ID (block_incoming ir bid))"
proof -
  have "distinct (map E_ID (sort_edges es)) = distinct (map E_ID es)" for es
    unfolding sort_edges_def by (metis distinct_map distinct_sort set_sort)
  moreover have "distinct (map E_ID (filter P (M_Edges ir)))" for P
    using assms by (simp add: good_ir_def distinct_map inj_on_def)
  ultimately show ?thesis using assms by (auto simp: block_incoming_def good_ir_def)
qed

lemma block_of_mem: "block_of pc bs = Some b \<Longrightarrow> b \<in> set bs"
  by (induction pc bs rule: block_of.induct) (auto split: if_splits)

lemma block_at_first:
  assumes "good_ir ir" and "b \<in> set (M_Blocks ir)"
  shows "block_at ir (FirstPC b) = Some (B_ID b)"
  unfolding block_at_def using assms by (intro map_of_is_SomeI) (auto simp: good_ir_def rev_map [symmetric] comp_def)

text \<open>C4: construction and lowering agree: for every live edge into the first instruction of a block, every phi
  of the block in a function that \<open>Build\<close> answers yields exactly one copy, from the origin that the edge carries in
  the slot of the phi; lowering never finds a phi with a missing or a second operand for the edge.\<close>

theorem built_phi_copied:
  assumes "good_ir ir" and "lists_keys ir es" and "build_with fl ord pick es ir c = (Inr fn, c')"
    and "e \<in> set (M_Edges ir)" and "EdgeStates fn (E_ID e) = Some st"
    and "BlockOf (Some ir) (E_To e) = Some b" and "FirstPC b = E_To e" and "p \<in> set (PhisOf fn (B_ID b))"
  shows "phi_copy no_charge vr e p copies =
    r_bind (r_lift (PhiID (Some vr) p)) (\<lambda>dst.
      r_bind (r_lift (OriginID (Some vr) (ES_Origins st ! nat (state_index (P_Slot p) st)))) (\<lambda>src.
        r_ret (copies @ [\<lparr>Dst = dst, Src = src\<rparr>])))"
proof -
  have p: "p \<in> set (Phis fn)" "P_Block p = B_ID b" using assms(8) by (simp_all add: PhisOf_def)
  have f: "phi_fits fn ir p" by (rule built_phis_fit [OF assms(1-3) p(1)])
  have "b \<in> set (M_Blocks ir)" using assms(6) by (auto simp: BlockOf_def dest: block_of_mem)
  with block_at_first [OF assms(1)] assms(7) have "block_at ir (E_To e) = Some (B_ID b)" by metis
  with assms(4,5) have mem: "e \<in> set (filter (\<lambda>e. live fn (E_ID e)) (block_incoming ir (B_ID b)))"
    by (simp add: block_incoming_edge live_def)
  have ops: "map PO_Edge (Operands p) = map E_ID (filter (\<lambda>e. live fn (E_ID e)) (block_incoming ir (B_ID b)))"
    using f p(2) by (simp add: phi_fits_def)
  have "E_ID e \<in> set (map PO_Edge (Operands p))" using imageI [OF mem, of E_ID] unfolding ops list.set_map .
  then obtain op where op: "op \<in> set (Operands p)" "PO_Edge op = E_ID e" by auto
  have "distinct (map PO_Edge (Operands p))"
    unfolding ops by (intro distinct_map_filter distinct_incoming [OF assms(1)])
  note one = find_operands_one [OF op(1) this op(2)]
  have "PO_Origin op = ES_Origins st ! nat (state_index (P_Slot p) st)"
    using f op assms(5) unfolding phi_fits_def operand_fits_def by force
  then show ?thesis by (simp add: phi_copy_def one)
qed

section \<open>The loop is built\<close>

definition loop_back :: ir_edge where
  "loop_back = edge_between 3 0 EdgeTaken"

definition loop_keys_of :: "(EdgeID \<rightharpoonup> EdgeState) \<Rightarrow> EdgeID list" where
  "loop_keys_of m = filter (\<lambda>i. m i \<noteq> None) [E_ID (entry_edge loop_ir), E_ID loop_back]"

lemma loop_keys_listed: "lists_keys loop_ir loop_keys_of"
proof -
  have d: "E_ID (entry_edge loop_ir) \<noteq> E_ID loop_back" by code_simp
  have e: "edge_ids loop_ir = {E_ID (entry_edge loop_ir), E_ID loop_back}"
    by (simp add: edge_ids_def loop_back_def loop_ir_def)
  show ?thesis unfolding lists_keys_def e using d by (auto simp: loop_keys_of_def)
qed

text \<open>
  The whole of \<open>Build\<close> on \<open>for (;;) x++\<close>: one phi, the parameter on the entry and the incremented value on the
  back edge; the values 1 (the phi), 2 (the parameter) and 3.
\<close>

lemma loop_built:
  "case build_with no_floats FIFO (\<lambda>_ _. 0) loop_keys_of loop_ir \<lparr>CMax = 200, CUsed = 0\<rparr> of
     (Inr fn, c') \<Rightarrow>
       map P_ID (Phis fn) = [1] \<and> map P_Block (Phis fn) = [0] \<and>
       map (\<lambda>p. map PO_Origin (Operands p)) (Phis fn) = [[param_origin 0, instr_origin 0 0]] \<and>
       map VD_ID (Values fn) = [1, 2, 3] \<and> Params fn = [2] \<and> EdgeStates fn (E_ID loop_back) \<noteq> None
   | _ \<Rightarrow> False"
  by code_simp

theorem build_phis_fit_witness:
  "\<exists>fn c'. build_with no_floats FIFO (\<lambda>_ _. 0) loop_keys_of loop_ir \<lparr>CMax = 200, CUsed = 0\<rparr> = (Inr fn, c') \<and>
     map P_ID (Phis fn) = [1] \<and> phi_fits fn loop_ir (hd (Phis fn))"
proof -
  from loop_built obtain fn c' where
    b: "build_with no_floats FIFO (\<lambda>_ _. 0) loop_keys_of loop_ir \<lparr>CMax = 200, CUsed = 0\<rparr> = (Inr fn, c')"
    and p: "map P_ID (Phis fn) = [1]"
    by (auto split: prod.splits sum.splits)
  from build_phis_fit [OF good_loop_ir loop_keys_listed b] p have "phi_fits fn loop_ir (hd (Phis fn))" by fastforce
  with b p show ?thesis by (intro exI [of _ fn] exI [of _ c']) simp
qed

theorem built_phi_copied_witness:
  "\<exists>fn c' st p. build_with no_floats FIFO (\<lambda>_ _. 0) loop_keys_of loop_ir \<lparr>CMax = 200, CUsed = 0\<rparr> = (Inr fn, c') \<and>
     EdgeStates fn (E_ID loop_back) = Some st \<and> Phis fn = [p] \<and>
     (\<forall>vr. phi_copy no_charge vr loop_back p [] =
        r_bind (r_lift (PhiID (Some vr) p)) (\<lambda>dst.
          r_bind (r_lift (OriginID (Some vr) (ES_Origins st ! nat (state_index (P_Slot p) st)))) (\<lambda>src.
            r_ret [\<lparr>Dst = dst, Src = src\<rparr>])))"
proof -
  from loop_built obtain fn c' where
    b: "build_with no_floats FIFO (\<lambda>_ _. 0) loop_keys_of loop_ir \<lparr>CMax = 200, CUsed = 0\<rparr> = (Inr fn, c')"
    and p: "map P_ID (Phis fn) = [1]" "map P_Block (Phis fn) = [0]" and st: "EdgeStates fn (E_ID loop_back) \<noteq> None"
    by (auto split: prod.splits sum.splits)
  from p obtain q where q: "Phis fn = [q]" "P_Block q = 0" by auto
  from st obtain s where s: "EdgeStates fn (E_ID loop_back) = Some s" by blast
  have e: "loop_back \<in> set (M_Edges loop_ir)" by (simp add: loop_back_def loop_ir_def)
  have "BlockOf (Some loop_ir) (E_To loop_back) = Some \<lparr>B_ID = 0, FirstPC = 0, InstrIDs = [0, 3]\<rparr>" by code_simp
  moreover have "FirstPC \<lparr>B_ID = 0, FirstPC = 0, InstrIDs = [0, 3]\<rparr> = E_To loop_back" by code_simp
  moreover have "q \<in> set (PhisOf fn (B_ID \<lparr>B_ID = 0, FirstPC = 0, InstrIDs = [0, 3]\<rparr>))" using q by (simp add: PhisOf_def)
  ultimately have "phi_copy no_charge vr loop_back q [] =
      r_bind (r_lift (PhiID (Some vr) q)) (\<lambda>dst.
        r_bind (r_lift (OriginID (Some vr) (ES_Origins s ! nat (state_index (P_Slot q) s)))) (\<lambda>src.
          r_ret [\<lparr>Dst = dst, Src = src\<rparr>]))" for vr
    using built_phi_copied [OF good_loop_ir loop_keys_listed b e s, of _ q vr "[]"] by simp
  with b s q(1) show ?thesis by (intro exI [of _ fn] exI [of _ c'] exI [of _ s] exI [of _ q]) simp
qed

end
