(* ===== verification/Spec2Isabelle.thy ===== *)
theory Spec2Isabelle
  imports Mutf8Use WorkBudget FrameJoin FrameDup OriginStep SsaEntry StackMap RegistryProps LowerProps BuildProps
begin

text \<open>Root of the development.\<close>

end
